(* ===== verification/Prelude.thy ===== *)
theory Prelude
  imports Main "HOL-Library.Word" "HOL-Library.Char_ord" "HOL-Library.List_Lexorder"
    "HOL-Library.Code_Target_Numeral"
begin

text \<open>
  Shared ground of the development: the machine types of the Go program (bytes, 16-bit
  lengths, instants and durations), the conversions between \<open>string\<close> and \<open>[]byte\<close>,
  generic facts on association lists (Go maps that the program iterates over), and the
  two generic interfaces that several components implement: a prefix-decodable codec and a
  transition system with an invariant.
\<close>

unbundle bit_operations_syntax

section \<open>Types\<close>

type_synonym byte = "8 word"
type_synonym bytes = "byte list"

text \<open>
  \<open>time.Time\<close> is the number of nanoseconds since the Unix epoch, \<open>time.Duration\<close> a
  number of nanoseconds. The zero \<open>time.Time\<close> is the first instant of year 1.
\<close>

type_synonym time = int
type_synonym duration = int

definition second :: duration where
  "second = 1000000000"

definition zero_time :: time where
  "zero_time = - 62135596800000000000"

text \<open>\<open>t.UnixMilli()\<close>: whole milliseconds, rounded towards minus infinity.\<close>

definition unix_milli :: "time \<Rightarrow> int" where
  "unix_milli t = t div 1000000"

section \<open>Collections of rewrite rules\<close>

named_theorems wire "byte level encodings"
named_theorems reg_simps "what the registry's operations do to one entry"

section \<open>Bytes and strings\<close>

text \<open>
  A Go string is a sequence of bytes, which is what an Isabelle \<open>string\<close> (a list of
  8-bit characters) is. \<open>[]byte(s)\<close> and \<open>string(b)\<close> convert element by element.
\<close>

definition byte_of :: "char \<Rightarrow> byte" where
  "byte_of c = of_nat (of_char c)"

definition char_of_byte :: "byte \<Rightarrow> char" where
  "char_of_byte b = char_of (unat b)"

definition bytes_of :: "string \<Rightarrow> bytes" where
  "bytes_of s = map byte_of s"

definition str_of :: "bytes \<Rightarrow> string" where
  "str_of b = map char_of_byte b"

lemma unat_byte_lt [simp]: "unat (b :: byte) < 256"
  using unsigned_less [of b] by simp

lemma char_of_byte_of [simp]: "char_of_byte (byte_of c) = c"
  by (simp add: char_of_byte_def byte_of_def unat_of_nat)

lemma byte_of_char_of [simp]: "byte_of (char_of_byte b) = b"
  by (simp add: char_of_byte_def byte_of_def)

lemma str_of_bytes_of [simp]: "str_of (bytes_of s) = s"
  by (simp add: str_of_def bytes_of_def comp_def)

lemma bytes_of_str_of [simp]: "bytes_of (str_of b) = b"
  by (simp add: str_of_def bytes_of_def comp_def)

lemma length_bytes_of [simp]: "length (bytes_of s) = length s"
  by (simp add: bytes_of_def)

lemma length_str_of [simp]: "length (str_of b) = length b"
  by (simp add: str_of_def)

lemma bytes_of_append [simp]: "bytes_of (s @ t) = bytes_of s @ bytes_of t"
  by (simp add: bytes_of_def)

lemma str_of_append [simp]: "str_of (s @ t) = str_of s @ str_of t"
  by (simp add: str_of_def)

lemma bytes_of_eq_iff [simp]: "bytes_of s = bytes_of t \<longleftrightarrow> s = t"
  by (metis str_of_bytes_of)

lemma bytes_of_Nil_iff [simp]: "bytes_of s = [] \<longleftrightarrow> s = []"
  by (simp add: bytes_of_def)

lemma bytes_of_simps [simp]: "bytes_of [] = []" "bytes_of (c # s) = byte_of c # bytes_of s"
  by (simp_all add: bytes_of_def)

lemma str_of_simps [simp]: "str_of [] = []" "str_of (b # s) = char_of_byte b # str_of s"
  by (simp_all add: str_of_def)

section \<open>Integers\<close>

text \<open>Go's \<open>/\<close> on integers truncates towards zero; a zero divisor panics and is guarded at each use.\<close>

definition go_div :: "int \<Rightarrow> int \<Rightarrow> int" where
  "go_div a b = sgn a * sgn b * (\<bar>a\<bar> div \<bar>b\<bar>)"

lemma go_div_nonneg: "0 \<le> a \<Longrightarrow> 0 < b \<Longrightarrow> go_div a b = a div b"
  by (cases "a = 0") (auto simp: go_div_def sgn_if)

section \<open>Results\<close>

text \<open>
  A fallible operation returns \<open>Inl\<close> of its error or \<open>Inr\<close> of its result. \<open>and_then\<close> is
  \<open>if err != nil { return err }\<close> between two of them.
\<close>

definition and_then :: "'e + 'a \<Rightarrow> ('a \<Rightarrow> 'e + 'b) \<Rightarrow> 'e + 'b" where
  "and_then r f = (case r of Inl e \<Rightarrow> Inl e | Inr x \<Rightarrow> f x)"

definition map_err :: "('e \<Rightarrow> 'f) \<Rightarrow> 'e + 'a \<Rightarrow> 'f + 'a" where
  "map_err g r = (case r of Inl e \<Rightarrow> Inl (g e) | Inr x \<Rightarrow> Inr x)"

lemma and_then_simps [simp]: "and_then (Inr x) f = f x" "and_then (Inl e) f = Inl e"
  by (simp_all add: and_then_def)

lemma map_err_simps [simp]: "map_err g (Inr x) = Inr x" "map_err g (Inl e) = Inl (g e)"
  by (simp_all add: map_err_def)

lemma and_then_Inr_iff: "and_then r f = Inr y \<longleftrightarrow> (\<exists>x. r = Inr x \<and> f x = Inr y)"
  by (cases r) auto

section \<open>Association lists\<close>

text \<open>
  A Go map the program iterates over is an association list: the list order stands for one
  of the orders the runtime may choose. \<open>aset\<close> is \<open>m[k] = v\<close>, which keeps the
  position of an existing key; \<open>adel\<close> is \<open>delete(m, k)\<close>.
\<close>

fun aset :: "'k \<Rightarrow> 'v \<Rightarrow> ('k \<times> 'v) list \<Rightarrow> ('k \<times> 'v) list" where
  "aset k v [] = [(k, v)]"
| "aset k v (p # ps) = (if fst p = k then (k, v) # ps else p # aset k v ps)"

definition adel :: "'k \<Rightarrow> ('k \<times> 'v) list \<Rightarrow> ('k \<times> 'v) list" where
  "adel k ps = filter (\<lambda>p. fst p \<noteq> k) ps"

lemma map_of_aset [simp]: "map_of (aset k v ps) k' = (if k' = k then Some v else map_of ps k')"
  by (induction ps) auto

lemma keys_aset: "fst ` set (aset k v ps) = insert k (fst ` set ps)"
  by (induction ps) auto

lemma distinct_aset: "distinct (map fst ps) \<Longrightarrow> distinct (map fst (aset k v ps))"
proof (induction ps)
  case Nil
  then show ?case by simp
next
  case (Cons p ps)
  moreover have "fst p \<noteq> k \<Longrightarrow> fst p \<notin> fst ` set (aset k v ps)"
    using Cons.prems keys_aset [of k v ps] by auto
  ultimately show ?case by auto
qed

lemma set_aset:
  "distinct (map fst ps) \<Longrightarrow> set (aset k v ps) = insert (k, v) {p \<in> set ps. fst p \<noteq> k}"
  by (induction ps) force+

lemma aset_fresh: "k \<notin> fst ` set ps \<Longrightarrow> aset k v ps = ps @ [(k, v)]"
  by (induction ps) auto

lemma map_of_adel [simp]: "map_of (adel k ps) k' = (if k' = k then None else map_of ps k')"
  by (induction ps) (auto simp: adel_def)

lemma distinct_adel: "distinct (map fst ps) \<Longrightarrow> distinct (map fst (adel k ps))"
  by (induction ps) (auto simp: adel_def)

section \<open>Interface: a codec on a byte stream\<close>

text \<open>
  An encoder and a decoder of the same items, where the decoder reads one item off the front
  of a stream and returns the unread rest. What each encoder of the program promises its
  decoder is the single law below; reading back a whole stream of items and
  unambiguity follow once and for all.
\<close>

fun decode_many :: "('b list \<Rightarrow> 'e + ('a \<times> 'b list)) \<Rightarrow> nat \<Rightarrow> 'b list \<Rightarrow> 'e + ('a list \<times> 'b list)" where
  "decode_many dec 0 bs = Inr ([], bs)"
| "decode_many dec (Suc n) bs =
     (case dec bs of
        Inl e \<Rightarrow> Inl e
      | Inr (x, bs') \<Rightarrow>
          (case decode_many dec n bs' of
             Inl e \<Rightarrow> Inl e
           | Inr (xs, bs'') \<Rightarrow> Inr (x # xs, bs'')))"

locale stream_codec =
  fixes enc :: "'a \<Rightarrow> 'b list"
    and dec :: "'b list \<Rightarrow> 'e + ('a \<times> 'b list)"
    and valid :: "'a \<Rightarrow> bool"
  assumes dec_enc: "valid x \<Longrightarrow> dec (enc x @ rest) = Inr (x, rest)"
begin

lemma dec_enc_end: "valid x \<Longrightarrow> dec (enc x) = Inr (x, [])"
  using dec_enc [of x "[]"] by simp

lemma prefix_free:
  assumes "valid x" "valid y" "enc x @ r = enc y @ s"
  shows "x = y \<and> r = s"
proof -
  have "Inr (x, r) = dec (enc x @ r)" by (rule dec_enc [OF assms(1), symmetric])
  also have "\<dots> = dec (enc y @ s)" by (simp only: assms(3))
  also have "\<dots> = Inr (y, s)" by (rule dec_enc [OF assms(2)])
  finally show ?thesis by simp
qed

lemma dec_many_enc:
  "list_all valid xs \<Longrightarrow> decode_many dec (length xs) (concat (map enc xs) @ rest) = Inr (xs, rest)"
  by (induction xs) (simp_all add: dec_enc)

lemma stream_unambiguous:
  assumes "list_all valid xs" "list_all valid ys" "length xs = length ys"
    "concat (map enc xs) @ r = concat (map enc ys) @ s"
  shows "xs = ys \<and> r = s"
proof -
  have "Inr (xs, r) = decode_many dec (length xs) (concat (map enc xs) @ r)"
    by (rule dec_many_enc [OF assms(1), symmetric])
  also have "\<dots> = decode_many dec (length ys) (concat (map enc ys) @ s)"
    by (simp only: assms(3,4))
  also have "\<dots> = Inr (ys, s)" by (rule dec_many_enc [OF assms(2)])
  finally show ?thesis by simp
qed

end

section \<open>Interface: a transition system with an invariant\<close>

text \<open>
  The components that several goroutines drive are step relations on an explicit state. The
  reachable states and the invariant rule are stated once.
\<close>

inductive reachable :: "('s \<Rightarrow> bool) \<Rightarrow> ('s \<Rightarrow> 's \<Rightarrow> bool) \<Rightarrow> 's \<Rightarrow> bool"
  for start :: "'s \<Rightarrow> bool" and step :: "'s \<Rightarrow> 's \<Rightarrow> bool" where
  reach_start: "start s \<Longrightarrow> reachable start step s"
| reach_step: "reachable start step s \<Longrightarrow> step s t \<Longrightarrow> reachable start step t"

locale invariant_system =
  fixes start :: "'s \<Rightarrow> bool"
    and step :: "'s \<Rightarrow> 's \<Rightarrow> bool"
    and inv :: "'s \<Rightarrow> bool"
  assumes inv_start: "start s \<Longrightarrow> inv s"
    and inv_step: "inv s \<Longrightarrow> step s t \<Longrightarrow> inv t"
begin

lemma reachable_inv: "reachable start step s \<Longrightarrow> inv s"
  by (induction rule: reachable.induct) (auto intro: inv_start inv_step)

lemma steps_inv: "step\<^sup>*\<^sup>* s t \<Longrightarrow> inv s \<Longrightarrow> inv t"
  by (induction rule: rtranclp_induct) (auto intro: inv_step)

end

end
