(* ===== verification/GoStrings.thy ===== *)
theory GoStrings
  imports Prelude
begin

text \<open>
  What the program uses of Go's \<open>strings\<close>, \<open>strconv\<close>, \<open>unicode\<close> and
  \<open>unicode/utf8\<close> packages, on byte strings. White space and case folding are exact on
  every byte sequence as far as the program can observe them: it compares folded strings with
  ASCII constants only. \<open>to_lower\<close> leaves a letter outside ASCII alone unless its lower
  case is ASCII (the Kelvin sign and the dotted capital I), so two names that differ in the
  case of a letter outside ASCII count as different here.
\<close>

abbreviation code :: "char \<Rightarrow> nat" where
  "code c \<equiv> of_char c"

section \<open>Searching and cutting\<close>

definition has_prefix :: "string \<Rightarrow> string \<Rightarrow> bool" where
  "has_prefix s p \<longleftrightarrow> take (length p) s = p"

definition has_suffix :: "string \<Rightarrow> string \<Rightarrow> bool" where
  "has_suffix s p \<longleftrightarrow> length p \<le> length s \<and> drop (length s - length p) s = p"

fun contains :: "string \<Rightarrow> string \<Rightarrow> bool" where
  "contains s p = (has_prefix s p \<or> (case s of [] \<Rightarrow> False | _ # s' \<Rightarrow> contains s' p))"

definition trim_prefix :: "string \<Rightarrow> string \<Rightarrow> string" where
  "trim_prefix s p = (if has_prefix s p then drop (length p) s else s)"

definition trim_suffix :: "string \<Rightarrow> string \<Rightarrow> string" where
  "trim_suffix s p = (if has_suffix s p then take (length s - length p) s else s)"

text \<open>\<open>strings.Cut\<close> at a one-character separator: before, after, found.\<close>

fun cut :: "string \<Rightarrow> char \<Rightarrow> string \<times> string \<times> bool" where
  "cut [] c = ([], [], False)"
| "cut (x # xs) c =
     (if x = c then ([], xs, True)
      else (let (before, after, found) = cut xs c in (x # before, after, found)))"

text \<open>\<open>strings.Split\<close> at a one-character separator: never the empty list.\<close>

fun split_at :: "char \<Rightarrow> string \<Rightarrow> string list" where
  "split_at c [] = [[]]"
| "split_at c (x # xs) =
     (if x = c then [] # split_at c xs
      else (case split_at c xs of [] \<Rightarrow> [[x]] | w # ws \<Rightarrow> (x # w) # ws))"

fun join :: "string \<Rightarrow> string list \<Rightarrow> string" where
  "join sep [] = []"
| "join sep [w] = w"
| "join sep (w # v # ws) = w @ sep @ join sep (v # ws)"

text \<open>\<open>strings.LastIndex\<close>: the offset of the last occurrence, if any.\<close>

fun last_index :: "string \<Rightarrow> string \<Rightarrow> nat option" where
  "last_index s p =
     (case s of
        [] \<Rightarrow> (if p = [] then Some 0 else None)
      | _ # s' \<Rightarrow>
          (case last_index s' p of
             Some i \<Rightarrow> Some (Suc i)
           | None \<Rightarrow> (if has_prefix s p then Some 0 else None)))"

declare contains.simps [simp del] last_index.simps [simp del]

section \<open>UTF-8\<close>

definition cont_byte :: "char \<Rightarrow> bool" where
  "cont_byte c \<longleftrightarrow> 0x80 \<le> code c \<and> code c \<le> 0xBF"

text \<open>
  \<open>utf8.DecodeRune\<close>: the length of the well-formed UTF-8 sequence at the head of a string,
  0 when there is none (Go then reports \<open>RuneError\<close> and skips one byte).
\<close>

fun utf8_len :: "string \<Rightarrow> nat" where
  "utf8_len [] = 0"
| "utf8_len (c # cs) =
     (let n = code c in
      if n < 0x80 then 1
      else if 0xC2 \<le> n \<and> n \<le> 0xDF then
        (case cs of d # _ \<Rightarrow> if cont_byte d then 2 else 0 | _ \<Rightarrow> 0)
      else if 0xE0 \<le> n \<and> n \<le> 0xEF then
        (case cs of
           d # e # _ \<Rightarrow>
             if cont_byte d \<and> cont_byte e \<and> (n = 0xE0 \<longrightarrow> 0xA0 \<le> code d) \<and> (n = 0xED \<longrightarrow> code d \<le> 0x9F)
             then 3 else 0
         | _ \<Rightarrow> 0)
      else if 0xF0 \<le> n \<and> n \<le> 0xF4 then
        (case cs of
           d # e # f # _ \<Rightarrow>
             if cont_byte d \<and> cont_byte e \<and> cont_byte f \<and> (n = 0xF0 \<longrightarrow> 0x90 \<le> code d) \<and> (n = 0xF4 \<longrightarrow> code d \<le> 0x8F)
             then 4 else 0
         | _ \<Rightarrow> 0)
      else 0)"

text \<open>The UTF-8 encoding of U+FFFD, which Go writes for an undecodable byte.\<close>

definition rune_error :: string where
  "rune_error = [CHR 0xEF, CHR 0xBF, CHR 0xBD]"

text \<open>A string with every undecodable byte replaced; \<open>valid_utf8\<close> is \<open>utf8.ValidString\<close>.\<close>

function sanitize :: "string \<Rightarrow> string" where
  "sanitize s =
     (if s = [] then []
      else if utf8_len s = 0 then rune_error @ sanitize (tl s)
      else take (utf8_len s) s @ sanitize (drop (utf8_len s) s))"
  by pat_completeness auto
termination
  by (relation "measure length") (auto simp: neq_Nil_conv)

function valid_utf8 :: "string \<Rightarrow> bool" where
  "valid_utf8 s =
     (if s = [] then True
      else if utf8_len s = 0 then False
      else valid_utf8 (drop (utf8_len s) s))"
  by pat_completeness auto
termination
  by (relation "measure length") (auto simp: neq_Nil_conv)

declare sanitize.simps [simp del] valid_utf8.simps [simp del]

text \<open>\<open>utf8.AppendRune\<close> for a code point that is not a surrogate.\<close>

definition utf8_encode :: "nat \<Rightarrow> string" where
  "utf8_encode r =
     (if r < 0x80 then [char_of r]
      else if r < 0x800 then [char_of (0xC0 + r div 64), char_of (0x80 + r mod 64)]
      else if r < 0x10000 then
        [char_of (0xE0 + r div 4096), char_of (0x80 + r div 64 mod 64), char_of (0x80 + r mod 64)]
      else
        [char_of (0xF0 + r div 262144), char_of (0x80 + r div 4096 mod 64),
         char_of (0x80 + r div 64 mod 64), char_of (0x80 + r mod 64)])"

section \<open>White space\<close>

text \<open>
  \<open>unicode.IsSpace\<close>: the length in bytes of the white space character at the head of a
  string, 0 when there is none. \<open>rspace_len\<close> reads a reversed string.
\<close>

definition ascii_space :: "char \<Rightarrow> bool" where
  "ascii_space c \<longleftrightarrow> c \<in> {CHR 0x09, CHR 0x0A, CHR 0x0B, CHR 0x0C, CHR 0x0D, CHR 0x20}"

definition space2 :: "char \<Rightarrow> char \<Rightarrow> bool" where
  "space2 c d \<longleftrightarrow> c = CHR 0xC2 \<and> d \<in> {CHR 0x85, CHR 0xA0}"

definition space3 :: "char \<Rightarrow> char \<Rightarrow> char \<Rightarrow> bool" where
  "space3 c d e \<longleftrightarrow>
     (c = CHR 0xE1 \<and> d = CHR 0x9A \<and> e = CHR 0x80) \<or>
     (c = CHR 0xE2 \<and> d = CHR 0x80 \<and>
        (0x80 \<le> code e \<and> code e \<le> 0x8A \<or> e \<in> {CHR 0xA8, CHR 0xA9, CHR 0xAF})) \<or>
     (c = CHR 0xE2 \<and> d = CHR 0x81 \<and> e = CHR 0x9F) \<or>
     (c = CHR 0xE3 \<and> d = CHR 0x80 \<and> e = CHR 0x80)"

fun space_len :: "string \<Rightarrow> nat" where
  "space_len [] = 0"
| "space_len (c # cs) =
     (if ascii_space c then 1
      else (case cs of
              d # ds \<Rightarrow>
                if space2 c d then 2
                else (case ds of e # _ \<Rightarrow> if space3 c d e then 3 else 0 | [] \<Rightarrow> 0)
            | [] \<Rightarrow> 0))"

fun rspace_len :: "string \<Rightarrow> nat" where
  "rspace_len [] = 0"
| "rspace_len (c # cs) =
     (if ascii_space c then 1
      else (case cs of
              d # ds \<Rightarrow>
                if space2 d c then 2
                else (case ds of e # _ \<Rightarrow> if space3 e d c then 3 else 0 | [] \<Rightarrow> 0)
            | [] \<Rightarrow> 0))"

function strip :: "(string \<Rightarrow> nat) \<Rightarrow> string \<Rightarrow> string" where
  "strip len s = (if s = [] \<or> len s = 0 then s else strip len (drop (len s) s))"
  by pat_completeness auto
termination
  by (relation "measure (\<lambda>(len, s). length s)") (auto simp: neq_Nil_conv)

definition trim_space :: "string \<Rightarrow> string" where
  "trim_space s = rev (strip rspace_len (rev (strip space_len s)))"

text \<open>\<open>strings.Fields\<close>: the maximal runs of characters that are not white space.\<close>

function fields_from :: "string \<Rightarrow> string \<Rightarrow> string list" where
  "fields_from cur s =
     (if s = [] then (if cur = [] then [] else [rev cur])
      else if space_len s = 0 then fields_from (hd s # cur) (tl s)
      else (if cur = [] then [] else [rev cur]) @ fields_from [] (drop (space_len s) s))"
  by pat_completeness auto
termination
  by (relation "measure (\<lambda>(cur, s). length s)") (auto simp: neq_Nil_conv)

declare strip.simps [simp del] fields_from.simps [simp del]

definition fields :: "string \<Rightarrow> string list" where
  "fields s = fields_from [] s"

section \<open>Case\<close>

definition lower_char :: "char \<Rightarrow> char" where
  "lower_char c = (if 65 \<le> code c \<and> code c \<le> 90 then char_of (code c + 32) else c)"

definition upper_char :: "char \<Rightarrow> char" where
  "upper_char c = (if 97 \<le> code c \<and> code c \<le> 122 then char_of (code c - 32) else c)"

text \<open>
  \<open>strings.ToLower\<close>: the two letters outside ASCII whose lower case is ASCII are U+212A
  (k) and U+0130 (i). A string with a byte outside ASCII is rebuilt rune by rune, which
  replaces undecodable bytes.
\<close>

fun lower_runes :: "string \<Rightarrow> string" where
  "lower_runes [] = []"
| "lower_runes (c # cs) =
     (if c = CHR 0xE2 then
        (case cs of
           d # e # cs' \<Rightarrow> if d = CHR 0x84 \<and> e = CHR 0xAA then CHR ''k'' # lower_runes cs' else c # lower_runes cs
         | _ \<Rightarrow> c # lower_runes cs)
      else if c = CHR 0xC4 then
        (case cs of
           d # cs' \<Rightarrow> if d = CHR 0xB0 then CHR ''i'' # lower_runes cs' else c # lower_runes cs
         | _ \<Rightarrow> c # lower_runes cs)
      else lower_char c # lower_runes cs)"

definition to_lower :: "string \<Rightarrow> string" where
  "to_lower s = (if list_all (\<lambda>c. code c < 0x80) s then map lower_char s else lower_runes (sanitize s))"

text \<open>
  Simple case folding, as \<open>strings.EqualFold\<close> and \<open>encoding/json\<close> use it: the letters
  outside ASCII that fold to an ASCII letter are U+017F (s) and U+212A (k).
\<close>

fun fold_name :: "string \<Rightarrow> string" where
  "fold_name [] = []"
| "fold_name (c # cs) =
     (if c = CHR 0xE2 then
        (case cs of
           d # e # cs' \<Rightarrow> if d = CHR 0x84 \<and> e = CHR 0xAA then CHR ''K'' # fold_name cs' else c # fold_name cs
         | _ \<Rightarrow> c # fold_name cs)
      else if c = CHR 0xC5 then
        (case cs of
           d # cs' \<Rightarrow> if d = CHR 0xBF then CHR ''S'' # fold_name cs' else c # fold_name cs
         | _ \<Rightarrow> c # fold_name cs)
      else upper_char c # fold_name cs)"

definition equal_fold :: "string \<Rightarrow> string \<Rightarrow> bool" where
  "equal_fold s t \<longleftrightarrow> fold_name s = fold_name t"

section \<open>Numbers\<close>

definition digit :: "nat \<Rightarrow> char" where
  "digit d = char_of (48 + d)"

definition is_digit :: "char \<Rightarrow> bool" where
  "is_digit c \<longleftrightarrow> 48 \<le> code c \<and> code c \<le> 57"

function nat_str :: "nat \<Rightarrow> string" where
  "nat_str n = (if n < 10 then [digit n] else nat_str (n div 10) @ [digit (n mod 10)])"
  by pat_completeness auto
termination
  by (relation "measure id") auto

declare nat_str.simps [simp del]

text \<open>\<open>strconv.Itoa\<close> and \<open>strconv.FormatInt(n, 10)\<close>.\<close>

definition itoa :: "int \<Rightarrow> string" where
  "itoa n = (if n < 0 then CHR ''-'' # nat_str (nat (- n)) else nat_str (nat n))"

definition str_nat :: "string \<Rightarrow> nat" where
  "str_nat s = foldl (\<lambda>a c. 10 * a + (code c - 48)) 0 s"

text \<open>
  \<open>strconv.Atoi\<close>, which is \<open>ParseInt(s, 10, 64)\<close>: an optional sign, one or more digits,
  and a value that fits 64 bits. Every failure is None.
\<close>

definition int64_range :: "int \<Rightarrow> bool" where
  "int64_range n \<longleftrightarrow> - (2 ^ 63) \<le> n \<and> n < 2 ^ 63"

definition parse_digits :: "string \<Rightarrow> nat option" where
  "parse_digits s = (if s \<noteq> [] \<and> list_all is_digit s then Some (str_nat s) else None)"

definition atoi :: "string \<Rightarrow> int option" where
  "atoi s =
     (let (neg, ds) =
        (case s of
           [] \<Rightarrow> (False, s)
         | c # cs \<Rightarrow> if c = CHR ''-'' then (True, cs) else if c = CHR ''+'' then (False, cs) else (False, s))
      in (case parse_digits ds of
            None \<Rightarrow> None
          | Some n \<Rightarrow>
              (let v = (if neg then - int n else int n)
               in if int64_range v then Some v else None)))"

definition is_hex :: "char \<Rightarrow> bool" where
  "is_hex c \<longleftrightarrow> is_digit c \<or> 97 \<le> code c \<and> code c \<le> 102 \<or> 65 \<le> code c \<and> code c \<le> 70"

definition hex_val :: "char \<Rightarrow> nat" where
  "hex_val c =
     (if is_digit c then code c - 48 else if 97 \<le> code c then code c - 87 else code c - 55)"


section \<open>Facts\<close>

subsection \<open>Searching and cutting\<close>

lemma has_prefix_append [simp]: "has_prefix (p @ s) p"
  by (simp add: has_prefix_def)

lemma has_prefix_iff: "has_prefix s p \<longleftrightarrow> (\<exists>r. s = p @ r)"
  by (metis append_take_drop_id has_prefix_append has_prefix_def)

lemma has_suffix_append [simp]: "has_suffix (s @ p) p"
  by (simp add: has_suffix_def)

lemma has_suffix_iff: "has_suffix s p \<longleftrightarrow> (\<exists>r. s = r @ p)"
  by (metis append_take_drop_id has_suffix_append has_suffix_def)

lemma trim_prefix_append [simp]: "trim_prefix (p @ s) p = s"
  by (simp add: trim_prefix_def)

lemma trim_suffix_append [simp]: "trim_suffix (s @ p) p = s"
  by (simp add: trim_suffix_def)

lemma contains_iff: "contains s p \<longleftrightarrow> (\<exists>a b. s = a @ p @ b)"
proof (induction s)
  case Nil
  then show ?case by (subst contains.simps) (auto simp: has_prefix_iff)
next
  case (Cons x s)
  have "contains (x # s) p \<longleftrightarrow> has_prefix (x # s) p \<or> contains s p"
    by (subst contains.simps) simp
  also have "\<dots> \<longleftrightarrow> (\<exists>a b. x # s = a @ p @ b)"
    unfolding Cons.IH has_prefix_iff by (metis append_Cons append_Nil neq_Nil_conv list.inject)
  finally show ?case .
qed

lemma contains_char_iff: "contains s [c] \<longleftrightarrow> c \<in> set s"
  by (auto simp: contains_iff in_set_conv_decomp)

lemma contains_prefix: "has_prefix s p \<Longrightarrow> contains s p"
  by (auto simp: contains_iff has_prefix_iff intro: exI [of _ "[]"])

lemma cut_found [simp]: "c \<notin> set a \<Longrightarrow> cut (a @ c # b) c = (a, b, True)"
  by (induction a) auto

lemma cut_missing: "c \<notin> set a \<Longrightarrow> cut a c = (a, [], False)"
  by (induction a) auto

lemma cut_True_iff: "cut s c = (a, b, True) \<longleftrightarrow> s = a @ c # b \<and> c \<notin> set a"
proof
  assume "cut s c = (a, b, True)"
  then show "s = a @ c # b \<and> c \<notin> set a"
    by (induction s arbitrary: a) (auto split: if_splits prod.splits)
qed simp

lemma cut_False_iff: "cut s c = (a, b, False) \<longleftrightarrow> c \<notin> set s \<and> a = s \<and> b = []"
proof
  assume "cut s c = (a, b, False)"
  then show "c \<notin> set s \<and> a = s \<and> b = []"
    by (induction s arbitrary: a b) (auto split: if_splits prod.splits)
qed (auto simp: cut_missing)

lemma split_at_nonempty [simp]: "split_at c s \<noteq> []"
  by (induction s) (auto split: list.splits)

lemma join_split_at: "join [c] (split_at c s) = s"
proof (induction s)
  case Nil
  then show ?case by simp
next
  case (Cons x s)
  obtain w ws where w: "split_at c s = w # ws"
    using split_at_nonempty [of c s] by (cases "split_at c s") auto
  with Cons.IH show ?case by (cases ws) auto
qed

lemma split_at_no_sep: "w \<in> set (split_at c s) \<Longrightarrow> c \<notin> set w"
  by (induction s arbitrary: w) (auto split: if_splits list.splits)

lemma split_at_single: "c \<notin> set w \<Longrightarrow> split_at c w = [w]"
  by (induction w) auto

lemma split_at_append: "c \<notin> set w \<Longrightarrow> split_at c (w @ c # s) = w # split_at c s"
  by (induction w) auto

lemma split_at_join: "ws \<noteq> [] \<Longrightarrow> \<forall>w\<in>set ws. c \<notin> set w \<Longrightarrow> split_at c (join [c] ws) = ws"
  by (induction "[c]" ws rule: join.induct) (auto simp: split_at_single split_at_append)

subsection \<open>Numbers\<close>

lemma of_char_digit [simp]: "d < 10 \<Longrightarrow> code (digit d) = 48 + d"
  by (simp add: digit_def)

lemma is_digit_digit [simp]: "d < 10 \<Longrightarrow> is_digit (digit d)"
  by (simp add: is_digit_def)

lemma nat_str_digits: "list_all is_digit (nat_str n)"
  by (induction n rule: nat_str.induct) (subst nat_str.simps, auto)

lemma nat_str_nonempty [simp]: "nat_str n \<noteq> []"
  by (subst nat_str.simps) simp

lemma str_nat_nat_str [simp]: "str_nat (nat_str n) = n"
proof (induction n rule: nat_str.induct)
  case (1 n)
  show ?case
  proof (cases "n < 10")
    case True
    then show ?thesis by (subst nat_str.simps) (simp add: str_nat_def)
  next
    case False
    have "str_nat (nat_str n) = 10 * str_nat (nat_str (n div 10)) + n mod 10"
      using False by (subst nat_str.simps) (simp add: str_nat_def)
    also have "\<dots> = n" using "1.IH" [OF False] by simp
    finally show ?thesis .
  qed
qed

lemma parse_digits_nat_str [simp]: "parse_digits (nat_str n) = Some n"
  by (simp add: parse_digits_def nat_str_digits)

lemma nat_str_inject [simp]: "nat_str m = nat_str n \<longleftrightarrow> m = n"
  by (metis str_nat_nat_str)

lemma hd_nat_str: "is_digit (hd (nat_str n))"
  using nat_str_digits [of n] by (cases "nat_str n") auto

lemma not_digit_sign [simp]: "\<not> is_digit CHR ''-''" "\<not> is_digit CHR ''+''"
  by (simp_all add: is_digit_def)

lemma atoi_itoa: "int64_range n \<Longrightarrow> atoi (itoa n) = Some n"
proof (cases "n < 0")
  case True
  moreover assume "int64_range n"
  ultimately show ?thesis by (simp add: atoi_def itoa_def)
next
  case False
  obtain c cs where c: "nat_str (nat n) = c # cs"
    by (meson neq_Nil_conv nat_str_nonempty)
  then have "is_digit c" using hd_nat_str [of "nat n"] by simp
  then have "c \<noteq> CHR ''-''" "c \<noteq> CHR ''+''" by auto
  moreover assume "int64_range n"
  ultimately show ?thesis
    using False parse_digits_nat_str [of "nat n"] c by (simp add: atoi_def itoa_def)
qed

lemma atoi_range: "atoi s = Some n \<Longrightarrow> int64_range n"
  by (auto simp: atoi_def Let_def split: option.splits prod.splits if_splits)

lemma itoa_nonempty [simp]: "itoa n \<noteq> []"
  by (simp add: itoa_def)

lemma itoa_inject: "itoa m = itoa n \<longleftrightarrow> m = n"
proof
  assume eq: "itoa m = itoa n"
  have dig: "nat_str k \<noteq> CHR ''-'' # r" for k r
    using hd_nat_str [of k] by auto
  have neg: "itoa k = CHR ''-'' # r \<longleftrightarrow> k < 0 \<and> nat_str (nat (- k)) = r" for k r
    using dig [of "nat k" r] by (simp add: itoa_def)
  show "m = n"
  proof (cases "m < 0")
    case True
    then have "itoa n = CHR ''-'' # nat_str (nat (- m))"
      using eq by (simp add: itoa_def)
    then have "n < 0" "nat (- n) = nat (- m)" unfolding neg by auto
    with True show ?thesis by simp
  next
    case False
    moreover have "\<not> n < 0"
      using neg [of m "nat_str (nat (- n))"] eq False by (auto simp: itoa_def)
    ultimately show ?thesis using eq by (simp add: itoa_def eq_nat_nat_iff)
  qed
qed simp

subsection \<open>UTF-8\<close>

lemma utf8_len_le: "utf8_len s \<le> length s"
  by (cases s) (auto simp: Let_def split: list.splits)

lemma utf8_len_ascii: "code c < 0x80 \<Longrightarrow> utf8_len (c # cs) = 1"
  by simp

lemma utf8_len_cases:
  obtains (ascii) "code c < 0x80" "utf8_len (c # cs) = 1"
  | (bad) "0x80 \<le> code c" "utf8_len (c # cs) = 0"
  | (multi) n where "0x80 \<le> code c" "n \<in> {1, 2, 3}" "utf8_len (c # cs) = Suc n" "n \<le> length cs"
      "list_all cont_byte (take n cs)" "\<And>t. utf8_len (c # cs @ t) = Suc n"
proof -
  consider (a) "code c < 0x80"
    | (b) "0x80 \<le> code c" "code c < 0xC2 \<or> 0xF4 < code c"
    | (c2) "0xC2 \<le> code c" "code c \<le> 0xDF"
    | (c3) "0xE0 \<le> code c" "code c \<le> 0xEF"
    | (c4) "0xF0 \<le> code c" "code c \<le> 0xF4"
    by linarith
  then show thesis
  proof cases
    case a
    then show thesis by (intro ascii) simp_all
  next
    case b
    then have "utf8_len (c # cs) = 0" by (elim disjE) (simp_all add: Let_def)
    with b show thesis by (intro bad)
  next
    case c2
    show thesis
    proof (cases cs)
      case Nil
      with c2 show thesis by (intro bad) simp_all
    next
      case (Cons d ds)
      show thesis
      proof (cases "cont_byte d")
        case True
        with c2 Cons show thesis by (intro multi [of 1]) simp_all
      next
        case False
        with c2 Cons show thesis by (intro bad) simp_all
      qed
    qed
  next
    case c3
    show thesis
    proof (cases "\<exists>d e r. cs = d # e # r \<and> cont_byte d \<and> cont_byte e \<and>
        (code c = 0xE0 \<longrightarrow> 0xA0 \<le> code d) \<and> (code c = 0xED \<longrightarrow> code d \<le> 0x9F)")
      case True
      with c3 show thesis by (elim exE) (intro multi [of 2], auto simp: Let_def)
    next
      case False
      have "utf8_len (c # cs) = 0"
        using c3 False by (cases cs; cases "tl cs") (simp_all add: Let_def)
      with c3 show thesis by (intro bad) simp_all
    qed
  next
    case c4
    show thesis
    proof (cases "\<exists>d e f r. cs = d # e # f # r \<and> cont_byte d \<and> cont_byte e \<and> cont_byte f \<and>
        (code c = 0xF0 \<longrightarrow> 0x90 \<le> code d) \<and> (code c = 0xF4 \<longrightarrow> code d \<le> 0x8F)")
      case True
      with c4 show thesis by (elim exE) (intro multi [of 3], auto simp: Let_def)
    next
      case False
      have "utf8_len (c # cs) = 0"
        using c4 False by (cases cs; cases "tl cs"; cases "tl (tl cs)") (simp_all add: Let_def)
      with c4 show thesis by (intro bad) simp_all
    qed
  qed
qed

lemma utf8_len_append: "utf8_len s \<noteq> 0 \<Longrightarrow> utf8_len (s @ t) = utf8_len s"
proof (cases s)
  case (Cons c cs)
  assume "utf8_len s \<noteq> 0"
  then show ?thesis unfolding Cons
    by (rule_tac utf8_len_cases [of c cs]) (auto simp del: utf8_len.simps simp: utf8_len_ascii)
qed simp

lemma utf8_len_1: "utf8_len (c # cs) = 1 \<Longrightarrow> code c < 0x80"
  by (rule utf8_len_cases [of c cs]) (auto simp del: utf8_len.simps)

lemma utf8_chunk_high: "2 \<le> utf8_len s \<Longrightarrow> list_all (\<lambda>c. 0x80 \<le> code c) (take (utf8_len s) s)"
proof (cases s)
  case (Cons c cs)
  assume "2 \<le> utf8_len s"
  then show ?thesis unfolding Cons
    by (rule_tac utf8_len_cases [of c cs])
      (auto simp del: utf8_len.simps simp: list_all_iff cont_byte_def)
qed simp

lemma valid_utf8_Nil [simp]: "valid_utf8 []"
  by (subst valid_utf8.simps) simp

lemma valid_utf8_ascii_Cons [simp]: "code c < 0x80 \<Longrightarrow> valid_utf8 (c # cs) \<longleftrightarrow> valid_utf8 cs"
  by (subst valid_utf8.simps) simp

lemma valid_utf8_ascii: "list_all (\<lambda>c. code c < 0x80) s \<Longrightarrow> valid_utf8 s"
  by (induction s) auto

lemma sanitize_valid: "valid_utf8 s \<Longrightarrow> sanitize s = s"
proof (induction s rule: valid_utf8.induct)
  case (1 s)
  show ?case
  proof (cases "s = []")
    case True
    then show ?thesis by (subst sanitize.simps) simp
  next
    case False
    then have "utf8_len s \<noteq> 0" "valid_utf8 (drop (utf8_len s) s)"
      using "1.prems" by (auto simp: valid_utf8.simps [of s] split: if_splits)
    then show ?thesis
      using False "1.IH" by (subst sanitize.simps) simp
  qed
qed

lemma valid_utf8_append: "valid_utf8 s \<Longrightarrow> valid_utf8 (s @ t) = valid_utf8 t"
proof (induction s rule: valid_utf8.induct)
  case (1 s)
  show ?case
  proof (cases "s = []")
    case False
    then have n: "utf8_len s \<noteq> 0" and v: "valid_utf8 (drop (utf8_len s) s)"
      using "1.prems" by (auto simp: valid_utf8.simps [of s] split: if_splits)
    have "valid_utf8 (s @ t) = valid_utf8 (drop (utf8_len s) s @ t)"
      using False n utf8_len_append [OF n, of t] utf8_len_le [of s]
      by (subst valid_utf8.simps) simp
    then show ?thesis using "1.IH" False n v by simp
  qed simp
qed

lemma utf8_len_chunk: "utf8_len (take (utf8_len s) s) = utf8_len s"
  by (cases s) (auto simp: Let_def split: list.splits)

lemma valid_sanitize: "valid_utf8 (sanitize s)"
proof (induction s rule: sanitize.induct)
  case (1 s)
  have chunk: "valid_utf8 (take (utf8_len s) s)" if "utf8_len s \<noteq> 0"
    using that by (subst valid_utf8.simps) (simp add: utf8_len_chunk)
  have "valid_utf8 rune_error" by code_simp
  with 1 chunk show ?case
    by (subst sanitize.simps) (auto simp: valid_utf8_append)
qed

lemma digit_ascii: "is_digit c \<Longrightarrow> code c < 0x80"
  by (simp add: is_digit_def)

lemma valid_utf8_nat_str [simp]: "valid_utf8 (nat_str n)"
  by (rule valid_utf8_ascii) (use nat_str_digits [of n] in \<open>auto simp: list_all_iff digit_ascii\<close>)

lemma valid_utf8_itoa [simp]: "valid_utf8 (itoa n)"
  by (simp add: itoa_def)

subsection \<open>White space\<close>

lemma strip_stop: "len s = 0 \<Longrightarrow> strip len s = s"
  by (subst strip.simps) simp

lemma strip_Nil [simp]: "strip len [] = []"
  by (subst strip.simps) simp

lemma strip_done: "strip len s = [] \<or> len (strip len s) = 0"
proof (induction len s rule: strip.induct)
  case (1 len s)
  then show ?case by (subst (1 2) strip.simps) auto
qed

lemma strip_suffix: "\<exists>p. s = p @ strip len s"
proof (induction len s rule: strip.induct)
  case (1 len s)
  show ?case
  proof (cases "s = [] \<or> len s = 0")
    case True
    then show ?thesis by (subst strip.simps) auto
  next
    case False
    from "1.IH" [OF False] obtain p where "drop (len s) s = p @ strip len (drop (len s) s)" ..
    then have "s = (take (len s) s @ p) @ strip len (drop (len s) s)"
      by (metis append.assoc append_take_drop_id)
    moreover have "strip len s = strip len (drop (len s) s)"
      using False by (subst strip.simps) auto
    ultimately show ?thesis by metis
  qed
qed

lemma space_len_take: "space_len (take n s) \<noteq> 0 \<Longrightarrow> space_len s \<noteq> 0"
proof (cases s)
  case (Cons c cs)
  assume *: "space_len (take n s) \<noteq> 0"
  show ?thesis
  proof (cases n)
    case (Suc m)
    with * Cons show ?thesis
      by (cases cs; cases m) (auto split: if_splits list.splits simp: take_Cons')
  qed (use * in simp)
qed simp

definition trimmed :: "string \<Rightarrow> bool" where
  "trimmed s \<longleftrightarrow> space_len s = 0 \<and> rspace_len (rev s) = 0"

lemma trim_space_trimmed: "trimmed s \<Longrightarrow> trim_space s = s"
  by (simp add: trim_space_def trimmed_def strip_stop)

lemma trimmed_trim_space: "trimmed (trim_space s)"
proof -
  let ?l = "strip space_len s"
  let ?r = "strip rspace_len (rev ?l)"
  obtain p where p: "rev ?l = p @ ?r" using strip_suffix by blast
  then have "?l = rev ?r @ rev p" by (metis rev_append rev_rev_ident)
  then have "rev ?r = take (length ?r) ?l" by (metis append_eq_conv_conj length_rev)
  moreover have "space_len ?l = 0" using strip_done [of space_len s] by auto
  ultimately have "space_len (rev ?r) = 0" using space_len_take by metis
  moreover have "rspace_len ?r = 0" using strip_done [of rspace_len "rev ?l"] by auto
  ultimately show ?thesis by (simp add: trimmed_def trim_space_def)
qed

lemma trim_space_idem [simp]: "trim_space (trim_space s) = trim_space s"
  by (rule trim_space_trimmed) (rule trimmed_trim_space)

lemma trim_space_Nil [simp]: "trim_space [] = []"
  by (simp add: trim_space_def)

end
