(* ===== verification/Bulb.thy ===== *)
theory Bulb
  imports GoStrings
begin

text \<open>
  The domain types of \<open>internal/bulb\<close> (state.go, bulb.go): light states in percentages, the
  fields in which two states differ, capabilities, and a bulb with its place in the connection
  life cycle. A driver, the live connection of a bulb, is known above the transport by its
  identity only, a number; \<open>None\<close> is the nil driver.
\<close>

section \<open>Light states\<close>

text \<open>\<open>Mode\<close> is an unsigned byte with two named values; a stored file may hold any other.\<close>

type_synonym mode = byte

definition mode_white :: mode where "mode_white = 0"
definition mode_scene :: mode where "mode_scene = 1"

definition mode_string :: "mode \<Rightarrow> string" where
  "mode_string m = (if m = mode_scene then ''scene'' else ''white'')"

record light_state =
  power :: bool
  brightness :: byte
  color_temp :: byte
  light_mode :: mode
  reported_at :: time

definition zero_state :: light_state where
  "zero_state = \<lparr>power = False, brightness = 0, color_temp = 0, light_mode = 0, reported_at = zero_time\<rparr>"

record field_change =
  changed_field :: string
  changed_from :: string
  changed_to :: string

text \<open>The UTF-8 bytes of the arrow the program prints.\<close>

definition arrow :: string where
  "arrow = [CHR 0xE2, CHR 0x86, CHR 0x92]"

definition change_string :: "field_change \<Rightarrow> string" where
  "change_string c = changed_field c @ '' '' @ changed_from c @ arrow @ changed_to c"

definition on_off :: "bool \<Rightarrow> string" where
  "on_off b = (if b then ''on'' else ''off'')"

definition sprint_byte :: "byte \<Rightarrow> string" where
  "sprint_byte b = itoa (uint b)"

definition diff_state :: "light_state \<Rightarrow> light_state \<Rightarrow> field_change list" where
  "diff_state s next =
     (if power s \<noteq> power next
      then [\<lparr>changed_field = ''power'', changed_from = on_off (power s), changed_to = on_off (power next)\<rparr>] else []) @
     (if brightness s \<noteq> brightness next
      then [\<lparr>changed_field = ''brightness'', changed_from = sprint_byte (brightness s), changed_to = sprint_byte (brightness next)\<rparr>] else []) @
     (if color_temp s \<noteq> color_temp next
      then [\<lparr>changed_field = ''temp'', changed_from = sprint_byte (color_temp s), changed_to = sprint_byte (color_temp next)\<rparr>] else []) @
     (if light_mode s \<noteq> light_mode next
      then [\<lparr>changed_field = ''mode'', changed_from = mode_string (light_mode s), changed_to = mode_string (light_mode next)\<rparr>] else [])"

section \<open>Capabilities\<close>

record capabilities =
  cap_known :: bool
  cap_color :: bool
  cap_color_temp :: bool
  min_brightness :: byte

definition no_caps :: capabilities where
  "no_caps = \<lparr>cap_known = False, cap_color = False, cap_color_temp = False, min_brightness = 0\<rparr>"

definition supports_color_temp :: "capabilities \<Rightarrow> bool" where
  "supports_color_temp c \<longleftrightarrow> \<not> cap_known c \<or> cap_color_temp c"

definition supports_color :: "capabilities \<Rightarrow> bool" where
  "supports_color c \<longleftrightarrow> \<not> cap_known c \<or> cap_color c"

section \<open>Bulbs\<close>

datatype status = Disconnected | Discovered | Connected

definition status_string :: "status \<Rightarrow> string" where
  "status_string s =
     (case s of Connected \<Rightarrow> ''connected'' | Discovered \<Rightarrow> ''discovered'' | Disconnected \<Rightarrow> ''disconnected'')"

type_synonym driver_id = nat

record bulb =
  device_id :: string
  bulb_name :: string
  status :: status
  light :: light_state
  desired :: "light_state option"
  bulb_caps :: capabilities
  firmware :: string
  first_seen :: time
  last_seen :: time
  remote_addr :: string
  driver :: "driver_id option"

definition zero_bulb :: bulb where
  "zero_bulb = \<lparr>device_id = [], bulb_name = [], status = Disconnected, light = zero_state, desired = None,
     bulb_caps = no_caps, firmware = [], first_seen = zero_time, last_seen = zero_time,
     remote_addr = [], driver = None\<rparr>"

definition model :: "bulb \<Rightarrow> string" where
  "model b =
     (case last_index (firmware b) ''_v'' of
        Some i \<Rightarrow> if 0 < i then take i (firmware b) else firmware b
      | None \<Rightarrow> firmware b)"

definition adopted :: "bulb \<Rightarrow> bool" where
  "adopted b \<longleftrightarrow> status b \<noteq> Discovered"

section \<open>Facts\<close>

text \<open>Two states that agree on everything a report can change.\<close>

definition same_light :: "light_state \<Rightarrow> light_state \<Rightarrow> bool" where
  "same_light s t \<longleftrightarrow> power s = power t \<and> brightness s = brightness t \<and> color_temp s = color_temp t
     \<and> light_mode s = light_mode t"

lemma sprint_byte_inject [simp]: "sprint_byte a = sprint_byte b \<longleftrightarrow> a = b"
  by (simp add: sprint_byte_def itoa_inject word_uint_eq_iff)

lemma on_off_inject [simp]: "on_off a = on_off b \<longleftrightarrow> a = b"
  by (auto simp: on_off_def)

lemma diff_state_Nil_iff: "diff_state s t = [] \<longleftrightarrow> same_light s t"
  by (auto simp: diff_state_def same_light_def)

lemma diff_state_fields:
  "map changed_field (diff_state s t) =
     filter (\<lambda>f. f = ''power'' \<and> power s \<noteq> power t \<or> f = ''brightness'' \<and> brightness s \<noteq> brightness t
       \<or> f = ''temp'' \<and> color_temp s \<noteq> color_temp t \<or> f = ''mode'' \<and> light_mode s \<noteq> light_mode t)
       [''power'', ''brightness'', ''temp'', ''mode'']"
  by (simp add: diff_state_def)

lemma diff_state_change:
  "c \<in> set (diff_state s t) \<Longrightarrow> changed_field c \<noteq> ''mode'' \<Longrightarrow> changed_from c \<noteq> changed_to c"
  by (auto simp: diff_state_def split: if_splits)

end
