(* ===== verification/Registry.thy ===== *)
theory Registry
  imports Bulb "HOL-Library.Multiset"
begin

text \<open>
  The in-memory set of bulbs, \<open>internal/registry/registry.go\<close>. The Go map is an association list
  from device id to bulb, its order standing for one the runtime may iterate in; the callback
  \<open>dirty\<close> is a counter of its calls. Every operation takes the lock for its whole body, so each is one
  function from registry to registry.
\<close>

section \<open>State and errors\<close>

record registry =
  bulbs :: "(string \<times> bulb) list"
  dirty :: nat

datatype registry_error =
    UnknownTarget string
  | AmbiguousTarget string "string list"
  | NameInUse string string
  | EmptyDeviceId
  | EmptyName

definition new_registry :: registry where
  "new_registry = \<lparr>bulbs = [], dirty = 0\<rparr>"

definition mark_dirty :: "registry \<Rightarrow> registry" where
  "mark_dirty r = r\<lparr>dirty := dirty r + 1\<rparr>"

definition lookup_bulb :: "registry \<Rightarrow> string \<Rightarrow> bulb option" where
  "lookup_bulb r i = map_of (bulbs r) i"

definition put_bulb :: "string \<Rightarrow> bulb \<Rightarrow> registry \<Rightarrow> registry" where
  "put_bulb i b r = r\<lparr>bulbs := aset i b (bulbs r)\<rparr>"

section \<open>Operations\<close>

definition upsert :: "string \<Rightarrow> string \<Rightarrow> capabilities \<Rightarrow> time \<Rightarrow> registry \<Rightarrow> (bulb \<times> bool) \<times> registry" where
  "upsert i addr caps now r =
     (case lookup_bulb r i of
        Some e \<Rightarrow>
          (let e1 = e\<lparr>last_seen := now, remote_addr := addr\<rparr>;
               e2 = (if cap_known caps \<or> \<not> cap_known (bulb_caps e1) then e1\<lparr>bulb_caps := caps\<rparr> else e1);
               e3 = (if status e2 \<noteq> Discovered then e2\<lparr>status := Connected\<rparr> else e2)
           in ((e3, False), mark_dirty (put_bulb i e3 r)))
      | None \<Rightarrow>
          (let b = zero_bulb\<lparr>device_id := i, bulb_name := i, status := Discovered, bulb_caps := caps,
                 first_seen := now, last_seen := now, remote_addr := addr\<rparr>
           in ((b, True), mark_dirty (put_bulb i b r))))"

text \<open>The first other bulb, in iteration order, that already has the name.\<close>

definition name_owner :: "registry \<Rightarrow> string \<Rightarrow> string \<Rightarrow> string option" where
  "name_owner r i name =
     map_option (\<lambda>p. device_id (snd p)) (find (\<lambda>p. fst p \<noteq> i \<and> bulb_name (snd p) = name) (bulbs r))"

definition declare_bulb :: "string \<Rightarrow> string \<Rightarrow> registry \<Rightarrow> registry_error + ((bool \<times> bool) \<times> registry)" where
  "declare_bulb i name r =
     (if trim_space i = [] then Inl EmptyDeviceId
      else if trim_space name = [] then Inl EmptyName
      else
        (case name_owner r i name of
           Some owner \<Rightarrow> Inl (NameInUse name owner)
         | None \<Rightarrow>
             (case lookup_bulb r i of
                None \<Rightarrow>
                  Inr ((True, False),
                    mark_dirty (put_bulb i (zero_bulb\<lparr>device_id := i, bulb_name := name, status := Disconnected\<rparr>) r))
              | Some e \<Rightarrow>
                  (let renamed = bulb_name e \<noteq> name;
                       e1 = (if renamed then e\<lparr>bulb_name := name\<rparr> else e);
                       e2 = (if status e1 = Discovered then e1\<lparr>status := Connected\<rparr> else e1);
                       r1 = put_bulb i e2 r
                   in Inr ((False, renamed), if renamed then mark_dirty r1 else r1)))))"

definition view :: "string \<Rightarrow> registry \<Rightarrow> bulb \<times> bool" where
  "view i r = (case lookup_bulb r i of None \<Rightarrow> (zero_bulb, False) | Some b \<Rightarrow> (b, True))"

definition list_bulbs :: "registry \<Rightarrow> bulb list" where
  "list_bulbs r = sort_key bulb_name (map snd (bulbs r))"

definition matches :: "string \<Rightarrow> bulb \<Rightarrow> bool" where
  "matches lower b \<longleftrightarrow> has_prefix (to_lower (bulb_name b)) lower \<or> has_prefix (to_lower (device_id b)) lower"

text \<open>The \<open>switch\<close> on the number of matches: an ambiguous target is an error, never a guess.\<close>

definition pick :: "string \<Rightarrow> bulb list \<Rightarrow> registry_error + bulb" where
  "pick target ms =
     (case ms of
        [] \<Rightarrow> Inl (UnknownTarget target)
      | [b] \<Rightarrow> Inr b
      | _ \<Rightarrow> Inl (AmbiguousTarget target (sort (map bulb_name ms))))"

definition resolve :: "string \<Rightarrow> registry \<Rightarrow> registry_error + bulb" where
  "resolve target r =
     (if target = [] then Inl (UnknownTarget target)
      else
        (case find (\<lambda>b. bulb_name b = target) (map snd (bulbs r)) of
           Some b \<Rightarrow> Inr b
         | None \<Rightarrow>
             (case lookup_bulb r target of
                Some b \<Rightarrow> Inr b
              | None \<Rightarrow> pick target (filter (matches (to_lower target)) (map snd (bulbs r))))))"

definition rename_bulb :: "string \<Rightarrow> string \<Rightarrow> registry \<Rightarrow> registry_error + (bool \<times> registry)" where
  "rename_bulb i name r =
     (if trim_space name = [] then Inl EmptyName
      else
        (case lookup_bulb r i of
           None \<Rightarrow> Inl (UnknownTarget i)
         | Some b \<Rightarrow>
             (case name_owner r i name of
                Some owner \<Rightarrow> Inl (NameInUse name owner)
              | None \<Rightarrow>
                  (let adopted = (status b = Discovered);
                       b1 = b\<lparr>bulb_name := name\<rparr>;
                       b2 = (if adopted then b1\<lparr>status := Connected\<rparr> else b1)
                   in Inr (adopted, mark_dirty (put_bulb i b2 r))))))"

definition set_state :: "string \<Rightarrow> light_state \<Rightarrow> time \<Rightarrow> registry \<Rightarrow> field_change list \<times> registry" where
  "set_state i s now r =
     (case lookup_bulb r i of
        None \<Rightarrow> ([], r)
      | Some b \<Rightarrow>
          (let changes = diff_state (light b) s;
               r1 = put_bulb i (b\<lparr>light := s, last_seen := now, desired := None\<rparr>) r
           in (changes, if changes \<noteq> [] then mark_dirty r1 else r1)))"

definition set_desired :: "string \<Rightarrow> light_state \<Rightarrow> registry \<Rightarrow> registry" where
  "set_desired i want r =
     (case lookup_bulb r i of None \<Rightarrow> r | Some b \<Rightarrow> put_bulb i (b\<lparr>desired := Some want\<rparr>) r)"

definition touch :: "string \<Rightarrow> time \<Rightarrow> registry \<Rightarrow> registry" where
  "touch i now r = (case lookup_bulb r i of None \<Rightarrow> r | Some b \<Rightarrow> put_bulb i (b\<lparr>last_seen := now\<rparr>) r)"

definition set_firmware :: "string \<Rightarrow> string \<Rightarrow> registry \<Rightarrow> registry" where
  "set_firmware i version r =
     (if version = [] then r
      else
        (case lookup_bulb r i of
           None \<Rightarrow> r
         | Some b \<Rightarrow>
             if firmware b \<noteq> version then mark_dirty (put_bulb i (b\<lparr>firmware := version\<rparr>) r) else r))"

definition set_capabilities :: "string \<Rightarrow> capabilities \<Rightarrow> registry \<Rightarrow> bool \<times> registry" where
  "set_capabilities i caps r =
     (case lookup_bulb r i of
        None \<Rightarrow> (False, r)
      | Some b \<Rightarrow>
          if (\<not> cap_known caps \<and> cap_known (bulb_caps b)) \<or> bulb_caps b = caps then (False, r)
          else (True, mark_dirty (put_bulb i (b\<lparr>bulb_caps := caps\<rparr>) r)))"

definition set_driver :: "string \<Rightarrow> driver_id option \<Rightarrow> registry \<Rightarrow> driver_id option \<times> registry" where
  "set_driver i d r =
     (case lookup_bulb r i of
        None \<Rightarrow> (None, r)
      | Some b \<Rightarrow>
          (let b1 = b\<lparr>driver := d\<rparr>;
               b2 = (if status b1 = Disconnected then b1\<lparr>status := Connected\<rparr> else b1)
           in (driver b, put_bulb i b2 r)))"

definition driver_of :: "string \<Rightarrow> registry \<Rightarrow> driver_id option" where
  "driver_of i r = (case lookup_bulb r i of None \<Rightarrow> None | Some b \<Rightarrow> driver b)"

definition disconnect :: "string \<Rightarrow> driver_id option \<Rightarrow> registry \<Rightarrow> registry" where
  "disconnect i d r =
     (case lookup_bulb r i of
        None \<Rightarrow> r
      | Some b \<Rightarrow>
          if d \<noteq> None \<and> driver b \<noteq> d then r
          else
            (let b1 = b\<lparr>driver := None\<rparr>;
                 b2 = (if status b1 = Connected then b1\<lparr>status := Disconnected\<rparr> else b1)
             in mark_dirty (put_bulb i b2 r)))"

definition snapshot :: "registry \<Rightarrow> bulb list" where
  "snapshot r = list_bulbs r"

section \<open>Entries\<close>

lemma lookup_put [reg_simps]: "lookup_bulb (put_bulb i b r) j = (if j = i then Some b else lookup_bulb r j)"
  by (simp add: lookup_bulb_def put_bulb_def)

lemma lookup_dirty [reg_simps]: "lookup_bulb (mark_dirty r) j = lookup_bulb r j"
  by (simp add: lookup_bulb_def mark_dirty_def)

lemma bulbs_simps [reg_simps]: "bulbs (mark_dirty r) = bulbs r" "bulbs (put_bulb i b r) = aset i b (bulbs r)"
  by (simp_all add: mark_dirty_def put_bulb_def)

lemma dirty_simps [reg_simps]: "dirty (mark_dirty r) = dirty r + 1" "dirty (put_bulb i b r) = dirty r"
  by (simp_all add: mark_dirty_def put_bulb_def)

text \<open>Keys are unique and are the device ids; a bulb with a live connection is not disconnected.\<close>

definition bulb_ok :: "string \<Rightarrow> bulb \<Rightarrow> bool" where
  "bulb_ok i b \<longleftrightarrow> device_id b = i \<and> (driver b \<noteq> None \<longrightarrow> status b \<noteq> Disconnected)"

definition reg_ok :: "registry \<Rightarrow> bool" where
  "reg_ok r \<longleftrightarrow> distinct (map fst (bulbs r)) \<and> (\<forall>i b. lookup_bulb r i = Some b \<longrightarrow> bulb_ok i b)"

definition names_unique :: "registry \<Rightarrow> bool" where
  "names_unique r \<longleftrightarrow>
     (\<forall>i j b c. lookup_bulb r i = Some b \<and> lookup_bulb r j = Some c \<and> bulb_name b = bulb_name c \<longrightarrow> i = j)"

lemma reg_ok_new [simp]: "reg_ok new_registry"
  by (simp add: reg_ok_def new_registry_def lookup_bulb_def)

lemma names_unique_new [simp]: "names_unique new_registry"
  by (simp add: names_unique_def new_registry_def lookup_bulb_def)

lemma reg_ok_put [intro]: "reg_ok r \<Longrightarrow> bulb_ok i b \<Longrightarrow> reg_ok (put_bulb i b r)"
  by (auto simp: reg_ok_def reg_simps distinct_aset)

lemma reg_ok_dirty [simp]: "reg_ok (mark_dirty r) = reg_ok r"
  by (simp add: reg_ok_def reg_simps)

lemma names_unique_dirty [simp]: "names_unique (mark_dirty r) = names_unique r"
  by (simp add: names_unique_def reg_simps)

lemma reg_ok_lookup: "reg_ok r \<Longrightarrow> lookup_bulb r i = Some b \<Longrightarrow> bulb_ok i b"
  by (simp add: reg_ok_def)

lemma reg_ok_member: "reg_ok r \<Longrightarrow> (i, b) \<in> set (bulbs r) \<longleftrightarrow> lookup_bulb r i = Some b"
  by (simp add: reg_ok_def lookup_bulb_def)

lemma names_unique_put:
  assumes "names_unique r" "\<And>j c. j \<noteq> i \<Longrightarrow> lookup_bulb r j = Some c \<Longrightarrow> bulb_name c \<noteq> bulb_name b"
  shows "names_unique (put_bulb i b r)"
  unfolding names_unique_def
proof (intro allI impI)
  fix j k c d
  assume "lookup_bulb (put_bulb i b r) j = Some c \<and> lookup_bulb (put_bulb i b r) k = Some d \<and> bulb_name c = bulb_name d"
  with assms show "j = k"
    by (cases "j = i"; cases "k = i") (auto simp: reg_simps names_unique_def dest: sym)
qed

text \<open>Updating an entry without touching its name.\<close>

lemma names_unique_same:
  assumes "names_unique r" "lookup_bulb r i = Some e" "bulb_name b = bulb_name e"
  shows "names_unique (put_bulb i b r)"
  using assms by (intro names_unique_put) (auto simp: names_unique_def)

lemma find_SomeD: "find P xs = Some x \<Longrightarrow> x \<in> set xs \<and> P x"
  by (induction xs) (auto split: if_splits)

lemma name_owner_None:
  assumes "reg_ok r"
  shows "name_owner r i name = None \<longleftrightarrow> (\<forall>j c. j \<noteq> i \<longrightarrow> lookup_bulb r j = Some c \<longrightarrow> bulb_name c \<noteq> name)"
  by (auto simp: name_owner_def find_None_iff simp flip: reg_ok_member [OF assms])

lemma name_owner_Some:
  assumes "reg_ok r" "name_owner r i name = Some j"
  shows "j \<noteq> i \<and> (\<exists>c. lookup_bulb r j = Some c \<and> bulb_name c = name)"
proof -
  obtain p where p: "p \<in> set (bulbs r)" "fst p \<noteq> i" "bulb_name (snd p) = name" "j = device_id (snd p)"
    using assms(2) by (auto simp: name_owner_def dest: find_SomeD)
  have "lookup_bulb r (fst p) = Some (snd p)"
    using p(1) reg_ok_member [OF assms(1), of "fst p" "snd p"] by simp
  moreover from reg_ok_lookup [OF assms(1) this] have "device_id (snd p) = fst p" by (simp add: bulb_ok_def)
  ultimately show ?thesis using p by auto
qed

section \<open>Operations as a transition system\<close>

datatype reg_op =
    OpUpsert string string capabilities time
  | OpDeclare string string
  | OpRename string string
  | OpSetState string light_state time
  | OpSetDesired string light_state
  | OpTouch string time
  | OpSetFirmware string string
  | OpSetCapabilities string capabilities
  | OpSetDriver string "driver_id option"
  | OpDisconnect string "driver_id option"

text \<open>What each call leaves of the registry; a refused call leaves it as it was.\<close>

fun run_op :: "reg_op \<Rightarrow> registry \<Rightarrow> registry" where
  "run_op (OpUpsert i addr caps now) r = snd (upsert i addr caps now r)"
| "run_op (OpDeclare i name) r = (case declare_bulb i name r of Inl _ \<Rightarrow> r | Inr (_, r') \<Rightarrow> r')"
| "run_op (OpRename i name) r = (case rename_bulb i name r of Inl _ \<Rightarrow> r | Inr (_, r') \<Rightarrow> r')"
| "run_op (OpSetState i s now) r = snd (set_state i s now r)"
| "run_op (OpSetDesired i s) r = set_desired i s r"
| "run_op (OpTouch i now) r = touch i now r"
| "run_op (OpSetFirmware i v) r = set_firmware i v r"
| "run_op (OpSetCapabilities i caps) r = snd (set_capabilities i caps r)"
| "run_op (OpSetDriver i d) r = snd (set_driver i d r)"
| "run_op (OpDisconnect i d) r = disconnect i d r"

inductive reg_step :: "registry \<Rightarrow> registry \<Rightarrow> bool" where
  "reg_step r (run_op op r)"

lemmas reg_defs =
  upsert_def declare_bulb_def rename_bulb_def set_state_def set_desired_def touch_def set_firmware_def
  set_capabilities_def set_driver_def disconnect_def

lemma reg_ok_op: "reg_ok r \<Longrightarrow> reg_ok (run_op op r)"
  by (cases op)
    (auto simp: reg_defs Let_def bulb_ok_def zero_bulb_def split: option.splits if_splits
      dest: reg_ok_lookup intro!: reg_ok_put)

interpretation registry: invariant_system "\<lambda>r. r = new_registry" reg_step reg_ok
  by unfold_locales (auto elim!: reg_step.cases intro: reg_ok_op)

text \<open>
  Every operation keeps names unique, except the first connection of a bulb whose device id another
  bulb is already named after.
\<close>

definition id_clash :: "reg_op \<Rightarrow> registry \<Rightarrow> bool" where
  "id_clash op r =
     (case op of
        OpUpsert i _ _ _ \<Rightarrow> lookup_bulb r i = None \<and> list_ex (\<lambda>p. bulb_name (snd p) = i) (bulbs r)
      | _ \<Rightarrow> False)"

lemma names_unique_op:
  assumes "reg_ok r" "names_unique r" "\<not> id_clash op r"
  shows "names_unique (run_op op r)"
proof (cases op)
  case (OpUpsert i addr caps now)
  show ?thesis
  proof (cases "lookup_bulb r i")
    case None
    have "bulb_name c \<noteq> i" if "lookup_bulb r j = Some c" for j c
      using that assms(3) None reg_ok_member [OF assms(1), of j c] by (force simp: OpUpsert id_clash_def list_ex_iff)
    then show ?thesis
      using assms(2) by (auto simp: OpUpsert upsert_def None Let_def intro!: names_unique_put)
  next
    case (Some e)
    then show ?thesis
      using assms(2) by (auto simp: OpUpsert upsert_def Let_def intro: names_unique_same)
  qed
next
  case (OpDeclare i name)
  then show ?thesis
    using assms by (auto simp: declare_bulb_def Let_def name_owner_None split: option.split intro!: names_unique_put)
next
  case (OpRename i name)
  then show ?thesis
    using assms by (auto simp: rename_bulb_def Let_def name_owner_None split: option.split intro!: names_unique_put)
qed (use assms in \<open>auto simp: reg_defs Let_def split: option.split intro: names_unique_same\<close>)

section \<open>Resolving a target\<close>

lemma find_unique:
  assumes "\<And>x y. x \<in> set xs \<Longrightarrow> y \<in> set xs \<Longrightarrow> P x \<Longrightarrow> P y \<Longrightarrow> x = y" "set ys = set xs"
  shows "find P ys = find P xs"
proof (cases "find P xs")
  case None
  then show ?thesis using assms(2) by (metis find_None_iff)
next
  case (Some x)
  then have x: "x \<in> set xs" "P x" using find_SomeD by metis+
  then obtain y where "find P ys = Some y" using assms(2) by (cases "find P ys") (auto simp: find_None_iff)
  with assms x show ?thesis using find_SomeD [of P ys y] Some by auto
qed

lemma set_bulbs: "reg_ok r \<Longrightarrow> b \<in> set (map snd (bulbs r)) \<longleftrightarrow> lookup_bulb r (device_id b) = Some b"
proof
  assume r: "reg_ok r" "b \<in> set (map snd (bulbs r))"
  then obtain i where "(i, b) \<in> set (bulbs r)" by auto
  then have "lookup_bulb r i = Some b" using reg_ok_member [OF r(1)] by simp
  with reg_ok_lookup [OF r(1) this] show "lookup_bulb r (device_id b) = Some b" by (simp add: bulb_ok_def)
next
  assume "reg_ok r" "lookup_bulb r (device_id b) = Some b"
  then have "(device_id b, b) \<in> set (bulbs r)" by (simp add: reg_ok_member)
  then show "b \<in> set (map snd (bulbs r))" by force
qed

lemma names_unique_bulbs:
  assumes "reg_ok r" "names_unique r" "b \<in> set (map snd (bulbs r))" "c \<in> set (map snd (bulbs r))" "bulb_name b = bulb_name c"
  shows "b = c"
  using assms(2-5) unfolding set_bulbs [OF assms(1)] names_unique_def by (metis option.inject)

lemma sort_mset: "mset ys = mset xs \<Longrightarrow> sort ys = sort (xs :: string list)"
  by (intro properties_for_sort) simp_all

lemma pick_mset:
  assumes "mset ms' = mset ms"
  shows "pick t ms' = pick t ms"
proof -
  have len: "length ms' = length ms" using assms by (rule mset_eq_length)
  have "sort (map bulb_name ms') = sort (map bulb_name ms)"
    by (rule sort_mset) (simp add: assms)
  moreover have "length ms = 1 \<Longrightarrow> ms' = ms"
    using assms len by (auto simp: length_Suc_conv)
  ultimately show ?thesis
    using len by (cases ms rule: list.exhaust; cases ms' rule: list.exhaust)
      (auto simp: pick_def split: list.split)
qed

lemma resolve_perm:
  assumes "reg_ok r" "names_unique r" "mset (bulbs r') = mset (bulbs r)"
  shows "resolve t r' = resolve t r"
proof -
  have bs: "mset (map snd (bulbs r')) = mset (map snd (bulbs r))" using assms(3) by simp
  have "distinct (map fst (bulbs r'))"
    using assms(1,3) mset_eq_imp_distinct_iff [of "map fst (bulbs r')" "map fst (bulbs r)"] by (simp add: reg_ok_def)
  then have look: "lookup_bulb r' = lookup_bulb r"
    using assms(1,3) map_of_inject_set [of "bulbs r'" "bulbs r"] mset_eq_setD [OF assms(3)]
    by (auto simp: lookup_bulb_def reg_ok_def fun_eq_iff)
  have fnd: "find (\<lambda>b. bulb_name b = t) (map snd (bulbs r')) = find (\<lambda>b. bulb_name b = t) (map snd (bulbs r))"
    by (rule find_unique [OF _ mset_eq_setD [OF bs]]) (use names_unique_bulbs [OF assms(1,2)] in auto)
  have "mset (filter (matches (to_lower t)) (map snd (bulbs r'))) = mset (filter (matches (to_lower t)) (map snd (bulbs r)))"
    using bs by (simp only: mset_filter)
  from pick_mset [OF this, of t] show ?thesis by (simp add: resolve_def look fnd split: option.split)
qed

lemma resolve_Inr:
  assumes "reg_ok r" "resolve t r = Inr b"
  shows "lookup_bulb r (device_id b) = Some b \<and>
    (bulb_name b = t \<or> device_id b = t \<or>
     matches (to_lower t) b \<and> (\<forall>i c. lookup_bulb r i = Some c \<longrightarrow> bulb_name c \<noteq> t \<and> i \<noteq> t \<and> (matches (to_lower t) c \<longrightarrow> c = b)))"
proof (cases "find (\<lambda>b. bulb_name b = t) (map snd (bulbs r))")
  case (Some c)
  then have "b = c" using assms(2) by (auto simp: resolve_def split: if_splits)
  with find_SomeD [OF Some] show ?thesis using set_bulbs [OF assms(1), of b] by simp
next
  case None
  note names = this
  show ?thesis
  proof (cases "lookup_bulb r t")
    case (Some c)
    then have "b = c" using assms(2) names by (auto simp: resolve_def split: if_splits)
    with reg_ok_lookup [OF assms(1) Some] Some show ?thesis by (simp add: bulb_ok_def)
  next
    case lookup: None
    have "pick t (filter (matches (to_lower t)) (map snd (bulbs r))) = Inr b"
      using assms(2) names lookup by (auto simp: resolve_def split: if_splits)
    then have one: "filter (matches (to_lower t)) (map snd (bulbs r)) = [b]"
      by (auto simp: pick_def split: list.splits)
    have mem: "c \<in> set (map snd (bulbs r))" if "lookup_bulb r i = Some c" for i c
      using that reg_ok_member [OF assms(1), of i c] by force
    have only: "c \<in> set (map snd (bulbs r)) \<and> matches (to_lower t) c \<longleftrightarrow> c = b" for c
      using arg_cong [OF one, of set] by auto
    have "b \<in> set (map snd (bulbs r))" "matches (to_lower t) b" using only by blast+
    moreover have "bulb_name c \<noteq> t \<and> i \<noteq> t \<and> (matches (to_lower t) c \<longrightarrow> c = b)" if "lookup_bulb r i = Some c" for i c
      using mem [OF that] names only lookup that by (auto simp: find_None_iff)
    ultimately show ?thesis using set_bulbs [OF assms(1), of b] by blast
  qed
qed

lemma resolve_ambiguous:
  assumes "reg_ok r" "resolve t r = Inl (AmbiguousTarget t' names)"
  shows "t' = t \<and> sorted names \<and> 2 \<le> length names \<and>
    set names = {bulb_name b |b i. lookup_bulb r i = Some b \<and> matches (to_lower t) b}"
proof -
  define ms where "ms = filter (matches (to_lower t)) (map snd (bulbs r))"
  have "pick t ms = Inl (AmbiguousTarget t' names)"
    using assms(2) by (auto simp: resolve_def ms_def split: if_splits option.splits)
  then have ms: "t' = t" "2 \<le> length ms" "names = sort (map bulb_name ms)"
    by (auto simp: pick_def split: list.splits)
  have "set ms = {b. \<exists>i. lookup_bulb r i = Some b \<and> matches (to_lower t) b}"
    unfolding ms_def by (force simp flip: reg_ok_member [OF assms(1)])
  then have "set names = {bulb_name b |b i. lookup_bulb r i = Some b \<and> matches (to_lower t) b}"
    unfolding ms(3) by auto
  with ms show ?thesis by simp
qed

lemma resolve_name:
  assumes "reg_ok r" "names_unique r" "lookup_bulb r i = Some b" "bulb_name b \<noteq> []"
  shows "resolve (bulb_name b) r = Inr b"
proof -
  have b: "b \<in> set (map snd (bulbs r))"
    using assms(3) reg_ok_member [OF assms(1), of i b] by force
  then obtain c where c: "find (\<lambda>c. bulb_name c = bulb_name b) (map snd (bulbs r)) = Some c"
    by (cases "find (\<lambda>c. bulb_name c = bulb_name b) (map snd (bulbs r))") (auto simp: find_None_iff)
  from find_SomeD [OF c] have "c = b" using names_unique_bulbs [OF assms(1,2) _ b] by blast
  with c assms(4) show ?thesis by (simp add: resolve_def)
qed

section \<open>Properties\<close>

text \<open>
  C20: whatever calls are made, in whatever order, every bulb is registered once, under its own device
  id, and a bulb with a live connection is never shown as disconnected.
\<close>

theorem registry_well_formed:
  assumes "reachable (\<lambda>r. r = new_registry) reg_step r"
  shows "distinct (map fst (bulbs r)) \<and>
    (\<forall>i b. lookup_bulb r i = Some b \<longrightarrow> device_id b = i \<and> (driver b \<noteq> None \<longrightarrow> status b \<noteq> Disconnected))"
  using registry.reachable_inv [OF assms] by (simp add: reg_ok_def bulb_ok_def)

theorem registry_well_formed_witness:
  "distinct (map fst (bulbs (run_op (OpSetDriver ''a'' (Some 1)) (run_op (OpUpsert ''a'' ''addr'' no_caps 5) new_registry))))"
proof -
  let ?r1 = "run_op (OpUpsert ''a'' ''addr'' no_caps 5) new_registry"
  have "reachable (\<lambda>r. r = new_registry) reg_step new_registry"
    by (simp add: reachable.reach_start)
  then have "reachable (\<lambda>r. r = new_registry) reg_step ?r1"
    by (rule reachable.reach_step) (rule reg_step.intros)
  then have "reachable (\<lambda>r. r = new_registry) reg_step (run_op (OpSetDriver ''a'' (Some 1)) ?r1)"
    by (rule reachable.reach_step) (rule reg_step.intros)
  from registry_well_formed [OF this] show ?thesis by (rule conjunct1)
qed

text \<open>
  Names stay unique under every operation, successful or refused, except the one the code does not
  check: the first connection of a bulb whose device id is already another bulb's name.
\<close>

theorem names_stay_unique:
  assumes "reg_ok r" "names_unique r" "\<not> id_clash op r"
  shows "reg_ok (run_op op r) \<and> names_unique (run_op op r)"
  using assms by (simp add: reg_ok_op names_unique_op)

theorem names_stay_unique_witness:
  "names_unique (run_op (OpRename ''a'' ''desk'') (run_op (OpUpsert ''a'' ''addr'' no_caps 5) new_registry))"
proof -
  have fresh: "\<not> id_clash (OpUpsert ''a'' ''addr'' no_caps 5) new_registry"
    by (simp add: id_clash_def new_registry_def)
  note r1 = reg_ok_op [OF reg_ok_new] names_unique_op [OF reg_ok_new names_unique_new fresh]
  show ?thesis
    by (rule names_stay_unique [OF r1, THEN conjunct2]) (simp add: id_clash_def)
qed



text \<open>
  A returning bulb rejoins its entry. No entry is added, the bulb keeps its name, state, firmware,
  first-seen time and adoption, what is known of its capabilities is not forgotten, an adopted bulb
  is connected again, and no other bulb is touched.
\<close>

theorem upsert_rejoins:
  assumes "lookup_bulb r i = Some e" "upsert i addr caps now r = ((b, new), r')"
  shows "\<not> new \<and> map fst (bulbs r') = map fst (bulbs r) \<and> lookup_bulb r' i = Some b \<and>
    device_id b = device_id e \<and> bulb_name b = bulb_name e \<and> light b = light e \<and> desired b = desired e \<and>
    firmware b = firmware e \<and> first_seen b = first_seen e \<and> driver b = driver e \<and>
    last_seen b = now \<and> remote_addr b = addr \<and> adopted b = adopted e \<and>
    (adopted e \<longrightarrow> status b = Connected) \<and> (cap_known (bulb_caps e) \<longrightarrow> cap_known (bulb_caps b)) \<and>
    (\<forall>j. j \<noteq> i \<longrightarrow> lookup_bulb r' j = lookup_bulb r j) \<and> dirty r' = dirty r + 1"
proof -
  have keys: "map fst (aset i x (bulbs r)) = map fst (bulbs r)" for x
  proof -
    have "i \<in> fst ` set ps \<Longrightarrow> map fst (aset i x ps) = map fst ps" for ps :: "(string \<times> bulb) list"
      by (induction ps) auto
    moreover have "i \<in> fst ` set (bulbs r)"
      using assms(1) by (metis lookup_bulb_def map_of_eq_None_iff option.distinct(1))
    ultimately show ?thesis by blast
  qed
  show ?thesis
    using assms by (auto simp: upsert_def Let_def reg_simps keys adopted_def split: if_splits)
qed

theorem upsert_rejoins_witness:
  "\<exists>b. lookup_bulb (snd (upsert ''a'' ''new'' no_caps 9 (new_registry\<lparr>bulbs := [(''a'', zero_bulb\<lparr>device_id := ''a'', bulb_name := ''desk''\<rparr>)]\<rparr>))) ''a'' = Some b
     \<and> bulb_name b = ''desk'' \<and> status b = Connected"
  using upsert_rejoins [of "new_registry\<lparr>bulbs := [(''a'', zero_bulb\<lparr>device_id := ''a'', bulb_name := ''desk''\<rparr>)]\<rparr>"
      "''a''" "zero_bulb\<lparr>device_id := ''a'', bulb_name := ''desk''\<rparr>" "''new''" no_caps 9, OF _ prod.collapse [symmetric, THEN trans, OF arg_cong2 [where f = Pair, OF prod.collapse [symmetric] refl]]]
  by (auto simp: lookup_bulb_def adopted_def zero_bulb_def)

text \<open>
  A bulb is adopted only by being named. No connection, report, capability, firmware, driver or
  teardown ever turns a discovered bulb into an adopted one.
\<close>

theorem adoption_is_deliberate:
  assumes "lookup_bulb r i = Some b" "status b = Discovered"
    "lookup_bulb (run_op op r) i = Some c" "adopted c"
  shows "(\<exists>name. op = OpRename i name \<or> op = OpDeclare i name) \<and> status c = Connected"
  using assms
  by (cases op) (auto simp: reg_defs Let_def reg_simps adopted_def split: option.splits if_splits)

theorem adoption_is_deliberate_witness:
  "status (the (lookup_bulb (run_op (OpRename ''a'' ''desk'') (new_registry\<lparr>bulbs := [(''a'', zero_bulb\<lparr>device_id := ''a'', bulb_name := ''a'', status := Discovered\<rparr>)]\<rparr>)) ''a'')) = Connected"
proof -
  let ?b = "zero_bulb\<lparr>device_id := ''a'', bulb_name := ''a'', status := Discovered\<rparr>"
  let ?r = "new_registry\<lparr>bulbs := [(''a'', ?b)]\<rparr>"
  have "trim_space ''desk'' \<noteq> []" by code_simp
  then have "lookup_bulb (run_op (OpRename ''a'' ''desk'') ?r) ''a'' = Some (?b\<lparr>bulb_name := ''desk'', status := Connected\<rparr>)"
    by (simp add: rename_bulb_def lookup_bulb_def name_owner_def reg_simps mark_dirty_def put_bulb_def)
  from adoption_is_deliberate [OF _ _ this] this show ?thesis
    by (simp add: lookup_bulb_def adopted_def)
qed

text \<open>
  A connection that was replaced cannot knock out its successor. After a second connection has
  taken the bulb over, the first one's late teardown changes nothing, while the current one's marks
  an adopted bulb disconnected and leaves a discovered one discovered.
\<close>

theorem late_teardown_ignored:
  assumes "lookup_bulb r i = Some b" "d \<noteq> d'"
  shows "(let (prev, r') = set_driver i (Some d') r in
      prev = driver b \<and> driver_of i r' = Some d' \<and> disconnect i (Some d) r' = r' \<and>
      driver_of i (disconnect i (Some d') r') = None \<and>
      (\<forall>c. lookup_bulb (disconnect i (Some d') r') i = Some c \<longrightarrow>
         status c = (if status b = Discovered then Discovered else Disconnected)))"
  using assms by (cases "status b") (auto simp: set_driver_def disconnect_def driver_of_def reg_simps Let_def)

theorem late_teardown_ignored_witness:
  "disconnect ''a'' (Some 1) (snd (set_driver ''a'' (Some 2) (new_registry\<lparr>bulbs := [(''a'', zero_bulb\<lparr>driver := Some 1\<rparr>)]\<rparr>))) =
    snd (set_driver ''a'' (Some 2) (new_registry\<lparr>bulbs := [(''a'', zero_bulb\<lparr>driver := Some 1\<rparr>)]\<rparr>))"
  using late_teardown_ignored [of "new_registry\<lparr>bulbs := [(''a'', zero_bulb\<lparr>driver := Some 1\<rparr>)]\<rparr>" "''a''" "zero_bulb\<lparr>driver := Some 1\<rparr>" 1 2]
  by (simp add: lookup_bulb_def case_prod_beta Let_def)

section \<open>Where the code falls short\<close>

text \<open>
  Naming a bulb that was discovered and has gone again leaves it connected with no connection: the
  teardown keeps it \<open>Discovered\<close>, and \<open>Rename\<close> turns every discovered bulb into a connected one.
\<close>

lemma named_while_gone:
  assumes "lookup_bulb r i = Some b" "status b = Discovered" "driver b = None"
    "rename_bulb i name r = Inr (adopted', r')"
  shows "\<exists>c. lookup_bulb r' i = Some c \<and> status c = Connected \<and> driver c = None"
  using assms by (auto simp: rename_bulb_def Let_def reg_simps split: if_splits option.splits)

text \<open>
  A bulb named after the device id of another that has not connected yet: when that one connects, two
  bulbs share the name.
\<close>

lemma upsert_shares_name:
  assumes "lookup_bulb r i = None" "lookup_bulb r j = Some c" "bulb_name c = i"
  shows "\<not> names_unique (snd (upsert i addr caps now r))"
proof -
  let ?b = "zero_bulb\<lparr>device_id := i, bulb_name := i, status := Discovered, bulb_caps := caps,
     first_seen := now, last_seen := now, remote_addr := addr\<rparr>"
  have upsert: "snd (upsert i addr caps now r) = mark_dirty (put_bulb i ?b r)"
    using assms(1) by (simp add: upsert_def Let_def)
  have "i \<noteq> j" using assms by auto
  then have look: "lookup_bulb (put_bulb i ?b r) j = Some c" "lookup_bulb (put_bulb i ?b r) i = Some ?b"
    using assms(2) by (simp_all add: reg_simps)
  show ?thesis
  proof
    assume "names_unique (snd (upsert i addr caps now r))"
    then have "names_unique (put_bulb i ?b r)" by (simp add: upsert)
    from this [unfolded names_unique_def, rule_format, of i ?b j c] look assms(3) \<open>i \<noteq> j\<close>
    show False by simp
  qed
qed

end
