(* ===== verification/Events.thy ===== *)
theory Events
  imports Bulb "HOL-Library.Multiset"
begin

text \<open>
  \<open>internal/events\<close>: what the operator and the log are told (event.go), and the bus that fans
  events out to subscribers without ever blocking the publisher (bus.go). The bus is given twice: as
  the functions a single goroutine runs, and, for one subscription, as a step relation in which any
  number of publishers and the consumer interleave between the three \<open>select\<close> statements of
  \<open>offer\<close>.
\<close>

section \<open>Events\<close>

datatype kind =
    StateChanged
  | KConnected
  | KDisconnected
  | KDiscovered
  | CommandResult
  | ProtocolError
  | DuplicateID
  | Renamed
  | Rejected

record event =
  ev_at :: time
  ev_kind :: kind
  ev_device :: string
  ev_name :: string
  ev_changed :: "field_change list"
  ev_detail :: string

definition event_label :: "event \<Rightarrow> string" where
  "event_label e =
     (if ev_name e \<noteq> [] then ev_name e else if ev_device e \<noteq> [] then ev_device e else ''server'')"

text \<open>The UTF-8 bytes of the dash in the text of a discovery.\<close>

definition em_dash :: string where
  "em_dash = [CHR 0xE2, CHR 0x80, CHR 0x94]"

definition event_text :: "event \<Rightarrow> string" where
  "event_text e =
     (case ev_kind e of
        KConnected \<Rightarrow> ''connected''
      | KDisconnected \<Rightarrow> (if ev_detail e \<noteq> [] then ''disconnected ('' @ ev_detail e @ '')'' else ''disconnected'')
      | KDiscovered \<Rightarrow> ''discovered '' @ em_dash @ '' name it to control it''
      | CommandResult \<Rightarrow> ''command failed: '' @ ev_detail e
      | ProtocolError \<Rightarrow> ''protocol error: '' @ ev_detail e
      | DuplicateID \<Rightarrow> ''WARNING duplicate device id, also seen from '' @ ev_detail e
      | Renamed \<Rightarrow> ev_detail e
      | Rejected \<Rightarrow> ''rejected: not in the configured lamp set''
      | StateChanged \<Rightarrow>
          (let parts = map change_string (ev_changed e)
           in if parts = [] then ''state reported (no change)'' else join ''  '' parts))"

text \<open>
  \<open>Line\<close>: the clock of the zone \<open>zone\<close> nanoseconds east of UTC, and the label padded to fourteen
  characters. An invalid byte counts as one character.
\<close>

function rune_count :: "string \<Rightarrow> nat" where
  "rune_count s = (if s = [] then 0 else Suc (rune_count (drop (max 1 (utf8_len s)) s)))"
  by pat_completeness auto
termination
  by (relation "measure length") auto

declare rune_count.simps [simp del]

definition two_digits :: "int \<Rightarrow> string" where
  "two_digits n = (if n < 10 then ''0'' @ itoa n else itoa n)"

definition clock_string :: "duration \<Rightarrow> time \<Rightarrow> string" where
  "clock_string zone t =
     (let s = ((t + zone) div second) mod 86400
      in two_digits (s div 3600) @ '':'' @ two_digits (s div 60 mod 60) @ '':'' @ two_digits (s mod 60))"

definition pad_right :: "nat \<Rightarrow> string \<Rightarrow> string" where
  "pad_right n s = s @ replicate (n - rune_count s) CHR '' ''"

definition event_line :: "duration \<Rightarrow> event \<Rightarrow> string" where
  "event_line zone e = clock_string zone (ev_at e) @ ''  '' @ pad_right 14 (event_label e) @ '' '' @ event_text e"

section \<open>Log records\<close>

datatype level = LevelDebug | LevelInfo | LevelWarn | LevelError

fun level_value :: "level \<Rightarrow> int" where
  "level_value LevelDebug = - 4"
| "level_value LevelInfo = 0"
| "level_value LevelWarn = 4"
| "level_value LevelError = 8"

lemma level_value_inject [simp]: "level_value a = level_value b \<longleftrightarrow> a = b"
  by (cases a; cases b) simp_all

text \<open>\<open>slog.Level\<close> is an integer, so the levels are ordered.\<close>

instantiation level :: linorder
begin

definition less_eq_level :: "level \<Rightarrow> level \<Rightarrow> bool" where
  "less_eq_level a b \<longleftrightarrow> level_value a \<le> level_value b"

definition less_level :: "level \<Rightarrow> level \<Rightarrow> bool" where
  "less_level a b \<longleftrightarrow> level_value a < level_value b"

instance
  by intro_classes (auto simp: less_eq_level_def less_level_def antisym)

end

fun kind_string :: "kind \<Rightarrow> string" where
  "kind_string KConnected = ''connected''"
| "kind_string KDisconnected = ''disconnected''"
| "kind_string KDiscovered = ''discovered''"
| "kind_string CommandResult = ''command_result''"
| "kind_string ProtocolError = ''protocol_error''"
| "kind_string DuplicateID = ''duplicate_id''"
| "kind_string Renamed = ''renamed''"
| "kind_string Rejected = ''rejected''"
| "kind_string StateChanged = ''state_changed''"

fun kind_record :: "kind \<Rightarrow> string \<times> level" where
  "kind_record KConnected = (''bulb connected'', LevelInfo)"
| "kind_record KDisconnected = (''bulb disconnected'', LevelInfo)"
| "kind_record KDiscovered = (''bulb discovered'', LevelInfo)"
| "kind_record CommandResult = (''command failed'', LevelWarn)"
| "kind_record ProtocolError = (''protocol error'', LevelWarn)"
| "kind_record DuplicateID = (''duplicate device id'', LevelWarn)"
| "kind_record Renamed = (''bulb renamed'', LevelInfo)"
| "kind_record Rejected = (''bulb rejected'', LevelWarn)"
| "kind_record StateChanged = (''bulb reported state'', LevelInfo)"

record log_record =
  log_level :: level
  log_message :: string
  log_attrs :: "(string \<times> string) list"

definition log_event :: "event \<Rightarrow> log_record" where
  "log_event e =
     (let attrs = [(''kind'', kind_string (ev_kind e)), (''device'', ev_device e), (''name'', ev_name e)] @
            (if ev_detail e \<noteq> [] then [(''detail'', ev_detail e)] else []) @
            map (\<lambda>c. (changed_field c, changed_from c @ arrow @ changed_to c)) (ev_changed e);
          (msg, lvl) = kind_record (ev_kind e)
      in \<lparr>log_level = lvl, log_message = msg, log_attrs = attrs\<rparr>)"

section \<open>The bus, one goroutine at a time\<close>

record 'e subscription =
  sub_id :: nat
  depth :: nat
  queue :: "'e list"
  dropped :: nat

record 'e bus =
  next_sub :: nat
  subs :: "'e subscription list"

definition new_bus :: "'e bus" where
  "new_bus = \<lparr>next_sub = 0, subs = []\<rparr>"

definition subscribe :: "int \<Rightarrow> 'e bus \<Rightarrow> nat \<times> 'e bus" where
  "subscribe d b =
     (let d' = (if d < 1 then 1 else d);
          s = \<lparr>sub_id = next_sub b, depth = nat d', queue = [], dropped = 0\<rparr>
      in (next_sub b, b\<lparr>next_sub := next_sub b + 1, subs := subs b @ [s]\<rparr>))"

fun remove_sub :: "nat \<Rightarrow> 'e subscription list \<Rightarrow> 'e subscription list" where
  "remove_sub i [] = []"
| "remove_sub i (s # ss) = (if sub_id s = i then ss else s # remove_sub i ss)"

definition close_sub :: "nat \<Rightarrow> 'e bus \<Rightarrow> 'e bus" where
  "close_sub i b = b\<lparr>subs := remove_sub i (subs b)\<rparr>"

text \<open>The three \<open>select\<close> statements of \<open>offer\<close>, nobody receiving in between.\<close>

definition try_send :: "'e \<Rightarrow> 'e subscription \<Rightarrow> 'e subscription option" where
  "try_send e s = (if length (queue s) < depth s then Some (s\<lparr>queue := queue s @ [e]\<rparr>) else None)"

definition evict :: "'e subscription \<Rightarrow> 'e subscription" where
  "evict s = (case queue s of [] \<Rightarrow> s | _ # q \<Rightarrow> s\<lparr>queue := q, dropped := dropped s + 1\<rparr>)"

definition offer :: "'e \<Rightarrow> 'e subscription \<Rightarrow> 'e subscription" where
  "offer e s =
     (case try_send e s of
        Some s' \<Rightarrow> s'
      | None \<Rightarrow>
          (let s1 = evict s
           in case try_send e s1 of Some s' \<Rightarrow> s' | None \<Rightarrow> s1\<lparr>dropped := dropped s1 + 1\<rparr>))"

definition publish_event :: "event \<Rightarrow> event bus \<Rightarrow> log_record \<times> event bus" where
  "publish_event e b = (log_event e, b\<lparr>subs := map (offer e) (subs b)\<rparr>)"

section \<open>One subscription, interleaved\<close>

text \<open>
  Where a publisher stands inside \<open>offer\<close>: before the first, the second or the third \<open>select\<close>.
  \<open>Publish\<close> only takes the read lock, so several publishers may be inside at once. The published,
  received and lost events are recorded for the proofs only.
\<close>

datatype 'e offer_pc = TrySend 'e | Evict 'e | Retry 'e

fun pc_event :: "'e offer_pc \<Rightarrow> 'e" where
  "pc_event (TrySend e) = e"
| "pc_event (Evict e) = e"
| "pc_event (Retry e) = e"

record 'e channel =
  chan :: "'e list"
  drops :: nat
  flight :: "'e offer_pc list"
  published :: "'e list"
  received :: "'e list"
  lost :: "'e list"

definition new_channel :: "'e channel" where
  "new_channel = \<lparr>chan = [], drops = 0, flight = [], published = [], received = [], lost = []\<rparr>"

inductive chan_step :: "nat \<Rightarrow> 'e channel \<Rightarrow> 'e channel \<Rightarrow> bool" for cap :: nat where
  enter: "chan_step cap s (s\<lparr>flight := flight s @ [TrySend e], published := published s @ [e]\<rparr>)"
| send: "flight s = xs @ TrySend e # ys \<Longrightarrow> length (chan s) < cap \<Longrightarrow>
    chan_step cap s (s\<lparr>flight := xs @ ys, chan := chan s @ [e]\<rparr>)"
| full: "flight s = xs @ TrySend e # ys \<Longrightarrow> \<not> length (chan s) < cap \<Longrightarrow>
    chan_step cap s (s\<lparr>flight := xs @ Evict e # ys\<rparr>)"
| evict_oldest: "flight s = xs @ Evict e # ys \<Longrightarrow> chan s = x # q \<Longrightarrow>
    chan_step cap s (s\<lparr>flight := xs @ Retry e # ys, chan := q, drops := drops s + 1, lost := lost s @ [x]\<rparr>)"
| evict_none: "flight s = xs @ Evict e # ys \<Longrightarrow> chan s = [] \<Longrightarrow>
    chan_step cap s (s\<lparr>flight := xs @ Retry e # ys\<rparr>)"
| resend: "flight s = xs @ Retry e # ys \<Longrightarrow> length (chan s) < cap \<Longrightarrow>
    chan_step cap s (s\<lparr>flight := xs @ ys, chan := chan s @ [e]\<rparr>)"
| give_up: "flight s = xs @ Retry e # ys \<Longrightarrow> \<not> length (chan s) < cap \<Longrightarrow>
    chan_step cap s (s\<lparr>flight := xs @ ys, drops := drops s + 1, lost := lost s @ [e]\<rparr>)"
| receive: "chan s = x # q \<Longrightarrow> chan_step cap s (s\<lparr>chan := q, received := received s @ [x]\<rparr>)"

inductive_cases chan_stepE: "chan_step cap s t"

definition chan_inv :: "nat \<Rightarrow> 'e channel \<Rightarrow> bool" where
  "chan_inv cap s \<longleftrightarrow> length (chan s) \<le> cap \<and> drops s = length (lost s) \<and>
     mset (published s) = mset (received s) + mset (chan s) + mset (lost s) + mset (map pc_event (flight s))"

lemma chan_inv_step: "chan_inv cap s \<Longrightarrow> chan_step cap s t \<Longrightarrow> chan_inv cap t"
  by (erule chan_stepE) (auto simp: chan_inv_def)

interpretation channel: invariant_system "\<lambda>s. s = new_channel" "chan_step cap" "chan_inv cap" for cap
proof unfold_locales
  show "s = new_channel \<Longrightarrow> chan_inv cap s" for s :: "'a channel"
    by (simp add: chan_inv_def new_channel_def)
qed (rule chan_inv_step)

section \<open>Interface: a buffer that keeps the newest\<close>

text \<open>
  Both the queue of a stalled subscriber and the scroll-back of the terminal keep the newest
  entries of bounded number. The law is about one entry; the whole history follows.
\<close>

definition keep_last :: "nat \<Rightarrow> 'a list \<Rightarrow> 'a list" where
  "keep_last n xs = drop (length xs - n) xs"

lemma keep_last_length: "length (keep_last n xs) = min n (length xs)"
  by (simp add: keep_last_def)

lemma keep_last_push: "keep_last n (keep_last n xs @ [x]) = keep_last n (xs @ [x])"
proof -
  consider "length xs \<le> n" | "n < length xs" by linarith
  then show ?thesis
    by cases (auto simp: keep_last_def Suc_diff_le)
qed

locale bounded_buffer =
  fixes contents :: "'s \<Rightarrow> 'a list"
    and push :: "'a \<Rightarrow> 's \<Rightarrow> 's"
    and cap :: "'s \<Rightarrow> nat"
  assumes contents_push: "length (contents s) \<le> cap s \<Longrightarrow> 0 < cap s \<Longrightarrow>
      contents (push x s) = keep_last (cap s) (contents s @ [x])"
    and cap_push: "cap (push x s) = cap s"
begin

lemma push_fits: "length (contents s) \<le> cap s \<Longrightarrow> 0 < cap s \<Longrightarrow> length (contents (push x s)) \<le> cap (push x s)"
  by (simp add: contents_push cap_push keep_last_length)

lemma fold_contents:
  "length (contents s) \<le> cap s \<Longrightarrow> 0 < cap s \<Longrightarrow>
    contents (foldl (\<lambda>s x. push x s) s xs) = keep_last (cap s) (contents s @ xs) \<and>
    cap (foldl (\<lambda>s x. push x s) s xs) = cap s"
proof (induction xs rule: rev_induct)
  case Nil
  then show ?case by (simp add: keep_last_def)
next
  case (snoc x xs)
  let ?s = "foldl (\<lambda>s x. push x s) s xs"
  have "length (contents ?s) \<le> cap ?s" "0 < cap ?s"
    using snoc by (simp_all add: keep_last_length)
  from contents_push [OF this, of x] show ?case
    using snoc keep_last_push [of "cap s" "contents s @ xs" x] by (simp add: cap_push)
qed

end

lemma offer_cases:
  assumes "length (queue s) \<le> depth s" "0 < depth s"
  shows "offer e s =
    (if length (queue s) < depth s then s\<lparr>queue := queue s @ [e]\<rparr>
     else s\<lparr>queue := tl (queue s) @ [e], dropped := dropped s + 1\<rparr>)"
  using assms by (auto simp: offer_def try_send_def evict_def split: list.split)

interpretation sub_buffer: bounded_buffer queue offer depth
proof unfold_locales
  fix s :: "'a subscription" and x
  show "depth (offer x s) = depth s"
    by (auto simp: offer_def try_send_def evict_def Let_def split: list.split)
  show "queue (offer x s) = keep_last (depth s) (queue s @ [x])"
    if "length (queue s) \<le> depth s" "0 < depth s"
    using that by (cases "queue s") (auto simp: offer_cases keep_last_def)
qed

lemma foldl_offer_dropped:
  "length (queue s) \<le> depth s \<Longrightarrow> 0 < depth s \<Longrightarrow>
    dropped (foldl (\<lambda>s e. offer e s) s es) = dropped s + (length (queue s) + length es - depth s)"
proof (induction es rule: rev_induct)
  case (snoc e es)
  let ?s = "foldl (\<lambda>s e. offer e s) s es"
  have "queue ?s = keep_last (depth s) (queue s @ es)" "depth ?s = depth s"
    using sub_buffer.fold_contents [of s es] snoc.prems by simp_all
  moreover have "dropped (offer e ?s) = dropped ?s + (if length (queue ?s) < depth ?s then 0 else 1)"
    using calculation snoc.prems by (subst offer_cases) (simp_all add: keep_last_length)
  ultimately show ?case using snoc by (auto simp: keep_last_length)
qed simp

text \<open>Publishing a run of events: the log records, in order, and the bus afterwards.\<close>

fun publish_all :: "event list \<Rightarrow> event bus \<Rightarrow> log_record list \<times> event bus" where
  "publish_all [] b = ([], b)"
| "publish_all (e # es) b =
     (let (r, b1) = publish_event e b; (rs, b2) = publish_all es b1 in (r # rs, b2))"

lemma publish_all_eq:
  "publish_all es b = (map log_event es, b\<lparr>subs := map (\<lambda>s. foldl (\<lambda>s e. offer e s) s es) (subs b)\<rparr>)"
  by (induction es arbitrary: b) (simp_all add: publish_event_def comp_def)

definition sub_ok :: "'e subscription \<Rightarrow> bool" where
  "sub_ok s \<longleftrightarrow> length (queue s) \<le> depth s \<and> 0 < depth s"

definition bus_ok :: "'e bus \<Rightarrow> bool" where
  "bus_ok b \<longleftrightarrow> list_all sub_ok (subs b) \<and> list_all (\<lambda>s. sub_id s < next_sub b) (subs b) \<and>
     distinct (map sub_id (subs b))"

lemma bus_ok_new [simp]: "bus_ok new_bus"
  by (simp add: bus_ok_def new_bus_def)

lemma bus_ok_subscribe: "bus_ok b \<Longrightarrow> bus_ok (snd (subscribe d b))"
  by (auto simp: bus_ok_def subscribe_def sub_ok_def list_all_iff)

lemma remove_sub_filter: "distinct (map sub_id ss) \<Longrightarrow> remove_sub i ss = filter (\<lambda>s. sub_id s \<noteq> i) ss"
proof (induction ss)
  case (Cons s ss)
  show ?case
  proof (cases "sub_id s = i")
    case True
    then have "\<forall>t\<in>set ss. sub_id t \<noteq> i" using Cons.prems by auto (metis imageI)
    then show ?thesis using True by simp
  qed (use Cons in simp)
qed simp

lemma bus_ok_close: "bus_ok b \<Longrightarrow> bus_ok (close_sub i b)"
  by (auto simp: bus_ok_def close_sub_def remove_sub_filter list_all_iff distinct_map_filter)

lemma offer_unfold_fields [simp]: "sub_id (offer e s) = sub_id s"
  by (auto simp: offer_def try_send_def evict_def Let_def split: list.split)

lemma sub_ok_offer: "sub_ok s \<Longrightarrow> sub_ok (offer e s)"
  using sub_buffer.push_fits [of s e] by (simp add: sub_ok_def sub_buffer.cap_push)

lemma bus_ok_publish: "bus_ok b \<Longrightarrow> bus_ok (snd (publish_event e b))"
  by (auto simp: bus_ok_def publish_event_def list_all_iff comp_def intro: sub_ok_offer)

section \<open>Properties\<close>

text \<open>
  C21: however the publishers and the consumer interleave inside \<open>offer\<close>, the queue never exceeds its
  depth, and every event ever published is received, still queued, still being offered, or counted
  as dropped: none is lost silently, none is invented or duplicated.
\<close>

theorem channel_accounting:
  assumes "reachable (\<lambda>s. s = new_channel) (chan_step cap) s"
  shows "length (chan s) \<le> cap \<and> drops s = length (lost s) \<and>
    mset (published s) = mset (received s) + mset (chan s) + mset (lost s) + mset (map pc_event (flight s)) \<and>
    length (published s) = length (received s) + length (chan s) + drops s + length (flight s)"
proof -
  have inv: "chan_inv cap s" using assms by (rule channel.reachable_inv)
  then have eq: "mset (published s) = mset (received s) + mset (chan s) + mset (lost s) + mset (map pc_event (flight s))"
    by (simp add: chan_inv_def)
  from arg_cong [OF eq, of size]
  have "length (published s) = length (received s) + length (chan s) + length (lost s) + length (flight s)"
    by simp
  with inv eq show ?thesis by (simp add: chan_inv_def)
qed

theorem channel_accounting_witness:
  "\<exists>s. reachable (\<lambda>s. s = new_channel) (chan_step 1) s \<and> drops s = 1 \<and> chan s = [''b''] \<and>
    mset (published s) = mset (received s) + mset (chan s) + mset (lost s) + mset (map pc_event (flight s))"
proof -
  define r where "r = reachable (\<lambda>s :: string channel. s = new_channel) (chan_step 1)"
  have step: "r s \<Longrightarrow> chan_step 1 s t \<Longrightarrow> r t" for s t
    unfolding r_def by (rule reachable.reach_step)
  have "r new_channel" unfolding r_def by (simp add: reachable.reach_start)
  from step [OF this enter [of 1 new_channel "''a''"]]
  have "r \<lparr>chan = [], drops = 0, flight = [TrySend ''a''], published = [''a''], received = [], lost = []\<rparr>"
    by (simp add: new_channel_def)
  from step [OF this send [where xs = "[]" and ys = "[]" and e = "''a''"]]
  have "r \<lparr>chan = [''a''], drops = 0, flight = [], published = [''a''], received = [], lost = []\<rparr>" by simp
  from step [OF this enter [of 1 _ "''b''"]]
  have "r \<lparr>chan = [''a''], drops = 0, flight = [TrySend ''b''], published = [''a'', ''b''], received = [], lost = []\<rparr>" by simp
  from step [OF this full [where xs = "[]" and ys = "[]" and e = "''b''"]]
  have "r \<lparr>chan = [''a''], drops = 0, flight = [Evict ''b''], published = [''a'', ''b''], received = [], lost = []\<rparr>" by simp
  from step [OF this evict_oldest [where xs = "[]" and ys = "[]" and e = "''b''" and q = "[]" and x = "''a''"]]
  have "r \<lparr>chan = [], drops = 1, flight = [Retry ''b''], published = [''a'', ''b''], received = [], lost = [''a'']\<rparr>" by simp
  from step [OF this resend [where xs = "[]" and ys = "[]" and e = "''b''"]]
  have "r \<lparr>chan = [''b''], drops = 1, flight = [], published = [''a'', ''b''], received = [], lost = [''a'']\<rparr>" by simp
  from this [unfolded r_def] channel_accounting [OF this [unfolded r_def]] show ?thesis
    by (intro exI conjI) (assumption | simp)+
qed

text \<open>Work left in the offers in progress: how many of their own steps can still follow.\<close>

definition offer_work :: "'e channel \<Rightarrow> nat" where
  "offer_work s = sum_list (map (\<lambda>p. case p of TrySend _ \<Rightarrow> 3 | Evict _ \<Rightarrow> 2 | Retry _ \<Rightarrow> 1) (flight s))"

lemma work_step:
  "chan_step cap s t \<Longrightarrow>
    Suc (offer_work t + 4 * length (published s) + length (received s)) \<le> offer_work s + 4 * length (published t) + length (received t)"
  by (erule chan_stepE) (simp_all add: offer_work_def)

lemma work_steps:
  "(chan_step cap ^^ n) s t \<Longrightarrow>
    n + offer_work t + 4 * length (published s) + length (received s) \<le> offer_work s + 4 * length (published t) + length (received t)"
proof (induction n arbitrary: t)
  case (Suc n)
  then obtain u where "(chan_step cap ^^ n) s u" "chan_step cap u t" by auto
  with Suc.IH [of u] work_step [of cap u t] show ?case by simp
qed simp

lemma retry_ends:
  assumes "flight s = xs @ Retry e # ys"
  shows "\<exists>t. chan_step cap s t \<and> flight t = xs @ ys \<and> received t = received s \<and> published t = published s"
  using chan_step.resend [OF assms] chan_step.give_up [OF assms]
  by (cases "length (chan s) < cap") fastforce+

lemma evict_ends:
  assumes "flight s = xs @ Evict e # ys"
  shows "\<exists>t. (chan_step cap ^^ 2) s t \<and> flight t = xs @ ys \<and> received t = received s \<and> published t = published s"
proof -
  obtain u where u: "chan_step cap s u" "flight u = xs @ Retry e # ys" "received u = received s" "published u = published s"
    using chan_step.evict_oldest [OF assms] chan_step.evict_none [OF assms] by (cases "chan s") fastforce+
  obtain t where t: "chan_step cap u t" "flight t = xs @ ys" "received t = received u" "published t = published u"
    using retry_ends [OF u(2)] by blast
  have "(chan_step cap ^^ 2) s t" using u(1) t(1) by (auto simp: numeral_2_eq_2)
  then show ?thesis using t u(3,4) by auto
qed

lemma try_ends:
  assumes "flight s = xs @ TrySend e # ys"
  shows "\<exists>t n. n \<le> 3 \<and> (chan_step cap ^^ n) s t \<and> flight t = xs @ ys \<and> received t = received s \<and> published t = published s"
proof (cases "length (chan s) < cap")
  case True
  then have "(chan_step cap ^^ 1) s (s\<lparr>flight := xs @ ys, chan := chan s @ [e]\<rparr>)"
    using chan_step.send [OF assms] by (simp add: relcompp.simps)
  then show ?thesis by (intro exI [of _ "s\<lparr>flight := xs @ ys, chan := chan s @ [e]\<rparr>"] exI [of _ 1]) simp
next
  case False
  let ?u = "s\<lparr>flight := xs @ Evict e # ys\<rparr>"
  obtain t where two: "(chan_step cap ^^ 2) ?u t" and t: "flight t = xs @ ys" "received t = received s" "published t = published s"
    using evict_ends [of ?u xs e ys] by auto
  have "(chan_step cap ^^ Suc 2) s t" by (rule relpowp_Suc_I2 [OF chan_step.full [OF assms False] two])
  moreover have "Suc 2 \<le> 3" by simp
  ultimately show ?thesis using t by blast
qed

text \<open>
  C38: publishing never blocks. An offer in progress, whatever the other publishers and the consumer have
  done, can always be run to its end in at most three steps of its own; and under any interleaving
  the steps taken are bounded: at most four for every event published meanwhile, one for every event
  received, and the work the offers already in progress had left.
\<close>

theorem offer_never_blocks:
  assumes "flight s = xs @ p # ys"
  shows "(\<exists>t n. n \<le> 3 \<and> (chan_step cap ^^ n) s t \<and> flight t = xs @ ys \<and> received t = received s \<and> published t = published s) \<and>
    (\<forall>t n. (chan_step cap ^^ n) s t \<longrightarrow>
      n + 4 * length (published s) + length (received s) \<le> offer_work s + 4 * length (published t) + length (received t))"
proof
  have "(2 :: nat) \<le> 3" "(1 :: nat) \<le> 3" by simp_all
  then show "\<exists>t n. n \<le> 3 \<and> (chan_step cap ^^ n) s t \<and> flight t = xs @ ys \<and> received t = received s \<and> published t = published s"
    using assms try_ends [of s xs _ ys cap] evict_ends [of s xs _ ys cap] retry_ends [of s xs _ ys cap]
    by (cases p) (blast, blast, metis relpowp_1)
  show "\<forall>t n. (chan_step cap ^^ n) s t \<longrightarrow>
      n + 4 * length (published s) + length (received s) \<le> offer_work s + 4 * length (published t) + length (received t)"
    using work_steps by fastforce
qed

theorem offer_never_blocks_witness:
  "\<exists>t n. n \<le> 3 \<and> (chan_step 1 ^^ n) (new_channel\<lparr>chan := [''a''], flight := [TrySend ''b''], published := [''a'', ''b'']\<rparr>) t \<and> flight t = []"
  using offer_never_blocks [of "new_channel\<lparr>chan := [''a''], flight := [TrySend ''b''], published := [''a'', ''b'']\<rparr>" "[]" "TrySend ''b''" "[]" 1]
  by auto

text \<open>
  C39: what the operator's screen shows under load. Every event published is written to the log, in
  order, whatever the subscribers do; a subscriber nobody reads ends with the newest events of its
  depth, and its counter has grown by exactly the number it no longer holds.
\<close>

theorem stalled_subscriber_keeps_newest:
  assumes "bus_ok b"
  shows "fst (publish_all es b) = map log_event es \<and> bus_ok (snd (publish_all es b)) \<and>
    list_all2 (\<lambda>s t. sub_id t = sub_id s \<and> queue t = keep_last (depth s) (queue s @ es) \<and>
        dropped t = dropped s + (length (queue s @ es) - length (queue t)))
      (subs b) (subs (snd (publish_all es b)))"
proof -
  let ?f = "\<lambda>s. foldl (\<lambda>s e. offer e s) s es"
  have ids: "sub_id (?f s) = sub_id s" for s :: "event subscription"
    by (induction es rule: rev_induct) simp_all
  have each: "sub_ok s \<Longrightarrow> queue (?f s) = keep_last (depth s) (queue s @ es) \<and>
      dropped (?f s) = dropped s + (length (queue s @ es) - length (queue (?f s))) \<and> sub_ok (?f s)" for s
    using sub_buffer.fold_contents [of s es] foldl_offer_dropped [of s es]
    by (auto simp: sub_ok_def keep_last_length)
  then show ?thesis
    using assms by (auto simp: publish_all_eq list_all2_conv_all_nth bus_ok_def list_all_length ids comp_def)
qed

theorem stalled_subscriber_keeps_newest_witness:
  "fst (publish_all [\<lparr>ev_at = 0, ev_kind = Rejected, ev_device = ''d'', ev_name = [], ev_changed = [], ev_detail = []\<rparr>]
      (snd (subscribe 0 new_bus))) =
    [\<lparr>log_level = LevelWarn, log_message = ''bulb rejected'', log_attrs = [(''kind'', ''rejected''), (''device'', ''d''), (''name'', [])]\<rparr>]"
  using stalled_subscriber_keeps_newest [OF bus_ok_subscribe [OF bus_ok_new, of 0],
      of "[\<lparr>ev_at = 0, ev_kind = Rejected, ev_device = ''d'', ev_name = [], ev_changed = [], ev_detail = []\<rparr>]"]
  by (simp add: log_event_def)

end
