(* ===== verification/Lights.thy ===== *)
theory Lights
  imports Registry Events
begin

text \<open>
  The surface-neutral core, \<open>internal/lights\<close> (service.go, errors.go): reading lamps and changing
  them, with typed results each front end renders its own way. A change is validated against the
  registry's view of the lamp, turned into the full state to ask for, and handed to the lamp's driver.
\<close>

section \<open>Errors and changes\<close>

datatype light_error =
    UnknownBulb string
  | NotAdopted string
  | NotConnected string time
  | NotConnectedNow string
  | RangeError string int int int
  | BelowFloor string int
  | Unsupported string
  | Unconfirmed "string list"
  | DriverFailed string

text \<open>\<open>errors.Is\<close> against the sentinels the front ends test for.\<close>

definition is_not_connected :: "light_error \<Rightarrow> bool" where
  "is_not_connected e = (case e of NotConnected _ _ \<Rightarrow> True | NotConnectedNow _ \<Rightarrow> True | _ \<Rightarrow> False)"

definition is_out_of_range :: "light_error \<Rightarrow> bool" where
  "is_out_of_range e = (case e of RangeError _ _ _ _ \<Rightarrow> True | BelowFloor _ _ \<Rightarrow> True | _ \<Rightarrow> False)"

definition is_unconfirmed :: "light_error \<Rightarrow> bool" where
  "is_unconfirmed e = (case e of Unconfirmed _ \<Rightarrow> True | _ \<Rightarrow> False)"

definition range_error_text :: "string \<Rightarrow> int \<Rightarrow> int \<Rightarrow> int \<Rightarrow> string" where
  "range_error_text what got lo hi =
     what @ '' must be '' @ itoa lo @ ''-'' @ itoa hi @ '', got '' @ itoa got"

definition default_timeout :: duration where
  "default_timeout = 5 * second"

definition set_timeout :: "duration \<Rightarrow> duration" where
  "set_timeout d = (if d \<le> 0 then default_timeout else d)"

record change =
  ch_power :: "bool option"
  ch_brightness :: "byte option"
  ch_color_temp :: "byte option"

definition no_change :: change where
  "no_change = \<lparr>ch_power = None, ch_brightness = None, ch_color_temp = None\<rparr>"

definition is_empty :: "change \<Rightarrow> bool" where
  "is_empty c \<longleftrightarrow> ch_power c = None \<and> ch_brightness c = None \<and> ch_color_temp c = None"

section \<open>Reading and renaming\<close>

definition get_lamp :: "string \<Rightarrow> registry \<Rightarrow> light_error + bulb" where
  "get_lamp i r = (let (b, ok) = view i r in if ok then Inr b else Inl (UnknownBulb i))"

text \<open>\<open>Rename\<close> also publishes an event, the only sign that a connected lamp became controllable.\<close>

definition rename_lamp :: "string \<Rightarrow> string \<Rightarrow> time \<Rightarrow> registry \<Rightarrow> registry_error + (bool \<times> event \<times> registry)" where
  "rename_lamp i name now r =
     and_then (rename_bulb i name r) (\<lambda>(adopted', r').
       Inr (adopted',
            \<lparr>ev_at = now, ev_kind = Renamed, ev_device = i, ev_name = name, ev_changed = [],
             ev_detail = (if adopted' then ''adopted as '' else ''renamed to '') @ name\<rparr>,
            r'))"

section \<open>Changing\<close>

text \<open>\<open>resolve\<close>: the full state a partial change asks for. Power is applied last.\<close>

definition resolve_brightness :: "bulb \<Rightarrow> change \<Rightarrow> light_state \<Rightarrow> light_error + light_state" where
  "resolve_brightness target c want =
     (case ch_brightness c of
        None \<Rightarrow> Inr want
      | Some b \<Rightarrow>
          (let pct = uint b; floor = uint (min_brightness (bulb_caps target))
           in if 100 < pct then Inl (RangeError ''brightness'' pct 0 100)
              else if 0 < pct \<and> pct < floor then Inl (BelowFloor (bulb_name target) floor)
              else Inr (want\<lparr>brightness := b, power := 0 < pct\<rparr>)))"

definition resolve_color_temp :: "bulb \<Rightarrow> change \<Rightarrow> light_state \<Rightarrow> light_error + light_state" where
  "resolve_color_temp target c want =
     (case ch_color_temp c of
        None \<Rightarrow> Inr want
      | Some t \<Rightarrow>
          (if 100 < uint t then Inl (RangeError ''colour temperature'' (uint t) 0 100)
           else if \<not> supports_color_temp (bulb_caps target) then Inl (Unsupported (bulb_name target))
           else Inr (want\<lparr>color_temp := t\<rparr>)))"

definition resolve_power :: "change \<Rightarrow> light_state \<Rightarrow> light_state" where
  "resolve_power c want =
     (case ch_power c of
        None \<Rightarrow> want
      | Some on \<Rightarrow>
          (let w = want\<lparr>power := on\<rparr>
           in if power w \<and> brightness w = 0 then w\<lparr>brightness := 100\<rparr> else w))"

definition resolve_change :: "bulb \<Rightarrow> change \<Rightarrow> light_error + light_state" where
  "resolve_change target c =
     and_then (resolve_brightness target c (light target)) (\<lambda>w1.
     and_then (resolve_color_temp target c w1) (\<lambda>w2. Inr (resolve_power c w2)))"

text \<open>
  \<open>Apply\<close> up to the driver: the guards, the wanted state, the driver, and the wanted state recorded
  for display.
\<close>

definition prepare :: "string \<Rightarrow> change \<Rightarrow> registry \<Rightarrow> light_error + (bulb \<times> driver_id \<times> light_state \<times> registry)" where
  "prepare i c r =
     and_then (get_lamp i r) (\<lambda>target.
       if \<not> adopted target then Inl (NotAdopted (device_id target))
       else if status target \<noteq> Connected then Inl (NotConnected (bulb_name target) (last_seen target))
       else
         and_then (resolve_change target c) (\<lambda>want.
           case driver_of (device_id target) r of
             None \<Rightarrow> Inl (NotConnectedNow (bulb_name target))
           | Some d \<Rightarrow> Inr (target, d, want, set_desired (device_id target) want r)))"

text \<open>What a driver's \<open>Apply\<close> returns: nil, an error that is \<open>ErrUnconfirmed\<close>, or any other error.\<close>

datatype driver_result = Done | StillUnconfirmed "string list" | Failed string

text \<open>
  \<open>Apply\<close>, over what the driver does: \<open>run d want w\<close> is the driver's \<open>Apply\<close> on the rest of the
  world. An unconfirmed command is no failure; any other error is published.
\<close>

definition apply_change ::
  "(driver_id \<Rightarrow> light_state \<Rightarrow> 'w \<Rightarrow> driver_result \<times> 'w) \<Rightarrow> ('w \<Rightarrow> registry) \<Rightarrow> (registry \<Rightarrow> 'w \<Rightarrow> 'w) \<Rightarrow>
   (event \<Rightarrow> 'w \<Rightarrow> 'w) \<Rightarrow> time \<Rightarrow> string \<Rightarrow> change \<Rightarrow> 'w \<Rightarrow> light_error option \<times> 'w" where
  "apply_change run get put emit now i c w =
     (case prepare i c (get w) of
        Inl e \<Rightarrow> (Some e, w)
      | Inr (target, d, want, r') \<Rightarrow>
          (let (res, w') = run d want (put r' w)
           in case res of
                Done \<Rightarrow> (None, w')
              | StillUnconfirmed names \<Rightarrow> (Some (Unconfirmed names), w')
              | Failed s \<Rightarrow>
                  (Some (DriverFailed s),
                   emit \<lparr>ev_at = now, ev_kind = CommandResult, ev_device = device_id target,
                     ev_name = bulb_name target, ev_changed = [], ev_detail = s\<rparr> w')))"

definition set_power_change :: "bool \<Rightarrow> change" where
  "set_power_change on = no_change\<lparr>ch_power := Some on\<rparr>"

definition set_brightness_change :: "byte \<Rightarrow> change" where
  "set_brightness_change pct = no_change\<lparr>ch_brightness := Some pct\<rparr>"

definition set_color_temp_change :: "byte \<Rightarrow> change" where
  "set_color_temp_change pct = no_change\<lparr>ch_color_temp := Some pct\<rparr>"

section \<open>Facts\<close>

lemma prepare_Inr:
  "prepare i c r = Inr (target, d, want, r') \<longleftrightarrow>
    lookup_bulb r i = Some target \<and> status target = Connected \<and> resolve_change target c = Inr want \<and>
    driver_of (device_id target) r = Some d \<and> r' = set_desired (device_id target) want r"
  by (auto simp: prepare_def get_lamp_def view_def adopted_def and_then_Inr_iff split: option.splits if_splits)

lemma uint_pos_iff: "0 < uint b \<longleftrightarrow> b \<noteq> (0 :: byte)"
proof -
  have "uint b = 0 \<longleftrightarrow> b = 0" by (rule uint_0_iff)
  moreover have "0 \<le> uint b" by simp
  ultimately show ?thesis by linarith
qed

lemma resolve_brightness_Inr:
  "resolve_brightness target c w = Inr w1 \<Longrightarrow>
    (case ch_brightness c of
       None \<Rightarrow> w1 = w
     | Some b \<Rightarrow> w1 = w\<lparr>brightness := b, power := b \<noteq> 0\<rparr> \<and> uint b \<le> 100 \<and>
         (b = 0 \<or> uint (min_brightness (bulb_caps target)) \<le> uint b))"
  by (auto simp: resolve_brightness_def Let_def uint_pos_iff not_less split: option.splits if_splits)

lemma resolve_color_temp_Inr:
  "resolve_color_temp target c w = Inr w2 \<Longrightarrow>
    (case ch_color_temp c of
       None \<Rightarrow> w2 = w
     | Some t \<Rightarrow> w2 = w\<lparr>color_temp := t\<rparr> \<and> uint t \<le> 100 \<and> supports_color_temp (bulb_caps target))"
  by (auto simp: resolve_color_temp_def split: option.splits if_splits)

lemma resolve_change_Inr:
  "resolve_change target c = Inr want \<Longrightarrow>
    (case ch_brightness c of
       None \<Rightarrow> True
     | Some b \<Rightarrow> uint b \<le> 100 \<and> (b = 0 \<or> uint (min_brightness (bulb_caps target)) \<le> uint b)) \<and>
    (case ch_color_temp c of
       None \<Rightarrow> color_temp want = color_temp (light target)
     | Some t \<Rightarrow> color_temp want = t \<and> uint t \<le> 100 \<and> supports_color_temp (bulb_caps target)) \<and>
    power want = (case ch_power c of Some on \<Rightarrow> on
      | None \<Rightarrow> (case ch_brightness c of Some b \<Rightarrow> b \<noteq> 0 | None \<Rightarrow> power (light target))) \<and>
    brightness want =
      (let b = (case ch_brightness c of Some b \<Rightarrow> b | None \<Rightarrow> brightness (light target))
       in if ch_power c = Some True \<and> b = 0 then 100 else b) \<and>
    light_mode want = light_mode (light target)"
proof -
  assume "resolve_change target c = Inr want"
  then obtain w1 w2 where w1: "resolve_brightness target c (light target) = Inr w1"
    and w2: "resolve_color_temp target c w1 = Inr w2" and want: "want = resolve_power c w2"
    by (auto simp: resolve_change_def and_then_Inr_iff)
  show ?thesis
    using resolve_brightness_Inr [OF w1] resolve_color_temp_Inr [OF w2]
    unfolding want
    by (cases "ch_brightness c"; cases "ch_color_temp c"; cases "ch_power c") (simp_all add: resolve_power_def Let_def)
qed

lemma resolve_brightness_Inl:
  "resolve_brightness target c w = Inl e \<Longrightarrow>
    \<exists>b. ch_brightness c = Some b \<and> (100 < uint b \<or> b \<noteq> 0 \<and> uint b < uint (min_brightness (bulb_caps target))) \<and>
      is_out_of_range e"
  by (auto simp: resolve_brightness_def Let_def is_out_of_range_def uint_pos_iff split: option.splits if_splits)

lemma resolve_color_temp_Inl:
  "resolve_color_temp target c w = Inl e \<Longrightarrow>
    \<exists>t. ch_color_temp c = Some t \<and> (100 < uint t \<and> is_out_of_range e \<or>
      \<not> supports_color_temp (bulb_caps target) \<and> e = Unsupported (bulb_name target))"
  by (auto simp: resolve_color_temp_def is_out_of_range_def split: option.splits if_splits)

lemma resolve_change_Inl:
  assumes "resolve_change target c = Inl e"
  shows "(\<exists>b. ch_brightness c = Some b \<and> (100 < uint b \<or> b \<noteq> 0 \<and> uint b < uint (min_brightness (bulb_caps target))) \<and> is_out_of_range e) \<or>
    (\<exists>t. ch_color_temp c = Some t \<and> (100 < uint t \<and> is_out_of_range e \<or>
        \<not> supports_color_temp (bulb_caps target) \<and> e = Unsupported (bulb_name target)))"
proof (cases "resolve_brightness target c (light target)")
  case (Inl e')
  with assms have "e' = e" by (simp add: resolve_change_def)
  with resolve_brightness_Inl [OF Inl] show ?thesis by blast
next
  case (Inr w1)
  with assms have "resolve_color_temp target c w1 = Inl e"
    by (cases "resolve_color_temp target c w1") (simp_all add: resolve_change_def)
  from resolve_color_temp_Inl [OF this] show ?thesis by blast
qed

lemma lookup_set_desired:
  "lookup_bulb (set_desired i want r) j =
    (if j = i then map_option (\<lambda>b. b\<lparr>desired := Some want\<rparr>) (lookup_bulb r i) else lookup_bulb r j)"
  by (auto simp: set_desired_def reg_simps split: option.split)

text \<open>
  What the service relies on in its host: the registry it reads is the one it writes, and publishing an
  event does not touch it.
\<close>

locale lamp_host =
  fixes get :: "'w \<Rightarrow> registry"
    and put :: "registry \<Rightarrow> 'w \<Rightarrow> 'w"
    and emit :: "event \<Rightarrow> 'w \<Rightarrow> 'w"
  assumes get_put: "get (put r w) = r"
    and get_emit: "get (emit e w) = get w"
begin

text \<open>Whatever the driver does to the world beyond the registry, an applied change leaves every light as the driver leaves it.\<close>

lemma apply_registry:
  assumes "\<And>d want w. map_option light \<circ> lookup_bulb (get (snd (run d want w))) = map_option light \<circ> lookup_bulb (get w)"
  shows "map_option light \<circ> lookup_bulb (get (snd (apply_change run get put emit now i c w))) = map_option light \<circ> lookup_bulb (get w)"
proof (cases "prepare i c (get w)")
  case (Inl e)
  then show ?thesis by (simp add: apply_change_def)
next
  case (Inr res)
  obtain target d want r' where res: "res = (target, d, want, r')" by (cases res) auto
  have "r' = set_desired (device_id target) want (get w)" using Inr [unfolded res prepare_Inr] by blast
  then have "map_option light \<circ> lookup_bulb r' = map_option light \<circ> lookup_bulb (get w)"
    by (auto simp: fun_eq_iff lookup_set_desired option.map_comp comp_def)
  moreover have "get (snd (apply_change run get put emit now i c w)) = get (snd (run d want (put r' w)))"
    by (simp add: apply_change_def Inr res Let_def case_prod_beta get_emit split: driver_result.split)
  ultimately show ?thesis using assms [of d want "put r' w"] by (simp add: get_put)
qed

lemma rename_registry:
  "rename_lamp i name now (get w) = Inr (a, e, r') \<Longrightarrow> get (emit e (put r' w)) = r'"
  by (simp add: get_emit get_put)

end

section \<open>Properties\<close>

text \<open>
  C9: what a partial change turns into. It is refused exactly for a brightness or colour temperature
  above 100, a brightness between zero and the lamp's floor, or a colour temperature on a lamp known
  to have none; otherwise fields not mentioned stay as the lamp reported them, brightness implies
  power, an explicit power wins over that, and a lamp is never told to switch on at zero.
\<close>

theorem resolve_change_spec:
  "(case resolve_change target c of
      Inl e \<Rightarrow>
        (\<exists>b. ch_brightness c = Some b \<and> (100 < uint b \<or> b \<noteq> 0 \<and> uint b < uint (min_brightness (bulb_caps target))) \<and> is_out_of_range e) \<or>
        (\<exists>t. ch_color_temp c = Some t \<and> (100 < uint t \<and> is_out_of_range e \<or>
            \<not> supports_color_temp (bulb_caps target) \<and> e = Unsupported (bulb_name target)))
    | Inr want \<Rightarrow>
        (\<forall>b. ch_brightness c = Some b \<longrightarrow> uint b \<le> 100 \<and> (b = 0 \<or> uint (min_brightness (bulb_caps target)) \<le> uint b)) \<and>
        (\<forall>t. ch_color_temp c = Some t \<longrightarrow> color_temp want = t \<and> uint t \<le> 100 \<and> supports_color_temp (bulb_caps target)) \<and>
        (ch_color_temp c = None \<longrightarrow> color_temp want = color_temp (light target)) \<and>
        power want = (case ch_power c of Some on \<Rightarrow> on
          | None \<Rightarrow> (case ch_brightness c of Some b \<Rightarrow> b \<noteq> 0 | None \<Rightarrow> power (light target))) \<and>
        brightness want =
          (let b = (case ch_brightness c of Some b \<Rightarrow> b | None \<Rightarrow> brightness (light target))
           in if ch_power c = Some True \<and> b = 0 then 100 else b) \<and>
        light_mode want = light_mode (light target) \<and>
        (is_empty c \<longrightarrow> want = light target))"
proof (cases "resolve_change target c")
  case (Inl e)
  from resolve_change_Inl [OF Inl] show ?thesis unfolding Inl by simp
next
  case (Inr want)
  have "is_empty c \<Longrightarrow> want = light target"
    using Inr by (auto simp: is_empty_def resolve_change_def resolve_brightness_def resolve_color_temp_def resolve_power_def)
  with resolve_change_Inr [OF Inr] show ?thesis
    unfolding Inr by (auto simp: Let_def split: option.splits if_splits)
qed

theorem resolve_change_spec_witness:
  "\<exists>want. resolve_change zero_bulb (set_brightness_change 40) = Inr want \<and> brightness want = 40 \<and> power want \<and>
    color_temp want = color_temp (light zero_bulb)"
proof -
  have "case resolve_change zero_bulb (set_brightness_change 40) of Inl e \<Rightarrow> False | Inr w \<Rightarrow> True" by code_simp
  then obtain want where w: "resolve_change zero_bulb (set_brightness_change 40) = Inr want"
    by (auto split: sum.splits)
  have "ch_brightness (set_brightness_change 40) = Some 40" "ch_color_temp (set_brightness_change 40) = None"
    "ch_power (set_brightness_change 40) = None" by code_simp+
  then show ?thesis using resolve_change_spec [where target = zero_bulb and c = "set_brightness_change 40"] w by simp
qed



end
