(* ===== verification/Control.thy ===== *)
theory Control
  imports Lights
begin

text \<open>
  The terminal, \<open>internal/control\<close> (parse.go, execute.go, help.go): a line of input becomes a command,
  a command becomes a change of a lamp or a page of text. The quoting verb \<open>%q\<close> of the Go formatter is
  the parameter \<open>t_quote\<close>; the state the service works on is that of the lamp service (theory Lights).
\<close>

section \<open>Commands\<close>

datatype action =
    ActionList | ActionOn | ActionOff | ActionBrightness | ActionColor | ActionColorTemp
  | ActionName | ActionInfo | ActionHelp | ActionQuit

record operator_command =
  oc_action :: action
  oc_target :: string
  oc_number :: int
  oc_text :: string

definition bare :: "action \<Rightarrow> operator_command" where
  "bare a = \<lparr>oc_action = a, oc_target = [], oc_number = 0, oc_text = []\<rparr>"

definition verbs :: "string list" where
  "verbs = [''list'', ''on'', ''off'', ''bri'', ''color'', ''temp'', ''name'', ''info'', ''help'', ''quit'']"

datatype parse_error =
    EmptyCommand
  | NeedsBulb string
  | NeedsBulbAndValue string
  | NotWhole string string
  | ColorUsage
  | NameUsage
  | UnknownVerb string

definition value_hint :: "string \<Rightarrow> string" where
  "value_hint verb = (if verb = ''temp'' then ''temperature'' else ''brightness'')"

definition parse_bulb :: "string \<Rightarrow> string list \<Rightarrow> parse_error + operator_command" where
  "parse_bulb verb args =
     (case args of
        [a] \<Rightarrow> Inr ((bare (if verb = ''on'' then ActionOn else if verb = ''off'' then ActionOff else ActionInfo))\<lparr>oc_target := a\<rparr>)
      | _ \<Rightarrow> Inl (NeedsBulb verb))"

definition parse_value :: "string \<Rightarrow> string list \<Rightarrow> parse_error + operator_command" where
  "parse_value verb args =
     (case args of
        [a, v] \<Rightarrow>
          (case atoi v of
             None \<Rightarrow> Inl (NotWhole verb v)
           | Some n \<Rightarrow>
               Inr ((bare (if verb = ''temp'' then ActionColorTemp else ActionBrightness))\<lparr>oc_target := a, oc_number := n\<rparr>))
      | _ \<Rightarrow> Inl (NeedsBulbAndValue verb))"

definition parse_words :: "action \<Rightarrow> parse_error \<Rightarrow> string list \<Rightarrow> parse_error + operator_command" where
  "parse_words a usage args =
     (case args of [b, t] \<Rightarrow> Inr ((bare a)\<lparr>oc_target := b, oc_text := t\<rparr>) | _ \<Rightarrow> Inl usage)"

definition dispatch :: "string \<Rightarrow> string list \<Rightarrow> parse_error + operator_command" where
  "dispatch word args =
     (let verb = to_lower word
     in if verb \<in> {''list'', ''ls''} then Inr (bare ActionList)
        else if verb \<in> {''help'', ''?''} then
          Inr ((bare ActionHelp)\<lparr>oc_text := (case args of [] \<Rightarrow> [] | a # _ \<Rightarrow> a)\<rparr>)
        else if verb \<in> {''quit'', ''exit''} then Inr (bare ActionQuit)
        else if verb \<in> {''on'', ''off'', ''info''} then parse_bulb verb args
        else if verb \<in> {''bri'', ''temp''} then parse_value verb args
        else if verb \<in> {''color'', ''colour''} then parse_words ActionColor ColorUsage args
        else if verb \<in> {''name'', ''rename''} then parse_words ActionName NameUsage args
        else Inl (UnknownVerb word))"

definition parse :: "string \<Rightarrow> parse_error + operator_command" where
  "parse line = (case GoStrings.fields line of [] \<Rightarrow> Inl EmptyCommand | word # args \<Rightarrow> dispatch word args)"

definition parse_error_text :: "(string \<Rightarrow> string) \<Rightarrow> parse_error \<Rightarrow> string" where
  "parse_error_text q e =
     (case e of
        EmptyCommand \<Rightarrow> ''empty command''
      | NeedsBulb v \<Rightarrow> v @ '' needs exactly one bulb: `'' @ v @ '' <bulb>`''
      | NeedsBulbAndValue v \<Rightarrow> v @ '' needs a bulb and a value: `'' @ v @ '' <bulb> <'' @ value_hint v @ ''>`''
      | NotWhole v arg \<Rightarrow> value_hint v @ '' must be a whole number, got '' @ q arg
      | ColorUsage \<Rightarrow> ''color needs a bulb and a colour: `color <bulb> <#RRGGBB|name>`''
      | NameUsage \<Rightarrow> ''name needs a bulb and a new name: `name <bulb> <a-name>`''
      | UnknownVerb w \<Rightarrow> ''unknown command '' @ q w @ ''. commands: '' @ join '' '' verbs)"

definition color_names :: "string list" where
  "color_names =
     [''red'', ''green'', ''blue'', ''white'', ''warmwhite'', ''yellow'', ''cyan'', ''magenta'', ''orange'', ''purple'']"

text \<open>\<open>strconv.ParseUint(s, 16, 32)\<close>.\<close>

definition parse_hex32 :: "string \<Rightarrow> nat option" where
  "parse_hex32 s =
     (if s = [] \<or> \<not> list_all is_hex s then None
      else (let n = foldl (\<lambda>a c. 16 * a + hex_val c) 0 s in if n < 2 ^ 32 then Some n else None))"

definition valid_color :: "string \<Rightarrow> bool" where
  "valid_color t \<longleftrightarrow>
     to_lower t \<in> set color_names \<or>
     (length t = 7 \<and> hd t = CHR ''#'' \<and> parse_hex32 (tl t) \<noteq> None)"

definition is_verb :: "string \<Rightarrow> bool" where
  "is_verb s \<longleftrightarrow> list_ex (\<lambda>v. equal_fold v s) verbs"

section \<open>Results and texts\<close>

datatype result_kind = ResultOK | ResultError | ResultInfo

definition result_kind_string :: "result_kind \<Rightarrow> string" where
  "result_kind_string k = (case k of ResultError \<Rightarrow> ''error'' | ResultInfo \<Rightarrow> ''info'' | ResultOK \<Rightarrow> ''ok'')"

record result =
  res_kind :: result_kind
  res_text :: string
  res_quit :: bool

definition result_line :: "result \<Rightarrow> string" where
  "result_line r = pad_right 7 (result_kind_string (res_kind r)) @ '' '' @ res_text r"

definition ok_result :: "string \<Rightarrow> result" where
  "ok_result s = \<lparr>res_kind = ResultOK, res_text = s, res_quit = False\<rparr>"

definition err_result :: "string \<Rightarrow> result" where
  "err_result s = \<lparr>res_kind = ResultError, res_text = s, res_quit = False\<rparr>"

definition info_result :: "string \<Rightarrow> result" where
  "info_result s = \<lparr>res_kind = ResultInfo, res_text = s, res_quit = False\<rparr>"

definition newline :: string where
  "newline = [CHR 0x0A]"

definition help_lines :: "(string \<times> string \<times> string) list" where
  "help_lines =
     [(''list'', '''', ''show every bulb: name, id, status, power, brightness, temperature''),
      (''on'', ''<bulb>'', ''turn a bulb on''),
      (''off'', ''<bulb>'', ''turn a bulb off''),
      (''bri'', ''<bulb> <0-100>'', ''set brightness; 0 switches the bulb off''),
      (''temp'', ''<bulb> <0-100>'', ''set white warmth: 0 is warmest, 100 is coolest''),
      (''color'', ''<bulb> <#RRGGBB|name>'', ''set colour (only on bulbs that have it)''),
      (''name'', ''<bulb> <a-name>'', ''name a bulb; naming a new one adopts it so you can control it''),
      (''info'', ''<bulb>'', ''everything known about one bulb''),
      (''help'', ''[command]'', ''this list, or detail on one command''),
      (''quit'', '''', ''save and exit'')]"

definition pad :: "string \<Rightarrow> nat \<Rightarrow> string" where
  "pad s n = (if n \<le> length s then s @ '' '' else s @ replicate (n - length s) CHR '' '')"

definition key_help :: string where
  "key_help =
     ''keys: '' @ [CHR 0xE2, CHR 0x86, CHR 0x91] @ ''/'' @ [CHR 0xE2, CHR 0x86, CHR 0x93] @ '' history '' @ [CHR 0xC2, CHR 0xB7]
     @ '' PgUp/PgDn scroll the feed '' @ [CHR 0xC2, CHR 0xB7] @ '' Ctrl+C quit''"

definition help_text :: "string \<Rightarrow> string" where
  "help_text verb =
     (if verb \<noteq> [] then
        (case find (\<lambda>h. fst h = verb) help_lines of
           Some (v, args, what) \<Rightarrow> v @ '' '' @ args @ newline @ ''  '' @ what
         | None \<Rightarrow> ''no such command: '' @ verb @ ''. run `help` for the list'')
      else
        ''<bulb> is a name or id; a unique prefix works too.'' @ newline
        @ ''A new bulb shows as discovered '' @ em_dash @ '' `name` it once and it becomes controllable.'' @ newline @ newline
        @ concat (map (\<lambda>(v, args, what). pad (v @ (if args \<noteq> [] then '' '' @ args else [])) 28 @ what @ newline) help_lines)
        @ newline @ key_help)"

text \<open>Column formats \<open>%-ns\<close> and \<open>%nd\<close>.\<close>

definition pad_left :: "nat \<Rightarrow> string \<Rightarrow> string" where
  "pad_left n s = replicate (n - rune_count s) CHR '' '' @ s"

definition trim_newlines :: "string \<Rightarrow> string" where
  "trim_newlines s = rev (dropWhile (\<lambda>c. c = CHR 0x0A) (rev s))"

definition list_row :: "string \<Rightarrow> string \<Rightarrow> string \<Rightarrow> string \<Rightarrow> string \<Rightarrow> string \<Rightarrow> string \<Rightarrow> string" where
  "list_row name i st pwr bri tmp seen =
     pad_right 14 name @ '' '' @ pad_right 14 i @ '' '' @ pad_right 13 st @ '' '' @ pad_right 4 pwr @ '' '' @
     pad_left 4 bri @ '' '' @ pad_left 5 tmp @ ''  '' @ seen @ newline"

definition list_text :: "duration \<Rightarrow> bulb list \<Rightarrow> string" where
  "list_text zone bs =
     (if bs = [] then ''no bulbs yet. power one on with its cloud hostname pointed at this server''
      else trim_newlines
        (list_row ''NAME'' ''ID'' ''STATUS'' ''PWR'' ''BRI'' ''TEMP'' ''LAST SEEN'' @
         concat (map (\<lambda>x. list_row (if adopted x then bulb_name x else ''(unadopted)'') (device_id x)
           (status_string (status x)) (on_off (power (light x))) (sprint_byte (brightness (light x)))
           (sprint_byte (color_temp (light x))) (clock_string zone (last_seen x))) bs)))"

definition describe_caps :: "capabilities \<Rightarrow> string" where
  "describe_caps c =
     (if \<not> cap_known c then ''undetermined '' @ em_dash @ '' commands are attempted rather than refused''
      else join '', ''
        (sort ((if cap_color c then [''colour''] else []) @
          (if cap_color_temp c then [''colour temperature''] else []) @
          [''brightness '' @ itoa (max (uint (min_brightness c)) 1) @ ''-100''])))"

definition info_text :: "duration \<Rightarrow> bulb \<Rightarrow> string" where
  "info_text zone x =
     trim_newlines
       (bulb_name x @ '' ('' @ device_id x @ '')'' @ newline @
        ''  status       '' @ status_string (status x) @ '', last seen '' @ clock_string zone (last_seen x) @ newline @
        ''  state        power '' @ on_off (power (light x)) @ '', brightness '' @ sprint_byte (brightness (light x)) @
        '', temperature '' @ sprint_byte (color_temp (light x)) @ '', mode '' @ mode_string (light_mode (light x)) @ newline @
        ''  capabilities '' @ describe_caps (bulb_caps x) @ newline @
        (if adopted x then [] else ''  adopt with   name '' @ device_id x @ '' <a-name>'' @ newline) @
        (case desired x of None \<Rightarrow> []
         | Some want \<Rightarrow> concat (map (\<lambda>d. ''  pending      '' @ change_string d @ newline) (diff_state (light x) want))))"

definition registry_error_text :: "(string \<Rightarrow> string) \<Rightarrow> registry_error \<Rightarrow> string" where
  "registry_error_text q e =
     (case e of
        UnknownTarget t \<Rightarrow> ''unknown bulb '' @ q t @ '': no bulb by that name or id. run `list` to see registered bulbs''
      | AmbiguousTarget t names \<Rightarrow> ''ambiguous target '' @ q t @ '': matches '' @ join '', '' names @ ''. use a longer prefix''
      | NameInUse name owner \<Rightarrow> ''name '' @ q name @ '' already used by '' @ owner
      | EmptyDeviceId \<Rightarrow> ''device id must not be empty''
      | EmptyName \<Rightarrow> ''name must not be empty'')"

text \<open>\<open>err.Error()\<close> of what the service returns.\<close>

definition light_error_text :: "(string \<Rightarrow> string) \<Rightarrow> duration \<Rightarrow> light_error \<Rightarrow> string" where
  "light_error_text q zone e =
     (case e of
        UnknownBulb i \<Rightarrow> q i @ '': no such bulb''
      | NotAdopted i \<Rightarrow> i @ '': bulb has not been adopted''
      | NotConnected n seen \<Rightarrow> n @ '' (last seen '' @ clock_string zone seen @ ''): bulb is not connected''
      | NotConnectedNow n \<Rightarrow> n @ '': bulb is not connected''
      | RangeError what got lo hi \<Rightarrow> range_error_text what got lo hi
      | BelowFloor n floor \<Rightarrow> n @ '': brightness below '' @ itoa floor @ '' switches this bulb off: value out of range''
      | Unsupported n \<Rightarrow> n @ '' does not support colour temperature: unsupported by this bulb''
      | Unconfirmed names \<Rightarrow> ''delivered but not confirmed yet: '' @ join '', '' names
      | DriverFailed s \<Rightarrow> s)"

definition describe :: "operator_command \<Rightarrow> string" where
  "describe c =
     (case oc_action c of
        ActionOn \<Rightarrow> ''on''
      | ActionOff \<Rightarrow> ''off''
      | ActionBrightness \<Rightarrow> ''brightness '' @ itoa (oc_number c)
      | ActionColorTemp \<Rightarrow> ''temperature '' @ itoa (oc_number c)
      | _ \<Rightarrow> ''done'')"

section \<open>Running a command\<close>

text \<open>
  \<open>changeFor\<close>: the terminal's own checks. \<open>Inl\<close> is a refusal before the service is asked. The number
  is narrowed to eight bits as \<open>uint8(cmd.Number)\<close> does.
\<close>

definition change_for :: "(string \<Rightarrow> string) \<Rightarrow> bulb \<Rightarrow> operator_command \<Rightarrow> result + change" where
  "change_for q target c =
     (case oc_action c of
        ActionOn \<Rightarrow> Inr (set_power_change True)
      | ActionOff \<Rightarrow> Inr (set_power_change False)
      | ActionBrightness \<Rightarrow>
          if oc_number c < 0 \<or> 100 < oc_number c
          then Inl (err_result (''brightness must be 0-100, got '' @ itoa (oc_number c)))
          else Inr (set_brightness_change (word_of_int (oc_number c)))
      | ActionColorTemp \<Rightarrow>
          if oc_number c < 0 \<or> 100 < oc_number c
          then Inl (err_result (''colour temperature must be 0-100 (0 = warmest, 100 = coolest), got '' @ itoa (oc_number c)))
          else if \<not> supports_color_temp (bulb_caps target)
          then Inl (err_result (bulb_name target @ '': does not support colour temperature. this bulb accepts `on`, `off`, `bri`''))
          else Inr (set_color_temp_change (word_of_int (oc_number c)))
      | ActionColor \<Rightarrow>
          Inl (err_result
            (if \<not> valid_color (oc_text c) then ''colour must be #RRGGBB or a name, got '' @ q (oc_text c)
             else if \<not> supports_color (bulb_caps target)
             then bulb_name target @ '': does not support colour. this bulb accepts `on`, `off`, `bri`, `temp`''
             else bulb_name target @ '': colour is not implemented for this bulb'' @ [CHR 0x27] @
               ''s protocol yet. `temp` sets white warmth 0-100''))
      | _ \<Rightarrow> Inr no_change)"

definition render_error :: "(string \<Rightarrow> string) \<Rightarrow> duration \<Rightarrow> bulb \<Rightarrow> light_error \<Rightarrow> result" where
  "render_error q zone target e =
     err_result
       (case e of
          NotAdopted _ \<Rightarrow> device_id target @ '': not adopted yet. run `name '' @ device_id target @ '' <a-name>` first''
        | NotConnected _ _ \<Rightarrow> bulb_name target @ '': not connected (last seen '' @ clock_string zone (last_seen target) @ ''). check the bulb has power''
        | NotConnectedNow _ \<Rightarrow> bulb_name target @ '': not connected (last seen '' @ clock_string zone (last_seen target) @ ''). check the bulb has power''
        | Unsupported _ \<Rightarrow> bulb_name target @ '': does not support colour temperature. this bulb accepts `on`, `off`, `bri`''
        | RangeError what got lo hi \<Rightarrow> range_error_text what got lo hi
        | _ \<Rightarrow> bulb_name target @ '': '' @ light_error_text q zone e)"

text \<open>What a front end needs of the rest: the registry, a driver, the event bus, the clock.\<close>

record 'w host =
  h_run :: "driver_id \<Rightarrow> light_state \<Rightarrow> 'w \<Rightarrow> driver_result \<times> 'w"
  h_get :: "'w \<Rightarrow> registry"
  h_put :: "registry \<Rightarrow> 'w \<Rightarrow> 'w"
  h_emit :: "event \<Rightarrow> 'w \<Rightarrow> 'w"
  h_now :: time

record 'w terminal = "'w host" +
  t_quote :: "string \<Rightarrow> string"
  t_zone :: duration

definition service_apply :: "('w, 'x) host_scheme \<Rightarrow> string \<Rightarrow> change \<Rightarrow> 'w \<Rightarrow> light_error option \<times> 'w" where
  "service_apply h i c w = apply_change (h_run h) (h_get h) (h_put h) (h_emit h) (h_now h) i c w"

definition rename_target :: "'w terminal \<Rightarrow> bulb \<Rightarrow> string \<Rightarrow> 'w \<Rightarrow> result \<times> 'w" where
  "rename_target t target name w =
     (if \<not> isl (parse name) \<and> is_verb name
      then (err_result (t_quote t name @ '' is a command name; pick something else so `'' @ name @ ''` stays unambiguous''), w)
      else
        (case rename_lamp (device_id target) name (h_now t) (h_get t w) of
           Inl e \<Rightarrow> (err_result (registry_error_text (t_quote t) e), w)
         | Inr (adopted', e, r') \<Rightarrow>
             (ok_result (if adopted' then name @ '': adopted (was '' @ device_id target @ '')''
                else name @ '': renamed from '' @ bulb_name target),
              h_emit t e (h_put t r' w))))"

definition run_change :: "'w terminal \<Rightarrow> bulb \<Rightarrow> operator_command \<Rightarrow> 'w \<Rightarrow> result \<times> 'w" where
  "run_change t target c w =
     (case change_for (t_quote t) target c of
        Inl res \<Rightarrow> (res, w)
      | Inr ch \<Rightarrow>
          (case service_apply t (device_id target) ch w of
             (None, w') \<Rightarrow> (ok_result (bulb_name target @ '': '' @ describe c), w')
           | (Some e, w') \<Rightarrow>
               (if is_unconfirmed e
                then info_result (bulb_name target @ '': '' @ describe c @ '' sent '' @ em_dash @
                  '' the bulb has not confirmed yet, watch the feed'')
                else render_error (t_quote t) (t_zone t) target e, w')))"

definition run_command :: "'w terminal \<Rightarrow> operator_command \<Rightarrow> 'w \<Rightarrow> result \<times> 'w" where
  "run_command t c w =
     (case oc_action c of
        ActionList \<Rightarrow> (info_result (list_text (t_zone t) (list_bulbs (h_get t w))), w)
      | ActionHelp \<Rightarrow> (info_result (help_text (oc_text c)), w)
      | ActionQuit \<Rightarrow> (\<lparr>res_kind = ResultOK, res_text = ''shutting down'', res_quit = True\<rparr>, w)
      | a \<Rightarrow>
          (case resolve (oc_target c) (h_get t w) of
             Inl e \<Rightarrow> (err_result (registry_error_text (t_quote t) e), w)
           | Inr target \<Rightarrow>
               if a = ActionInfo then (info_result (info_text (t_zone t) target), w)
               else if a = ActionName then rename_target t target (oc_text c) w
               else run_change t target c w))"

definition execute :: "'w terminal \<Rightarrow> string \<Rightarrow> 'w \<Rightarrow> result \<times> 'w" where
  "execute t line w =
     (case parse line of
        Inl EmptyCommand \<Rightarrow> (info_result [], w)
      | Inl e \<Rightarrow> (err_result (parse_error_text (t_quote t) e), w)
      | Inr c \<Rightarrow> run_command t c w)"

section \<open>Words\<close>

text \<open>What \<open>strings.Fields\<close> yields: no white space anywhere.\<close>

definition is_word :: "string \<Rightarrow> bool" where
  "is_word w \<longleftrightarrow> w \<noteq> [] \<and> list_all (\<lambda>k. space_len (drop k w) = 0) [0..<length w]"

lemma is_word_iff: "is_word w \<longleftrightarrow> w \<noteq> [] \<and> (\<forall>k<length w. space_len (drop k w) = 0)"
  by (auto simp: is_word_def list_all_iff)

lemma space_len_blank: "s \<noteq> [] \<Longrightarrow> space_len s = 0 \<Longrightarrow> space_len (s @ CHR '' '' # t) = 0"
proof -
  have no: "\<not> space2 c CHR '' ''" "\<not> space3 c d CHR '' ''" "\<not> space3 c CHR '' '' d" for c d
    by (auto simp: space2_def space3_def)
  show "s \<noteq> [] \<Longrightarrow> space_len s = 0 \<Longrightarrow> ?thesis"
    by (cases s; cases "tl s"; cases "tl (tl s)") (auto simp: no split: if_splits list.splits)
qed

lemma fields_from_word:
  assumes "\<forall>k<length w. space_len (drop k w) = 0"
  shows "fields_from cur (w @ CHR '' '' # t) = fields_from (rev w @ cur) (CHR '' '' # t)"
  using assms
proof (induction w arbitrary: cur)
  case (Cons c w)
  have "\<forall>k<length w. space_len (drop k w) = 0" using Cons.prems by (auto simp: nat.split_sels dest: spec [of _ "Suc _"])
  moreover have "space_len (c # w @ CHR '' '' # t) = 0"
    using Cons.prems space_len_blank [of "c # w" t] by auto
  ultimately show ?case using Cons.IH [of "c # cur"] by (subst fields_from.simps) simp
qed simp

lemma fields_from_last:
  assumes "\<forall>k<length w. space_len (drop k w) = 0"
  shows "fields_from cur w = (if w = [] \<and> cur = [] then [] else [rev cur @ w])"
  using assms
proof (induction w arbitrary: cur)
  case Nil
  then show ?case by (subst fields_from.simps) simp
next
  case (Cons c w)
  have "\<forall>k<length w. space_len (drop k w) = 0" using Cons.prems by (auto dest: spec [of _ "Suc _"])
  moreover have "space_len (c # w) = 0" using Cons.prems by auto
  ultimately show ?case using Cons.IH [of "c # cur"] by (subst fields_from.simps) simp
qed

lemma fields_from_blank: "fields_from cur (CHR '' '' # t) = (if cur = [] then [] else [rev cur]) @ fields_from [] t"
  by (subst fields_from.simps) (simp add: ascii_space_def)

lemma fields_join: "\<forall>w\<in>set ws. is_word w \<Longrightarrow> GoStrings.fields (join '' '' ws) = ws"
proof (induction ws rule: induct_list012)
  case (2 w)
  then show ?case using fields_from_last [of w "[]"] by (simp add: GoStrings.fields_def is_word_iff)
next
  case (3 v w ws)
  then have "is_word v" "GoStrings.fields (join '' '' (w # ws)) = w # ws" by simp_all
  then show ?case
    using fields_from_word [of v "[]" "join '' '' (w # ws)"]
    by (simp add: GoStrings.fields_def is_word_iff fields_from_blank)
qed (simp add: GoStrings.fields_def fields_from.simps)

lemma fields_words:
  "\<forall>k<length cur. space_len (drop k (rev cur @ s)) = 0 \<Longrightarrow> w \<in> set (fields_from cur s) \<Longrightarrow> is_word w"
proof (induction cur s rule: fields_from.induct)
  case (1 cur s)
  have cur: "is_word (rev cur)" if "cur \<noteq> []"
    unfolding is_word_iff
  proof (intro conjI allI impI)
    fix k assume k: "k < length (rev cur)"
    then have "drop k (rev cur) = take (length cur - k) (drop k (rev cur @ s))" by simp
    then show "space_len (drop k (rev cur)) = 0"
      using "1.prems"(1) k space_len_take [of "length cur - k" "drop k (rev cur @ s)"] by (metis length_rev)
  qed (use that in simp)
  show ?case
  proof (cases "s = []")
    case True
    then show ?thesis using "1.prems"(2) cur by (subst (asm) fields_from.simps) (auto split: if_splits)
  next
    case s: False
    show ?thesis
    proof (cases "space_len s = 0")
      case True
      have "\<forall>k<length (hd s # cur). space_len (drop k (rev (hd s # cur) @ tl s)) = 0"
        using "1.prems"(1) s True by (auto simp: less_Suc_eq)
      moreover have "w \<in> set (fields_from (hd s # cur) (tl s))"
        using "1.prems"(2) s True by (subst (asm) fields_from.simps) simp
      ultimately show ?thesis by (rule "1.IH"(1) [OF s True])
    next
      case False
      then have "w \<in> set (if cur = [] then [] else [rev cur]) \<or> w \<in> set (fields_from [] (drop (space_len s) s))"
        using "1.prems"(2) s by (subst (asm) fields_from.simps) auto
      then show ?thesis
        using cur "1.IH"(2) [OF s False] by (auto split: if_splits)
    qed
  qed
qed

section \<open>Commands written out\<close>

definition command_line :: "operator_command \<Rightarrow> string" where
  "command_line c =
     join '' ''
       (case oc_action c of
          ActionList \<Rightarrow> [''list'']
        | ActionQuit \<Rightarrow> [''quit'']
        | ActionHelp \<Rightarrow> ''help'' # (if oc_text c = [] then [] else [oc_text c])
        | ActionOn \<Rightarrow> [''on'', oc_target c]
        | ActionOff \<Rightarrow> [''off'', oc_target c]
        | ActionInfo \<Rightarrow> [''info'', oc_target c]
        | ActionBrightness \<Rightarrow> [''bri'', oc_target c, itoa (oc_number c)]
        | ActionColorTemp \<Rightarrow> [''temp'', oc_target c, itoa (oc_number c)]
        | ActionColor \<Rightarrow> [''color'', oc_target c, oc_text c]
        | ActionName \<Rightarrow> [''name'', oc_target c, oc_text c])"

text \<open>The commands there are: each with the arguments it takes and nothing else.\<close>

definition command_ok :: "operator_command \<Rightarrow> bool" where
  "command_ok c \<longleftrightarrow>
     (oc_action c \<in> {ActionBrightness, ActionColorTemp} \<and> int64_range (oc_number c) \<or> oc_number c = 0) \<and>
     (if oc_action c \<in> {ActionList, ActionQuit, ActionHelp} then oc_target c = [] else is_word (oc_target c)) \<and>
     (if oc_action c \<in> {ActionColor, ActionName} then is_word (oc_text c)
      else if oc_action c = ActionHelp then oc_text c = [] \<or> is_word (oc_text c) else oc_text c = [])"

lemma itoa_word: "is_word (itoa n)"
proof -
  have d: "space_len (c # s) = 0" if "is_digit c \<or> c = CHR ''-''" for c s
  proof -
    have "\<not> ascii_space c \<and> \<not> space2 c d \<and> \<not> space3 c d e" for d e
      using that by (auto simp: ascii_space_def space2_def space3_def is_digit_def)
    then show ?thesis by (simp split: list.split)
  qed
  have all: "list_all (\<lambda>c. is_digit c \<or> c = CHR ''-'') (itoa n)"
    using nat_str_digits by (auto simp: itoa_def list_all_iff)
  have "space_len (drop k (itoa n)) = 0" if "k < length (itoa n)" for k
    using that all d [of "itoa n ! k" "drop (Suc k) (itoa n)"] by (simp add: Cons_nth_drop_Suc [symmetric] list_all_length)
  then show ?thesis by (simp add: is_word_iff)
qed

lemma verb_words:
  "is_word ''list''" "is_word ''quit''" "is_word ''help''" "is_word ''on''" "is_word ''off''" "is_word ''info''"
  "is_word ''bri''" "is_word ''temp''" "is_word ''color''" "is_word ''name''"
  by code_simp+

lemma verb_lower:
  "to_lower ''list'' = ''list''" "to_lower ''quit'' = ''quit''" "to_lower ''help'' = ''help''" "to_lower ''on'' = ''on''"
  "to_lower ''off'' = ''off''" "to_lower ''info'' = ''info''" "to_lower ''bri'' = ''bri''" "to_lower ''temp'' = ''temp''"
  "to_lower ''color'' = ''color''" "to_lower ''name'' = ''name''"
  by code_simp+

lemma parse_join: "\<forall>w\<in>set ws. is_word w \<Longrightarrow> parse (join '' '' ws) = (case ws of [] \<Rightarrow> Inl EmptyCommand | w # args \<Rightarrow> dispatch w args)"
  by (simp add: parse_def fields_join)

lemma parse_command_line:
  assumes "command_ok c"
  shows "parse (command_line c) = Inr c"
proof -
  obtain a t n x where c: "c = \<lparr>oc_action = a, oc_target = t, oc_number = n, oc_text = x\<rparr>" by (cases c)
  have range: "int64_range n \<or> n = 0 \<Longrightarrow> atoi (itoa n) = Some n" for n
    using atoi_itoa by (auto simp: int64_range_def)
  show ?thesis
    using assms unfolding c
    by (cases a)
      (auto simp: command_ok_def command_line_def parse_join dispatch_def verb_words verb_lower itoa_word range
        parse_bulb_def parse_value_def parse_words_def bare_def simp del: join.simps split: if_splits)
qed

lemma dispatch_Inr:
  "dispatch word args = Inr c \<Longrightarrow>
    c = bare ActionList \<or> c = (bare ActionHelp)\<lparr>oc_text := (case args of [] \<Rightarrow> [] | a # _ \<Rightarrow> a)\<rparr> \<or> c = bare ActionQuit \<or>
    parse_bulb (to_lower word) args = Inr c \<or> parse_value (to_lower word) args = Inr c \<or>
    parse_words ActionColor ColorUsage args = Inr c \<or> parse_words ActionName NameUsage args = Inr c"
  unfolding dispatch_def Let_def by (simp only: sum.inject sum.distinct split: if_split_asm) blast+

lemma parse_bulb_ok: "parse_bulb v args = Inr c \<Longrightarrow> \<forall>w\<in>set args. is_word w \<Longrightarrow> command_ok c"
  by (cases args; cases "tl args") (auto simp: parse_bulb_def command_ok_def bare_def split: if_splits)

lemma parse_value_ok: "parse_value v args = Inr c \<Longrightarrow> \<forall>w\<in>set args. is_word w \<Longrightarrow> command_ok c"
  by (cases args; cases "tl args"; cases "tl (tl args)")
    (auto simp: parse_value_def command_ok_def bare_def atoi_range split: option.splits if_splits)

lemma parse_words_ok:
  "parse_words a e args = Inr c \<Longrightarrow> a \<in> {ActionColor, ActionName} \<Longrightarrow> \<forall>w\<in>set args. is_word w \<Longrightarrow> command_ok c"
  by (cases args; cases "tl args"; cases "tl (tl args)") (auto simp: parse_words_def command_ok_def bare_def)

lemma parse_ok:
  assumes "parse line = Inr c"
  shows "command_ok c"
proof -
  obtain word args where f: "GoStrings.fields line = word # args" and d: "dispatch word args = Inr c"
    using assms by (auto simp: parse_def split: list.splits)
  have w: "\<forall>w\<in>set args. is_word w"
    using fields_words [of "[]" line] f by (simp add: GoStrings.fields_def)
  have "command_ok (bare ActionList)" "command_ok (bare ActionQuit)"
    "command_ok ((bare ActionHelp)\<lparr>oc_text := (case args of [] \<Rightarrow> [] | a # _ \<Rightarrow> a)\<rparr>)"
    using w by (auto simp: command_ok_def bare_def split: list.split)
  then show ?thesis
    using dispatch_Inr [OF d] w parse_bulb_ok parse_value_ok parse_words_ok by blast
qed

section \<open>What a command does\<close>

text \<open>A command changes something only as a rename that succeeded, or through the service's \<open>Apply\<close>.\<close>

lemma change_for_Inr:
  assumes "change_for q target c = Inr ch"
  shows "oc_action c = ActionOn \<and> ch = set_power_change True \<or> oc_action c = ActionOff \<and> ch = set_power_change False \<or>
    oc_action c = ActionBrightness \<and> 0 \<le> oc_number c \<and> oc_number c \<le> 100 \<and> ch = set_brightness_change (word_of_int (oc_number c)) \<or>
    oc_action c = ActionColorTemp \<and> 0 \<le> oc_number c \<and> oc_number c \<le> 100 \<and> supports_color_temp (bulb_caps target) \<and>
      ch = set_color_temp_change (word_of_int (oc_number c)) \<or>
    oc_action c \<in> {ActionList, ActionName, ActionInfo, ActionHelp, ActionQuit}"
  using assms by (auto simp: change_for_def split: action.splits if_splits)

lemma rename_target_changes:
  assumes "rename_target t target name w = (res, w')"
  shows "w' = w \<and> res_kind res = ResultError \<or>
    (\<exists>a e r'. rename_lamp (device_id target) name (h_now t) (h_get t w) = Inr (a, e, r') \<and>
      w' = h_emit t e (h_put t r' w) \<and> res_kind res = ResultOK)"
  using assms by (auto simp: rename_target_def err_result_def ok_result_def split: if_splits sum.splits)

lemma run_command_changes:
  assumes "run_command t c w = (res, w')"
  shows "w' = w \<or>
    (\<exists>target. resolve (oc_target c) (h_get t w) = Inr target \<and>
      (oc_action c = ActionName \<and> rename_target t target (oc_text c) w = (res, w') \<or>
       oc_action c \<in> {ActionOn, ActionOff, ActionBrightness, ActionColorTemp} \<and> run_change t target c w = (res, w')))"
proof (cases "resolve (oc_target c) (h_get t w)")
  case (Inl e)
  then show ?thesis using assms by (auto simp: run_command_def split: action.splits)
next
  case (Inr target)
  then show ?thesis
    using assms by (cases "oc_action c") (auto simp: run_command_def run_change_def change_for_def split: if_splits)
qed

text \<open>
  \<open>rename\<close> refuses a command word only when it parses on its own. The words that need arguments do
  not, so a lamp can be named \<open>on\<close> or \<open>info\<close>, although they are command words (\<open>IsVerb\<close>).
\<close>

lemma verb_taken_as_name:
  "is_verb ''on'' \<and> isl (parse ''on'') \<and>
   rename_target t target ''on'' w =
     (case rename_lamp (device_id target) ''on'' (h_now t) (h_get t w) of
        Inl e \<Rightarrow> (err_result (registry_error_text (t_quote t) e), w)
      | Inr (a, e, r') \<Rightarrow>
          (ok_result (if a then ''on: adopted (was '' @ device_id target @ '')''
             else ''on: renamed from '' @ bulb_name target), h_emit t e (h_put t r' w)))"
proof -
  have "is_verb ''on''" "isl (parse ''on'')" by code_simp+
  then show ?thesis by (auto simp: rename_target_def split: sum.split)
qed

text \<open>The event of a command that failed.\<close>

definition failure :: "time \<Rightarrow> bulb \<Rightarrow> string \<Rightarrow> event" where
  "failure now target s =
     \<lparr>ev_at = now, ev_kind = CommandResult, ev_device = device_id target, ev_name = bulb_name target,
      ev_changed = [], ev_detail = s\<rparr>"

section \<open>Properties\<close>

text \<open>
  C34: the command language is unambiguous and complete. The commands \<open>Parse\<close> can return are exactly the
  well-formed ones (the arguments the action takes, words without white space, numbers of 64 bits),
  and each is read back from its own written form.
\<close>

theorem parse_roundtrip:
  "((\<exists>line. parse line = Inr c) \<longleftrightarrow> command_ok c) \<and> (command_ok c \<longrightarrow> parse (command_line c) = Inr c)"
  using parse_ok parse_command_line by blast

theorem parse_roundtrip_witness:
  "parse ''bri desk -5'' = Inr \<lparr>oc_action = ActionBrightness, oc_target = ''desk'', oc_number = -5, oc_text = []\<rparr>"
proof -
  let ?c = "\<lparr>oc_action = ActionBrightness, oc_target = ''desk'', oc_number = -5, oc_text = []\<rparr>"
  have "command_ok ?c" "command_line ?c = ''bri desk -5''" by code_simp+
  then show ?thesis using parse_roundtrip [of ?c] by metis
qed

text \<open>
  C12: a line changes something only if it parses, names one lamp unambiguously, and is either a rename
  that succeeded or a change of a connected lamp, which then goes to that lamp's own connection as
  the full state the service resolved. Everything else leaves the whole state as it was.
\<close>

theorem terminal_acts_deliberately:
  assumes "execute t line w = (res, w')" "w' \<noteq> w" "reg_ok (h_get t w)"
  shows "\<exists>c target. parse line = Inr c \<and> resolve (oc_target c) (h_get t w) = Inr target \<and>
    lookup_bulb (h_get t w) (device_id target) = Some target \<and>
    (oc_action c = ActionName \<and> res_kind res = ResultOK \<and>
       (\<exists>a e r'. rename_lamp (device_id target) (oc_text c) (h_now t) (h_get t w) = Inr (a, e, r') \<and> w' = h_emit t e (h_put t r' w)) \<or>
     oc_action c \<in> {ActionOn, ActionOff, ActionBrightness, ActionColorTemp} \<and> status target = Connected \<and>
       (\<exists>ch want d. change_for (t_quote t) target c = Inr ch \<and> resolve_change target ch = Inr want \<and>
          driver_of (device_id target) (h_get t w) = Some d \<and>
          (let w1 = snd (h_run t d want (h_put t (set_desired (device_id target) want (h_get t w)) w))
           in w' = w1 \<or> (\<exists>e. ev_kind e = CommandResult \<and> ev_device e = device_id target \<and> w' = h_emit t e w1))))"
proof -
  obtain c where c: "parse line = Inr c" and run: "run_command t c w = (res, w')"
    using assms(1,2) by (auto simp: execute_def split: sum.splits parse_error.splits)
  from run_command_changes [OF run] assms(2) obtain target where
    target: "resolve (oc_target c) (h_get t w) = Inr target" and
    act: "oc_action c = ActionName \<and> rename_target t target (oc_text c) w = (res, w') \<or>
       oc_action c \<in> {ActionOn, ActionOff, ActionBrightness, ActionColorTemp} \<and> run_change t target c w = (res, w')"
    by blast
  have entry: "lookup_bulb (h_get t w) (device_id target) = Some target"
    using resolve_Inr [OF assms(3) target] by blast
  show ?thesis
  proof (cases "oc_action c = ActionName")
    case True
    then show ?thesis using act rename_target_changes [of t target "oc_text c" w res w'] assms(2) c target entry by auto
  next
    case False
    then have rc: "run_change t target c w = (res, w')" and
      verb: "oc_action c \<in> {ActionOn, ActionOff, ActionBrightness, ActionColorTemp}" using act by blast+
    obtain ch where ch: "change_for (t_quote t) target c = Inr ch"
      using rc assms(2) by (auto simp: run_change_def split: sum.splits)
    obtain res' d want r' where p: "prepare (device_id target) ch (h_get t w) = Inr (res', d, want, r')"
      using rc assms(2) ch by (auto simp: run_change_def service_apply_def apply_change_def split: sum.splits)
    have w': "w' = snd (service_apply t (device_id target) ch w)"
      using rc ch by (auto simp: run_change_def split: prod.splits option.splits)
    from p [unfolded prepare_Inr] entry have p': "res' = target" "status target = Connected" "resolve_change target ch = Inr want"
      "driver_of (device_id target) (h_get t w) = Some d" "r' = set_desired (device_id target) want (h_get t w)" by auto
    have "let w1 = snd (h_run t d want (h_put t r' w))
       in w' = w1 \<or> (\<exists>e. ev_kind e = CommandResult \<and> ev_device e = device_id target \<and> w' = h_emit t e w1)"
      unfolding w' service_apply_def apply_change_def p sum.case prod.case p'(1) Let_def case_prod_beta
      using exI [of "\<lambda>e. ev_kind e = CommandResult \<and> ev_device e = device_id target \<and>
          h_emit t (failure (h_now t) target s) v = h_emit t e v" "failure (h_now t) target s" for s v]
      by (cases "fst (h_run t d want (h_put t r' w))") (auto simp: failure_def)
    then show ?thesis using c target entry verb p' ch by (auto simp: Let_def)
  qed
qed

definition demo_terminal :: "registry terminal" where
  "demo_terminal =
     \<lparr>h_run = (\<lambda>d want r. (Done, r)), h_get = id, h_put = (\<lambda>r' _. r'), h_emit = (\<lambda>e r. r), h_now = 0,
      t_quote = id, t_zone = 0\<rparr>"

definition demo_registry :: registry where
  "demo_registry = put_bulb ''a1'' (zero_bulb\<lparr>device_id := ''a1'', bulb_name := ''desk'', status := Connected, driver := Some 3\<rparr>) new_registry"

lemma demo_registry_ok: "reg_ok demo_registry"
  unfolding demo_registry_def by (rule reg_ok_put) (simp_all add: bulb_ok_def)

theorem terminal_acts_deliberately_witness:
  "\<exists>c target. parse ''on DESK'' = Inr c \<and> resolve (oc_target c) demo_registry = Inr target \<and>
     lookup_bulb demo_registry (device_id target) = Some target"
proof -
  obtain res w' where e: "execute demo_terminal ''on DESK'' demo_registry = (res, w')" by fastforce
  have "map_option desired (lookup_bulb (snd (execute demo_terminal ''on DESK'' demo_registry)) ''a1'')
      \<noteq> map_option desired (lookup_bulb demo_registry ''a1'')" by code_simp
  then have "w' \<noteq> demo_registry" by (auto simp: e)
  moreover have g: "h_get demo_terminal w = w" for w by (simp add: demo_terminal_def)
  ultimately show ?thesis using terminal_acts_deliberately [OF e] demo_registry_ok by (auto simp: g)
qed

text \<open>
  \<open>bri\<close> with a value the lamp accepts is sent as exactly that value: the eight-bit conversion loses
  nothing, zero means off, and the operator is told what the driver said.
\<close>

theorem brightness_command:
  assumes "parse line = Inr c" "oc_action c = ActionBrightness" "resolve (oc_target c) (h_get t w) = Inr target"
    "reg_ok (h_get t w)" "status target = Connected" "driver target = Some d"
    "0 \<le> oc_number c" "oc_number c \<le> 100"
    "oc_number c = 0 \<or> uint (min_brightness (bulb_caps target)) \<le> oc_number c"
  shows "\<exists>want. uint (brightness want) = oc_number c \<and> (power want \<longleftrightarrow> 0 < oc_number c) \<and>
    color_temp want = color_temp (light target) \<and> light_mode want = light_mode (light target) \<and>
    execute t line w =
      (case h_run t d want (h_put t (set_desired (device_id target) want (h_get t w)) w) of
         (Done, w') \<Rightarrow> (ok_result (bulb_name target @ '': brightness '' @ itoa (oc_number c)), w')
       | (StillUnconfirmed names, w') \<Rightarrow>
           (info_result (bulb_name target @ '': brightness '' @ itoa (oc_number c) @ '' sent '' @ em_dash @
              '' the bulb has not confirmed yet, watch the feed''), w')
       | (Failed s, w') \<Rightarrow>
           (err_result (bulb_name target @ '': '' @ s),
            h_emit t \<lparr>ev_at = h_now t, ev_kind = CommandResult, ev_device = device_id target,
              ev_name = bulb_name target, ev_changed = [], ev_detail = s\<rparr> w'))"
proof -
  let ?n = "oc_number c"
  let ?b = "word_of_int ?n :: byte"
  have b: "uint ?b = ?n" using assms(7,8) by (simp add: uint_word_of_int)
  then have z: "?b = 0 \<longleftrightarrow> ?n = 0" using uint_pos_iff [of ?b] assms(7) by auto
  have entry: "lookup_bulb (h_get t w) (device_id target) = Some target"
    using resolve_Inr [OF assms(4,3)] by blast
  have ch: "change_for (t_quote t) target c = Inr (set_brightness_change ?b)"
    using assms(2,7,8) by (simp add: change_for_def)
  obtain want where want: "resolve_change target (set_brightness_change ?b) = Inr want"
  proof (cases "resolve_change target (set_brightness_change ?b)")
    case (Inl e)
    from resolve_change_Inl [OF Inl] show ?thesis
      using assms(8,9) b z by (auto simp: set_brightness_change_def no_change_def)
  qed
  have w: "brightness want = ?b" "power want = (?b \<noteq> 0)" "color_temp want = color_temp (light target)"
    "light_mode want = light_mode (light target)"
    using resolve_change_Inr [OF want] by (auto simp: set_brightness_change_def no_change_def)
  have p: "prepare (device_id target) (set_brightness_change ?b) (h_get t w) =
      Inr (target, d, want, set_desired (device_id target) want (h_get t w))"
    using entry want assms(5,6) by (simp add: prepare_Inr driver_of_def)
  have "execute t line w = run_change t target c w"
    using assms(1-3) by (simp add: execute_def run_command_def)
  then show ?thesis
    using b z w assms(7)
    by (intro exI [of _ want])
      (auto simp: run_change_def ch service_apply_def apply_change_def p Let_def describe_def assms(2) is_unconfirmed_def
        render_error_def light_error_text_def split: prod.split driver_result.split)
qed

theorem brightness_command_witness:
  "\<exists>want :: light_state. uint (brightness want) = 40 \<and> power want \<and>
     fst (execute demo_terminal ''bri desk 40'' demo_registry) = ok_result ''desk: brightness 40''"
proof -
  let ?c = "\<lparr>oc_action = ActionBrightness, oc_target = ''desk'', oc_number = 40, oc_text = []\<rparr>"
  let ?b = "zero_bulb\<lparr>device_id := ''a1'', bulb_name := ''desk'', status := Connected, driver := Some 3\<rparr>"
  have p: "parse ''bri desk 40'' = Inr ?c" by code_simp
  have r: "resolve (oc_target ?c) (h_get demo_terminal demo_registry) = Inr ?b" by code_simp
  have t: "itoa 40 = ''40''" by code_simp
  show ?thesis
    using brightness_command [OF p _ r] demo_registry_ok
    by (auto simp: demo_terminal_def zero_bulb_def no_caps_def t)
qed

end
