(* ===== verification/Tui.thy ===== *)
theory Tui
  imports Control
begin

text \<open>
  The terminal interface, \<open>internal/tui\<close> (feed.go, model.go, view.go): the scrollback, the prompt with its
  history, commands run off the update loop, and what is drawn. The text field and the measuring of
  display cells belong to libraries: what typing a key and setting a value do to the field, how wide a
  text is, and how it is styled are parameters.
\<close>

section \<open>The feed\<close>

record feed =
  f_lines :: "string list"
  f_capacity :: nat
  f_height :: int
  f_offset :: int
  f_evicted :: nat

definition new_feed :: "nat \<Rightarrow> feed" where
  "new_feed capacity = \<lparr>f_lines = [], f_capacity = capacity, f_height = 20, f_offset = 0, f_evicted = 0\<rparr>"

definition clamp_offset :: "feed \<Rightarrow> feed" where
  "clamp_offset f =
     (let top = max (int (length (f_lines f)) - f_height f) 0;
          o1 = (if top < f_offset f then top else f_offset f)
      in f\<lparr>f_offset := (if o1 < 0 then 0 else o1)\<rparr>)"

definition feed_resize :: "int \<Rightarrow> feed \<Rightarrow> feed" where
  "feed_resize height f = clamp_offset (f\<lparr>f_height := (if height < 1 then 1 else height)\<rparr>)"

text \<open>\<open>add\<close> on the lines of a text.\<close>

definition feed_put :: "string list \<Rightarrow> feed \<Rightarrow> feed" where
  "feed_put ls f =
     (let all = f_lines f @ ls; over = length all - f_capacity f;
          f1 = (if 0 < over then f\<lparr>f_lines := drop over all, f_evicted := f_evicted f + over\<rparr> else f\<lparr>f_lines := all\<rparr>)
      in if 0 < f_offset f1 then clamp_offset f1 else f1)"

definition feed_add :: "string \<Rightarrow> feed \<Rightarrow> feed" where
  "feed_add line f = feed_put (split_at CHR 0x0A line) f"

definition feed_event :: "duration \<Rightarrow> event \<Rightarrow> feed \<Rightarrow> feed" where
  "feed_event zone e f = feed_add (event_line zone e) f"

definition feed_result :: "result \<Rightarrow> feed \<Rightarrow> feed" where
  "feed_result r f = feed_add (result_line r) f"

definition feed_prompt :: "string \<Rightarrow> feed \<Rightarrow> feed" where
  "feed_prompt line f = feed_add (''> '' @ line) f"

definition feed_scroll :: "int \<Rightarrow> feed \<Rightarrow> feed" where
  "feed_scroll delta f = clamp_offset (f\<lparr>f_offset := f_offset f - delta\<rparr>)"

definition feed_visible :: "feed \<Rightarrow> string list" where
  "feed_visible f =
     (let e = max (int (length (f_lines f)) - f_offset f) 0; s = max (e - f_height f) 0
      in take (nat (e - s)) (drop (nat s) (f_lines f)))"

definition scrolled_back :: "feed \<Rightarrow> bool" where
  "scrolled_back f \<longleftrightarrow> 0 < f_offset f"

section \<open>The model\<close>

definition feed_capacity :: nat where
  "feed_capacity = 500"

record tui =
  t_input :: string
  t_feed :: feed
  t_width :: int
  t_height :: int
  t_history :: "string list"
  t_pos :: int
  t_in_flight :: int
  t_quitting :: bool

text \<open>What the field does with a key it is given, and with a value that is set.\<close>

record field_ops =
  typed :: "string \<Rightarrow> string \<Rightarrow> string"
  field_value :: "string \<Rightarrow> string"

datatype ui_msg = WindowSize int int | EventMsg event | ResultMsg string result | KeyPress string | OtherMsg string

datatype ui_cmd = NoCmd | WaitForEvent | RunLine string | QuitCmd

definition ready_result :: result where
  "ready_result = info_result ''ready. `help` lists commands, `list` shows bulbs''"

definition new_tui :: tui where
  "new_tui =
     \<lparr>t_input = [], t_feed = feed_result ready_result (new_feed feed_capacity), t_width = 0, t_height = 0, t_history = [],
      t_pos = -1, t_in_flight = 0, t_quitting = False\<rparr>"

definition visible_feed_lines :: "tui \<Rightarrow> int" where
  "visible_feed_lines m = max (t_height m - 3) 1"

text \<open>\<open>quit\<close>, which also cancels the instance's context.\<close>

definition tui_quit :: "tui \<Rightarrow> tui \<times> ui_cmd" where
  "tui_quit m = (m\<lparr>t_quitting := True\<rparr>, QuitCmd)"

definition recall :: "field_ops \<Rightarrow> int \<Rightarrow> tui \<Rightarrow> tui" where
  "recall ops direction m =
     (if t_history m = [] then m
      else
        (let n = int (length (t_history m));
             p1 = (if t_pos m < 0 \<and> 0 < direction then n - 1
                   else if 0 \<le> t_pos m then t_pos m - direction
                   else t_pos m)
         in if p1 < 0 then m\<lparr>t_pos := -1, t_input := field_value ops []\<rparr>
            else
              (let p2 = (if n \<le> p1 then n - 1 else p1)
               in m\<lparr>t_pos := p2, t_input := field_value ops (t_history m ! nat p2)\<rparr>)))"

definition press_enter :: "field_ops \<Rightarrow> tui \<Rightarrow> tui \<times> ui_cmd" where
  "press_enter ops m =
     (let line = trim_space (t_input m); m1 = m\<lparr>t_input := field_value ops []\<rparr>
      in if line = [] then (m1, NoCmd)
         else
           (m1\<lparr>t_history := t_history m1 @ [line], t_pos := -1, t_feed := feed_prompt line (t_feed m1),
               t_in_flight := t_in_flight m1 + 1\<rparr>,
            RunLine line))"

definition handle_key :: "field_ops \<Rightarrow> string \<Rightarrow> tui \<Rightarrow> tui \<times> ui_cmd" where
  "handle_key ops key m =
     (if key = ''ctrl+c'' \<or> key = ''esc'' then tui_quit m
      else if key = ''enter'' then press_enter ops m
      else if key = ''up'' then (recall ops 1 m, NoCmd)
      else if key = ''down'' then (recall ops (-1) m, NoCmd)
      else if key = ''pgup'' then (m\<lparr>t_feed := feed_scroll (go_div (- visible_feed_lines m) 2) (t_feed m)\<rparr>, NoCmd)
      else if key = ''pgdown'' then (m\<lparr>t_feed := feed_scroll (go_div (visible_feed_lines m) 2) (t_feed m)\<rparr>, NoCmd)
      else (m\<lparr>t_input := typed ops key (t_input m)\<rparr>, NoCmd))"

definition tui_update :: "field_ops \<Rightarrow> duration \<Rightarrow> ui_msg \<Rightarrow> tui \<Rightarrow> tui \<times> ui_cmd" where
  "tui_update ops zone msg m =
     (case msg of
        WindowSize w h \<Rightarrow>
          (let m1 = m\<lparr>t_width := w, t_height := h\<rparr>
           in (m1\<lparr>t_feed := feed_resize (visible_feed_lines m1) (t_feed m1)\<rparr>, NoCmd))
      | EventMsg e \<Rightarrow> (m\<lparr>t_feed := feed_event zone e (t_feed m)\<rparr>, WaitForEvent)
      | ResultMsg line r \<Rightarrow>
          (let m1 = m\<lparr>t_in_flight := t_in_flight m - 1\<rparr>
           in if res_quit r then tui_quit m1
              else (if res_text r \<noteq> [] then m1\<lparr>t_feed := feed_result r (t_feed m1)\<rparr> else m1, NoCmd))
      | KeyPress key \<Rightarrow> handle_key ops key m
      | OtherMsg key \<Rightarrow> (m\<lparr>t_input := typed ops key (t_input m)\<rparr>, NoCmd))"

section \<open>Drawing\<close>

text \<open>\<open>[]rune(s)\<close>, each rune as the bytes it is written with again.\<close>

function runes :: "string \<Rightarrow> string list" where
  "runes s =
     (if s = [] then []
      else if utf8_len s = 0 then rune_error # runes (tl s)
      else take (utf8_len s) s # runes (drop (utf8_len s) s))"
  by pat_completeness auto
termination
  by (relation "measure length") (auto simp: neq_Nil_conv)

declare runes.simps [simp del]

fun fit_runes :: "(string \<Rightarrow> int) \<Rightarrow> int \<Rightarrow> int \<Rightarrow> string list \<Rightarrow> string" where
  "fit_runes cells room used [] = []"
| "fit_runes cells room used (r # rs) =
     (if room < used + cells r then [] else r @ fit_runes cells room (used + cells r) rs)"

definition ellipsis :: string where
  "ellipsis = [CHR 0xE2, CHR 0x80, CHR 0xA6]"

definition truncate_text :: "(string \<Rightarrow> int) \<Rightarrow> string \<Rightarrow> int \<Rightarrow> string" where
  "truncate_text cells s width =
     (if width \<le> 0 \<or> cells s \<le> width then s
      else if width = 1 then concat (take 1 (runes s))
      else fit_runes cells (width - 1) 0 (runes s) @ ellipsis)"

definition status_bar :: "(string \<Rightarrow> int) \<Rightarrow> bulb list \<Rightarrow> nat \<Rightarrow> tui \<Rightarrow> string" where
  "status_bar cells all missed m =
     (let connected = length (filter (\<lambda>b. status b = Connected) all);
          discovered = length (filter (\<lambda>b. status b = Discovered) all)
      in truncate_text cells
           (join ('' '' @ [CHR 0xC2, CHR 0xB7] @ '' '')
              ([''haigosmart'', nat_str (length all) @ '' bulbs'', nat_str connected @ '' connected''] @
               (if 0 < discovered then [nat_str discovered @ '' discovered''] else []) @
               (if 0 < missed then [ellipsis @ '' '' @ nat_str missed @ '' events dropped from view (all logged)''] else []) @
               (if 0 < t_in_flight m then [itoa (t_in_flight m) @ '' command(s) in flight''] else []) @
               (if scrolled_back (t_feed m) then [''scrolled back '' @ em_dash @ '' PgDn to return''] else [])))
           (t_width m))"

definition rule_width :: "tui \<Rightarrow> int" where
  "rule_width m = (if t_width m \<le> 0 then 10 else t_width m)"

text \<open>\<open>render\<close>: the two styles and the field's own view are parameters.\<close>

definition render ::
  "(string \<Rightarrow> int) \<Rightarrow> (string \<Rightarrow> string) \<Rightarrow> (string \<Rightarrow> string) \<Rightarrow> (string \<Rightarrow> string) \<Rightarrow> bulb list \<Rightarrow> nat \<Rightarrow> tui \<Rightarrow> string" where
  "render cells bold dim field_view all missed m =
     (if t_quitting m then ''saved. bye'' @ newline
      else
        (let shown = feed_visible (t_feed m)
         in bold (status_bar cells all missed m) @ newline @
            dim (concat (replicate (nat (rule_width m)) [CHR 0xE2, CHR 0x94, CHR 0x80])) @ newline @
            concat (map (\<lambda>l. truncate_text cells l (t_width m) @ newline) shown) @
            concat (replicate (nat (visible_feed_lines m) - length shown) newline) @
            truncate_text cells (field_view (t_input m)) (t_width m)))"

section \<open>Facts\<close>

definition feed_ok :: "feed \<Rightarrow> bool" where
  "feed_ok f \<longleftrightarrow> 0 < f_capacity f \<and> length (f_lines f) \<le> f_capacity f \<and> 1 \<le> f_height f \<and> 0 \<le> f_offset f \<and>
     f_offset f \<le> max (int (length (f_lines f)) - f_height f) 0"

lemma clamp_fields [simp]:
  "f_lines (clamp_offset f) = f_lines f" "f_capacity (clamp_offset f) = f_capacity f" "f_height (clamp_offset f) = f_height f"
  "f_evicted (clamp_offset f) = f_evicted f"
  by (simp_all add: clamp_offset_def Let_def)

lemma clamp_ok: "0 \<le> f_offset (clamp_offset f) \<and> f_offset (clamp_offset f) \<le> max (int (length (f_lines f)) - f_height f) 0"
  by (auto simp: clamp_offset_def Let_def)

lemma feed_put_fields [simp]:
  "f_capacity (feed_put ls f) = f_capacity f" "f_height (feed_put ls f) = f_height f"
  by (simp_all add: feed_put_def Let_def)

lemma feed_put_lines: "f_lines (feed_put ls f) = keep_last (f_capacity f) (f_lines f @ ls)"
  by (simp add: feed_put_def keep_last_def Let_def)

lemma feed_put_counts:
  "length (f_lines (feed_put ls f)) + f_evicted (feed_put ls f) = length (f_lines f) + length ls + f_evicted f"
proof -
  let ?n = "length (f_lines f) + length ls"
  have "(?n - (?n - f_capacity f)) + (?n - f_capacity f) = ?n" by simp
  then show ?thesis by (auto simp: feed_put_def Let_def simp del: diff_diff_cancel)
qed

lemma feed_put_ok: "feed_ok f \<Longrightarrow> feed_ok (feed_put ls f)"
  using clamp_ok
  by (auto simp: feed_ok_def feed_put_def Let_def)

interpretation scrollback: bounded_buffer f_lines "\<lambda>l. feed_put [l]" f_capacity
  by unfold_locales (simp_all add: feed_put_lines)


lemma scroll_ok: "feed_ok f \<Longrightarrow> feed_ok (feed_scroll d f)"
  using clamp_ok [of "f\<lparr>f_offset := f_offset f - d\<rparr>"] by (simp add: feed_ok_def feed_scroll_def)

lemma resize_ok: "feed_ok f \<Longrightarrow> feed_ok (feed_resize h f)"
  using clamp_ok [of "f\<lparr>f_height := (if h < 1 then 1 else h)\<rparr>"] by (auto simp: feed_ok_def feed_resize_def)

lemma window_arith:
  assumes "0 \<le> h" "0 \<le> off" "off \<le> int n - h"
  shows "nat (int n - off - h) + nat h \<le> n \<and> nat h = min (nat h) n \<and> int (n - (nat (int n - off - h) + nat h)) = off"
proof -
  obtain H O' where "h = int H" "off = int O'" using assms(1,2) nonneg_int_cases by metis
  moreover from this have "O' + H \<le> n" using assms(3) by simp
  then obtain R where "n = O' + H + R" using le_Suc_ex by blast
  ultimately show ?thesis by simp
qed

lemma visible_window:
  assumes "feed_ok f"
  shows "\<exists>older newer. f_lines f = older @ feed_visible f @ newer \<and> int (length newer) = f_offset f \<and>
    length (feed_visible f) = min (nat (f_height f)) (length (f_lines f))"
proof -
  define n where "n = length (f_lines f)"
  define e where "e = max (int n - f_offset f) 0"
  define s where "s = max (e - f_height f) 0"
  define k where "k = nat (e - s)"
  have ok: "1 \<le> f_height f" "0 \<le> f_offset f" "f_offset f \<le> max (int n - f_height f) 0"
    using assms by (simp_all add: feed_ok_def n_def)
  have k: "nat s + k \<le> n \<and> k = min (nat (f_height f)) n \<and> int (n - (nat s + k)) = f_offset f"
  proof (cases "int n \<le> f_height f")
    case True
    then have off: "f_offset f = 0" using ok by simp
    then have "e = int n" by (simp add: e_def)
    moreover from this have "s = 0" using True by (simp add: s_def)
    ultimately have "k = n" "s = 0" by (simp_all add: k_def)
    then show ?thesis using True off by simp
  next
    case False
    then have le: "f_offset f \<le> int n - f_height f" using ok by simp
    then have "e = int n - f_offset f" using ok by (simp add: e_def)
    moreover from this have "s = int n - f_offset f - f_height f" using le by (simp add: s_def)
    ultimately have "k = nat (f_height f)" "s = int n - f_offset f - f_height f" by (simp_all add: k_def)
    then show ?thesis using window_arith [OF _ ok(2) le] ok(1) by simp
  qed
  have "f_lines f = take (nat s) (f_lines f) @ take k (drop (nat s) (f_lines f)) @ drop (nat s + k) (f_lines f)"
    by (metis append_take_drop_id drop_drop add.commute)
  moreover have v: "feed_visible f = take k (drop (nat s) (f_lines f))"
    by (simp add: feed_visible_def Let_def k_def s_def e_def n_def)
  ultimately have "f_lines f = take (nat s) (f_lines f) @ feed_visible f @ drop (nat s + k) (f_lines f)" by simp
  moreover have "int (length (drop (nat s + k) (f_lines f))) = f_offset f"
    unfolding length_drop using k unfolding n_def by blast
  moreover have "length (feed_visible f) = min (nat (f_height f)) n"
  proof -
    have "k \<le> n - nat s" using k by linarith
    then have "length (feed_visible f) = k" by (simp add: v n_def)
    then show ?thesis using k by simp
  qed
  ultimately show ?thesis unfolding n_def by blast
qed

text \<open>What can happen to a feed, and all lines added to it.\<close>

datatype feed_op = FeedAdd string | FeedScroll int | FeedResize int

fun run_feed :: "feed_op \<Rightarrow> feed \<Rightarrow> feed" where
  "run_feed (FeedAdd t) f = feed_add t f"
| "run_feed (FeedScroll d) f = feed_scroll d f"
| "run_feed (FeedResize h) f = feed_resize h f"

definition added_lines :: "feed_op list \<Rightarrow> string list" where
  "added_lines fops = concat (map (\<lambda>x. case x of FeedAdd t \<Rightarrow> split_at CHR 0x0A t | _ \<Rightarrow> []) fops)"

lemma keep_last_append: "keep_last n (keep_last n xs @ ys) = keep_last n (xs @ ys)"
proof -
  let ?x = "length xs - n"
  have "keep_last n xs @ ys = drop ?x (xs @ ys)" by (simp add: keep_last_def)
  moreover have "length (xs @ ys) - ?x - n + ?x = length (xs @ ys) - n" by simp
  ultimately show ?thesis by (simp add: keep_last_def del: drop_append)
qed

lemma added_lines_snoc [simp]:
  "added_lines (fops @ [FeedAdd t]) = added_lines fops @ split_at CHR 0x0A t"
  "added_lines (fops @ [FeedScroll d]) = added_lines fops" "added_lines (fops @ [FeedResize h]) = added_lines fops"
  by (simp_all add: added_lines_def)

lemma view_fields [simp]:
  "f_lines (feed_scroll d f) = f_lines f" "f_capacity (feed_scroll d f) = f_capacity f" "f_evicted (feed_scroll d f) = f_evicted f"
  "f_lines (feed_resize h f) = f_lines f" "f_capacity (feed_resize h f) = f_capacity f" "f_evicted (feed_resize h f) = f_evicted f"
  by (simp_all add: feed_scroll_def feed_resize_def)

lemma run_feed_all:
  assumes "0 < cap"
  shows "feed_ok (fold run_feed fops (new_feed cap)) \<and> f_capacity (fold run_feed fops (new_feed cap)) = cap \<and>
    f_lines (fold run_feed fops (new_feed cap)) = keep_last cap (added_lines fops) \<and>
    length (f_lines (fold run_feed fops (new_feed cap))) + f_evicted (fold run_feed fops (new_feed cap)) = length (added_lines fops)"
proof (induction fops rule: rev_induct)
  case Nil
  then show ?case using assms by (simp add: new_feed_def feed_ok_def keep_last_def added_lines_def)
next
  case (snoc x fops)
  let ?f = "fold run_feed fops (new_feed cap)"
  show ?case
  proof (cases x)
    case (FeedAdd t)
    have "length (keep_last cap (added_lines fops)) + f_evicted ?f = length (added_lines fops)" using snoc by metis
    then show ?thesis
      using FeedAdd snoc feed_put_ok [of ?f "split_at CHR 0x0A t"] feed_put_counts [of "split_at CHR 0x0A t" ?f]
        keep_last_append [of cap "added_lines fops" "split_at CHR 0x0A t"]
      by (simp add: feed_add_def feed_put_lines)
  qed (use snoc scroll_ok resize_ok in auto)
qed

section \<open>The loop\<close>

text \<open>
  The program with the commands it runs in the background: any message arrives at any time, and a
  background command may finish at any time, in any order.
\<close>

inductive ui_step :: "field_ops \<Rightarrow> tui \<times> string list \<Rightarrow> tui \<times> string list \<Rightarrow> bool" for ops :: field_ops where
  message: "\<forall>line r. msg \<noteq> ResultMsg line r \<Longrightarrow> tui_update ops zone msg m = (m', c) \<Longrightarrow>
    ui_step ops (m, running) (m', running @ (case c of RunLine line \<Rightarrow> [line] | _ \<Rightarrow> []))"
| finished: "tui_update ops zone (ResultMsg line r) m = (m', c) \<Longrightarrow> ui_step ops (m, xs @ line # ys) (m', xs @ ys)"

inductive_cases ui_stepE: "ui_step ops s t"

definition ui_inv :: "tui \<times> string list \<Rightarrow> bool" where
  "ui_inv s \<longleftrightarrow>
     (let m = fst s
      in t_in_flight m = int (length (snd s)) \<and> -1 \<le> t_pos m \<and> t_pos m < int (length (t_history m)) \<and>
         [] \<notin> set (t_history m) \<and> feed_ok (t_feed m))"

lemma recall_facts [simp]:
  "t_in_flight (recall ops d m) = t_in_flight m" "t_history (recall ops d m) = t_history m" "t_feed (recall ops d m) = t_feed m"
  by (simp_all add: recall_def Let_def)

lemma recall_bounds:
  "-1 \<le> t_pos m \<Longrightarrow> t_pos m < int (length (t_history m)) \<Longrightarrow>
    -1 \<le> t_pos (recall ops d m) \<and> t_pos (recall ops d m) < int (length (t_history m))"
  by (auto simp: recall_def Let_def)

lemma feed_entry_ok: "feed_ok f \<Longrightarrow> feed_ok (feed_add t f)"
  by (simp add: feed_add_def feed_put_ok)

lemma ui_inv_key:
  assumes "ui_inv (m, running)" "handle_key ops key m = (m', c)"
  shows "ui_inv (m', running @ (case c of RunLine line \<Rightarrow> [line] | _ \<Rightarrow> []))"
  using assms recall_bounds
  by (auto simp: handle_key_def tui_quit_def press_enter_def ui_inv_def Let_def feed_prompt_def
      intro: scroll_ok feed_entry_ok split: if_splits)

lemma ui_inv_step: "ui_inv s \<Longrightarrow> ui_step ops s t \<Longrightarrow> ui_inv t"
proof (erule ui_stepE)
  fix msg zone m m' c running
  assume inv: "ui_inv s" and msg: "\<forall>line r. msg \<noteq> ResultMsg line r" and u: "tui_update ops zone msg m = (m', c)"
    and s: "s = (m, running)" "t = (m', running @ (case c of RunLine line \<Rightarrow> [line] | _ \<Rightarrow> []))"
  show "ui_inv t"
  proof (cases msg)
    case (KeyPress key)
    then show ?thesis using ui_inv_key inv u s by (simp add: tui_update_def)
  qed (use inv msg u s in \<open>auto simp: tui_update_def ui_inv_def Let_def feed_event_def intro: resize_ok feed_entry_ok\<close>)
next
  fix zone line r m m' c xs ys
  assume "ui_inv s" "tui_update ops zone (ResultMsg line r) m = (m', c)" "s = (m, xs @ line # ys)" "t = (m', xs @ ys)"
  then show "ui_inv t"
    by (auto simp: tui_update_def tui_quit_def ui_inv_def Let_def feed_result_def intro: feed_entry_ok split: if_splits)
qed

interpretation ui: invariant_system "\<lambda>s. s = (new_tui, [])" "ui_step ops" ui_inv
proof unfold_locales
  have "feed_ok (new_feed feed_capacity)" by (simp add: feed_ok_def new_feed_def feed_capacity_def)
  then show "s = (new_tui, []) \<Longrightarrow> ui_inv s" for s
    by (simp add: ui_inv_def new_tui_def feed_result_def feed_entry_ok)
qed (rule ui_inv_step)

text \<open>
  A line added while the operator has scrolled back moves the view: the distance from the newest line is
  kept, not the place in the history.
\<close>

lemma scrolled_view_moves:
  "let f = feed_scroll (-1) (feed_resize 1 (feed_put [''a'', ''b''] (new_feed 9)))
   in feed_visible f = [''a''] \<and> feed_visible (feed_add ''c'' f) = [''b'']"
  by code_simp

section \<open>Properties\<close>

text \<open>
  C40: the scrollback loses nothing silently. After any additions, scrolling and resizing it holds the
  newest lines, as many as it may keep, and knows how many have gone; what is shown is always one
  unbroken piece of it, a full screen when there is one, as far from the newest as was scrolled.
\<close>

theorem scrollback_window:
  assumes "0 < cap" "f = fold run_feed fops (new_feed cap)"
  shows "f_lines f = keep_last cap (added_lines fops) \<and>
    length (f_lines f) + f_evicted f = length (added_lines fops) \<and>
    (\<exists>older newer. f_lines f = older @ feed_visible f @ newer \<and> int (length newer) = f_offset f \<and>
      length (feed_visible f) = min (nat (f_height f)) (length (f_lines f)))"
  using run_feed_all [OF assms(1), of fops] visible_window unfolding assms(2) by blast

theorem scrollback_window_witness:
  "f_lines (fold run_feed [FeedAdd ''a'', FeedAdd ''b'', FeedScroll 3] (new_feed 1)) = [''b'']"
proof -
  have "keep_last 1 (added_lines [FeedAdd ''a'', FeedAdd ''b'', FeedScroll 3]) = [''b'']" by code_simp
  then show ?thesis using scrollback_window [of 1, OF _ refl, of "[FeedAdd ''a'', FeedAdd ''b'', FeedScroll 3]"] by simp
qed

text \<open>
  The prompt keeps its books. However keys, events and finished commands interleave, the number of
  commands shown in flight is the number still running, and recalling the history never leaves it.
\<close>

theorem prompt_books:
  assumes "reachable (\<lambda>s. s = (new_tui, [])) (ui_step ops) (m, running)"
  shows "t_in_flight m = int (length running) \<and> -1 \<le> t_pos m \<and> t_pos m < int (length (t_history m)) \<and>
    [] \<notin> set (t_history m)"
  using ui.reachable_inv [OF assms] by (simp add: ui_inv_def Let_def)

definition demo_field :: field_ops where
  "demo_field = \<lparr>typed = (\<lambda>k v. v @ k), field_value = id\<rparr>"

definition demo_typed :: tui where
  "demo_typed = fst (tui_update demo_field 0 (KeyPress ''l'') new_tui)"

theorem prompt_books_witness:
  "t_in_flight (fst (tui_update demo_field 0 (KeyPress ''enter'') demo_typed)) = int (length [''l''])"
proof -
  let ?start = "\<lambda>s :: tui \<times> string list. s = (new_tui, [])"
  obtain m1 c1 where 1: "tui_update demo_field 0 (KeyPress ''l'') new_tui = (m1, c1)" by fastforce
  have c1: "c1 = NoCmd" "demo_typed = m1" using 1 by (auto simp: tui_update_def handle_key_def demo_typed_def)
  obtain m2 c2 where 2: "tui_update demo_field 0 (KeyPress ''enter'') m1 = (m2, c2)" by fastforce
  have "snd (tui_update demo_field 0 (KeyPress ''enter'') demo_typed) = RunLine ''l''" by code_simp
  then have c2: "c2 = RunLine ''l''" using 2 c1 by simp
  have "reachable ?start (ui_step demo_field) (new_tui, [])" by (rule reach_start) simp
  then have "reachable ?start (ui_step demo_field) (m1, [])"
    by (rule reach_step) (use ui_step.message [OF _ 1, of "[]"] c1 in simp)
  then have "reachable ?start (ui_step demo_field) (m2, [''l''])"
    by (rule reach_step) (use ui_step.message [OF _ 2, of "[]"] c2 in simp)
  from prompt_books [OF this] show ?thesis using 2 c1 by simp
qed

end
