(* ===== verification/Json.thy ===== *)
theory Json
  imports GoStrings
begin

text \<open>
  The part of Go's \<open>encoding/json\<close> the program relies on, on byte strings: the scanner
  (tokens, string escapes, the number grammar, the nesting limit), the tree a document denotes
  with its keys in order and duplicates kept, and the compact marshaller with its HTML-safe
  string escapes. The main fact is that marshalling a well-formed tree and scanning it back gives
  the tree.
\<close>

section \<open>Trees and tokens\<close>

text \<open>Numbers keep their literal: what it means depends on the Go type it is decoded into.\<close>

datatype json =
    JNull
  | JBool bool
  | JNum string
  | JStr string
  | JArr "json list"
  | JObj "(string \<times> json) list"

datatype tok =
    TLBrace | TRBrace | TLBrack | TRBrack | TColon | TComma
  | TNull | TTrue | TFalse
  | TNum string
  | TStr string

section \<open>Scanning\<close>

subsection \<open>Strings\<close>

text \<open>A string literal is a list of raw bytes and of UTF-16 code units written \<open>\uXXXX\<close>.\<close>

datatype sitem = SB char | SU nat

definition quote_char :: char where
  "quote_char = CHR 0x22"

definition backslash :: char where
  "backslash = CHR 0x5C"

definition escape_char :: "char \<Rightarrow> char option" where
  "escape_char e =
     (if e = quote_char \<or> e = backslash \<or> e = CHR ''/'' then Some e
      else if e = CHR ''b'' then Some (CHR 0x08)
      else if e = CHR ''f'' then Some (CHR 0x0C)
      else if e = CHR ''n'' then Some (CHR 0x0A)
      else if e = CHR ''r'' then Some (CHR 0x0D)
      else if e = CHR ''t'' then Some (CHR 0x09)
      else None)"

definition hex4 :: "char \<Rightarrow> char \<Rightarrow> char \<Rightarrow> char \<Rightarrow> nat" where
  "hex4 a b c d = ((hex_val a * 16 + hex_val b) * 16 + hex_val c) * 16 + hex_val d"

text \<open>The body of a string literal up to and including its closing quote, and the rest.\<close>

fun lex_items :: "string \<Rightarrow> (sitem list \<times> string) option" where
  "lex_items [] = None"
| "lex_items (c # cs) =
     (if c = quote_char then Some ([], cs)
      else if code c < 0x20 then None
      else if c = backslash then
        (case cs of
           [] \<Rightarrow> None
         | e # cs1 \<Rightarrow>
             if e = CHR ''u'' then
               (case cs1 of
                  h1 # h2 # h3 # h4 # cs2 \<Rightarrow>
                    if is_hex h1 \<and> is_hex h2 \<and> is_hex h3 \<and> is_hex h4
                    then map_option (\<lambda>(its, r). (SU (hex4 h1 h2 h3 h4) # its, r)) (lex_items cs2)
                    else None
                | _ \<Rightarrow> None)
             else
               (case escape_char e of
                  None \<Rightarrow> None
                | Some d \<Rightarrow> map_option (\<lambda>(its, r). (SB d # its, r)) (lex_items cs1)))
      else map_option (\<lambda>(its, r). (SB c # its, r)) (lex_items cs))"

definition surrogate :: "nat \<Rightarrow> bool" where
  "surrogate u \<longleftrightarrow> 0xD800 \<le> u \<and> u < 0xE000"

fun unquote :: "sitem list \<Rightarrow> string" where
  "unquote [] = []"
| "unquote (SB c # its) = c # unquote its"
| "unquote (SU u # its) =
     (if surrogate u then
        (case its of
           SU l # its' \<Rightarrow>
             if u < 0xDC00 \<and> 0xDC00 \<le> l \<and> l < 0xE000
             then utf8_encode (0x10000 + (u - 0xD800) * 1024 + (l - 0xDC00)) @ unquote its'
             else rune_error @ unquote its
         | _ \<Rightarrow> rune_error @ unquote its)
      else utf8_encode u @ unquote its)"

subsection \<open>Numbers\<close>

definition number_char :: "char \<Rightarrow> bool" where
  "number_char c \<longleftrightarrow> is_digit c \<or> c \<in> {CHR ''-'', CHR ''+'', CHR ''.'', CHR ''e'', CHR ''E''}"

text \<open>
  Sign, integer digits, fraction digits, exponent and what is left unread of a literal.
\<close>

definition num_sign :: "string \<Rightarrow> bool \<times> string" where
  "num_sign s = (case s of c # r \<Rightarrow> if c = CHR ''-'' then (True, r) else (False, s) | [] \<Rightarrow> (False, s))"

definition num_frac :: "string \<Rightarrow> string option \<times> string" where
  "num_frac s =
     (case s of
        c # r \<Rightarrow> if c = CHR ''.'' then (Some (takeWhile is_digit r), dropWhile is_digit r) else (None, s)
      | [] \<Rightarrow> (None, s))"

definition exp_sign :: "string \<Rightarrow> bool \<times> string" where
  "exp_sign s =
     (case s of
        c # r \<Rightarrow> if c = CHR ''-'' then (True, r) else if c = CHR ''+'' then (False, r) else (False, s)
      | [] \<Rightarrow> (False, s))"

definition num_exp :: "string \<Rightarrow> (bool \<times> string) option \<times> string" where
  "num_exp s =
     (case s of
        c # r \<Rightarrow>
          if c = CHR ''e'' \<or> c = CHR ''E''
          then (let (neg, r1) = exp_sign r in (Some (neg, takeWhile is_digit r1), dropWhile is_digit r1))
          else (None, s)
      | [] \<Rightarrow> (None, s))"

definition number_parts :: "string \<Rightarrow> bool \<times> string \<times> string option \<times> (bool \<times> string) option \<times> string" where
  "number_parts s =
     (let (neg, s1) = num_sign s;
          (fp, s3) = num_frac (dropWhile is_digit s1);
          (ep, s4) = num_exp s3
      in (neg, takeWhile is_digit s1, fp, ep, s4))"

definition valid_number :: "string \<Rightarrow> bool" where
  "valid_number s =
     (let (neg, ip, fp, ep, rest) = number_parts s
      in ip \<noteq> [] \<and> (hd ip = CHR ''0'' \<longrightarrow> length ip = 1) \<and> fp \<noteq> Some []
         \<and> (case ep of None \<Rightarrow> True | Some (eneg, ds) \<Rightarrow> ds \<noteq> []) \<and> rest = [])"

subsection \<open>Tokens\<close>

definition json_space :: "char \<Rightarrow> bool" where
  "json_space c \<longleftrightarrow> c \<in> {CHR 0x20, CHR 0x09, CHR 0x0A, CHR 0x0D}"

definition punct :: "char \<Rightarrow> tok option" where
  "punct c =
     (if c = CHR ''{'' then Some TLBrace
      else if c = CHR ''}'' then Some TRBrace
      else if c = CHR ''['' then Some TLBrack
      else if c = CHR '']'' then Some TRBrack
      else if c = CHR '':'' then Some TColon
      else if c = CHR '','' then Some TComma
      else None)"

lemma lex_items_length: "lex_items s = Some (its, r) \<Longrightarrow> length r < length s"
proof (induction s arbitrary: its r rule: measure_induct_rule [of length])
  case (less s)
  have shorter: "length r' < length s" if "lex_items t = Some (its', r')" "length t < length s" for t its' r'
    using less.IH [OF that(2,1)] that(2) by simp
  show ?case
  proof (cases s)
    case (Cons c cs)
    with less.prems show ?thesis
      by (auto split: if_splits list.splits option.splits dest!: shorter)
  qed (use less.prems in simp)
qed

function lex :: "string \<Rightarrow> tok list option" where
  "lex [] = Some []"
| "lex (c # cs) =
     (if json_space c then lex cs
      else
        (case punct c of
           Some t \<Rightarrow> map_option ((#) t) (lex cs)
         | None \<Rightarrow>
             if c = quote_char then
               (case lex_items cs of
                  None \<Rightarrow> None
                | Some (its, r) \<Rightarrow> map_option ((#) (TStr (sanitize (unquote its)))) (lex r))
             else if number_char c then
               (if valid_number (c # takeWhile number_char cs)
                then map_option ((#) (TNum (c # takeWhile number_char cs))) (lex (dropWhile number_char cs))
                else None)
             else if has_prefix (c # cs) ''null'' then map_option ((#) TNull) (lex (drop 3 cs))
             else if has_prefix (c # cs) ''true'' then map_option ((#) TTrue) (lex (drop 3 cs))
             else if has_prefix (c # cs) ''false'' then map_option ((#) TFalse) (lex (drop 4 cs))
             else None))"
  by pat_completeness auto
termination
  by (relation "measure length")
    (auto dest!: lex_items_length intro: le_imp_less_Suc simp: length_dropWhile_le)

declare lex.simps(2) [simp del]

section \<open>Parsing\<close>

text \<open>
  The scanner is a state machine with a stack of open containers (\<open>parseState\<close>): an array
  with its elements so far, or an object with its members so far and the pending key. Opening a
  container when 10000 are open is an error.
\<close>

datatype frame = FArr "json list" | FObj "(string \<times> json) list" string

definition max_nesting :: nat where
  "max_nesting = 10000"

fun pval :: "frame list \<Rightarrow> tok list \<Rightarrow> json option"
  and pkey :: "(string \<times> json) list \<Rightarrow> frame list \<Rightarrow> tok list \<Rightarrow> json option"
  and pnext :: "json \<Rightarrow> frame list \<Rightarrow> tok list \<Rightarrow> json option"
where
  "pval st [] = None"
| "pval st (t # ts) =
     (case t of
        TNull \<Rightarrow> pnext JNull st ts
      | TTrue \<Rightarrow> pnext (JBool True) st ts
      | TFalse \<Rightarrow> pnext (JBool False) st ts
      | TNum n \<Rightarrow> pnext (JNum n) st ts
      | TStr s \<Rightarrow> pnext (JStr s) st ts
      | TLBrack \<Rightarrow>
          if max_nesting \<le> length st then None
          else (case ts of
                  [] \<Rightarrow> None
                | t' # ts' \<Rightarrow> if t' = TRBrack then pnext (JArr []) st ts' else pval (FArr [] # st) ts)
      | TLBrace \<Rightarrow>
          if max_nesting \<le> length st then None
          else (case ts of
                  [] \<Rightarrow> None
                | t' # ts' \<Rightarrow> if t' = TRBrace then pnext (JObj []) st ts' else pkey [] st ts)
      | _ \<Rightarrow> None)"
| "pkey acc st (TStr k # TColon # ts) = pval (FObj acc k # st) ts"
| "pkey acc st ts = None"
| "pnext v [] [] = Some v"
| "pnext v [] (t # ts) = None"
| "pnext v (f # st) [] = None"
| "pnext v (FArr acc # st) (t # ts) =
     (if t = TComma then pval (FArr (v # acc) # st) ts
      else if t = TRBrack then pnext (JArr (rev (v # acc))) st ts
      else None)"
| "pnext v (FObj acc k # st) (t # ts) =
     (if t = TComma then pkey ((k, v) # acc) st ts
      else if t = TRBrace then pnext (JObj (rev ((k, v) # acc))) st ts
      else None)"

definition json_parse :: "string \<Rightarrow> json option" where
  "json_parse s = (case lex s of None \<Rightarrow> None | Some ts \<Rightarrow> pval [] ts)"

section \<open>Marshalling\<close>

definition hex_digit :: "nat \<Rightarrow> char" where
  "hex_digit d = (if d < 10 then digit d else char_of (87 + d))"

text \<open>\<open>appendString\<close> with HTML escaping: one ASCII character.\<close>

definition quote_ascii :: "char \<Rightarrow> string" where
  "quote_ascii c =
     (if c = quote_char \<or> c = backslash then [backslash, c]
      else if c = CHR 0x08 then [backslash, CHR ''b'']
      else if c = CHR 0x0C then [backslash, CHR ''f'']
      else if c = CHR 0x0A then [backslash, CHR ''n'']
      else if c = CHR 0x0D then [backslash, CHR ''r'']
      else if c = CHR 0x09 then [backslash, CHR ''t'']
      else if code c < 0x20 \<or> c \<in> {CHR ''<'', CHR ''>'', CHR ''&''}
        then [backslash, CHR ''u'', CHR ''0'', CHR ''0'', hex_digit (code c div 16), hex_digit (code c mod 16)]
      else [c])"

function quote_body :: "string \<Rightarrow> string" where
  "quote_body s =
     (if s = [] then []
      else if utf8_len s = 0 then backslash # ''ufffd'' @ quote_body (tl s)
      else if utf8_len s = 1 then quote_ascii (hd s) @ quote_body (tl s)
      else if take 3 s = [CHR 0xE2, CHR 0x80, CHR 0xA8] then backslash # ''u2028'' @ quote_body (drop 3 s)
      else if take 3 s = [CHR 0xE2, CHR 0x80, CHR 0xA9] then backslash # ''u2029'' @ quote_body (drop 3 s)
      else take (utf8_len s) s @ quote_body (drop (utf8_len s) s))"
  by pat_completeness auto
termination
  by (relation "measure length") (auto simp: neq_Nil_conv)

declare quote_body.simps [simp del]

definition quote :: "string \<Rightarrow> string" where
  "quote s = quote_char # quote_body s @ [quote_char]"

function marshal :: "json \<Rightarrow> string" where
  "marshal JNull = ''null''"
| "marshal (JBool b) = (if b then ''true'' else ''false'')"
| "marshal (JNum s) = s"
| "marshal (JStr s) = quote s"
| "marshal (JArr js) = CHR ''['' # join '','' (map marshal js) @ '']''"
| "marshal (JObj kvs) = CHR ''{'' # join '','' (map (\<lambda>(k, v). quote k @ CHR '':'' # marshal v) kvs) @ ''}''"
  by pat_completeness auto
termination
  by (relation "measure size") (auto simp: less_Suc_eq_le intro: size_list_estimation')

text \<open>An integer value, and a Go map (whose keys the marshaller sorts) as trees.\<close>

definition jint :: "int \<Rightarrow> json" where
  "jint n = JNum (itoa n)"

definition jmap :: "(string \<times> json) list \<Rightarrow> json" where
  "jmap kvs = JObj (sort_key fst kvs)"


section \<open>Well-formed trees\<close>

fun json_depth :: "json \<Rightarrow> nat" where
  "json_depth (JArr js) = Suc (foldr (\<lambda>j n. max (json_depth j) n) js 0)"
| "json_depth (JObj kvs) = Suc (foldr (\<lambda>p n. max (json_depth (snd p)) n) kvs 0)"
| "json_depth _ = 0"

text \<open>
  What the marshaller may be given: strings in UTF-8 (Go's marshaller would replace other bytes)
  and number literals of the grammar.
\<close>

fun json_ok :: "json \<Rightarrow> bool" where
  "json_ok (JNum s) = valid_number s"
| "json_ok (JStr s) = valid_utf8 s"
| "json_ok (JArr js) = list_all json_ok js"
| "json_ok (JObj kvs) = list_all (\<lambda>p. valid_utf8 (fst p) \<and> json_ok (snd p)) kvs"
| "json_ok _ = True"

fun tjoin :: "tok list list \<Rightarrow> tok list" where
  "tjoin [] = []"
| "tjoin [w] = w"
| "tjoin (w # v # ws) = w @ TComma # tjoin (v # ws)"

fun toks :: "json \<Rightarrow> tok list" where
  "toks JNull = [TNull]"
| "toks (JBool b) = [if b then TTrue else TFalse]"
| "toks (JNum s) = [TNum s]"
| "toks (JStr s) = [TStr s]"
| "toks (JArr js) = TLBrack # tjoin (map toks js) @ [TRBrack]"
| "toks (JObj kvs) = TLBrace # tjoin (map (\<lambda>p. TStr (fst p) # TColon # toks (snd p)) kvs) @ [TRBrace]"

section \<open>Scanning what was marshalled\<close>

subsection \<open>Strings\<close>

definition plain :: "char \<Rightarrow> bool" where
  "plain c \<longleftrightarrow> 0x20 \<le> code c \<and> c \<noteq> quote_char \<and> c \<noteq> backslash"

lemma lex_items_plain:
  "list_all plain cs \<Longrightarrow>
    lex_items (cs @ r) = map_option (\<lambda>(its, r'). (map SB cs @ its, r')) (lex_items r)"
proof (induction cs)
  case Nil
  then show ?case by (cases "lex_items r") auto
next
  case (Cons c cs)
  then show ?case by (cases "lex_items r") (auto simp: plain_def)
qed

lemma unquote_plain [simp]: "unquote (map SB cs @ its) = cs @ unquote its"
  by (induction cs) auto

lemma plain_high: "0x80 \<le> code c \<Longrightarrow> plain c"
  by (auto simp: plain_def quote_char_def backslash_def)

lemma hex_digit_lt: "d < 16 \<Longrightarrow> is_hex (hex_digit d) \<and> hex_val (hex_digit d) = d"
  by (auto simp: hex_digit_def is_hex_def hex_val_def is_digit_def digit_def)

lemma hex_zero: "is_hex (CHR ''0'') \<and> hex_val (CHR ''0'') = 0"
  by (simp add: is_hex_def hex_val_def is_digit_def)

lemma utf8_encode_ascii: "code c < 0x80 \<Longrightarrow> utf8_encode (code c) = [c]"
  by (simp add: utf8_encode_def)

lemma lex_items_backslash:
  "e \<noteq> CHR ''u'' \<Longrightarrow> escape_char e = Some d \<Longrightarrow>
    lex_items (backslash # e # r) = map_option (\<lambda>(its, r'). (SB d # its, r')) (lex_items r)"
  by (simp add: quote_char_def backslash_def)

lemma lex_items_u:
  assumes "is_hex a" "is_hex b" "is_hex c" "is_hex d"
  shows "lex_items (backslash # CHR ''u'' # a # b # c # d # r) =
    map_option (\<lambda>(its, r'). (SU (hex4 a b c d) # its, r')) (lex_items r)"
  using assms by (simp add: quote_char_def backslash_def)

lemma lex_items_u00:
  assumes "n < 0x80"
  shows "lex_items (backslash # CHR ''u'' # CHR ''0'' # CHR ''0'' # hex_digit (n div 16) # hex_digit (n mod 16) # r) =
    map_option (\<lambda>(its, r'). (SU n # its, r')) (lex_items r)"
proof -
  have h: "is_hex (hex_digit (n div 16))" "hex_val (hex_digit (n div 16)) = n div 16"
    "is_hex (hex_digit (n mod 16))" "hex_val (hex_digit (n mod 16)) = n mod 16"
    using hex_digit_lt [of "n div 16"] hex_digit_lt [of "n mod 16"] assms by auto
  show ?thesis
    by (subst lex_items_u) (use h hex_zero in \<open>simp_all add: hex4_def\<close>)
qed

lemma lex_items_quote_ascii:
  assumes "code c < 0x80"
  obtains it where "\<And>r. lex_items (quote_ascii c @ r) = map_option (\<lambda>(its, r'). (it # its, r')) (lex_items r)"
    and "\<And>its. unquote (it # its) = c # unquote its"
proof (cases "c = quote_char \<or> c = backslash \<or> c \<in> {CHR 0x08, CHR 0x0C, CHR 0x0A, CHR 0x0D, CHR 0x09}")
  case True
  have "lex_items (quote_ascii c @ r) = map_option (\<lambda>(its, r'). (SB c # its, r')) (lex_items r)" for r
    using True by (auto simp: quote_ascii_def lex_items_backslash escape_char_def quote_char_def backslash_def)
  then show ?thesis by (rule that) simp
next
  case not_short: False
  show ?thesis
  proof (cases "code c < 0x20 \<or> c \<in> {CHR ''<'', CHR ''>'', CHR ''&''}")
    case True
    have "lex_items (quote_ascii c @ r) = map_option (\<lambda>(its, r'). (SU (code c) # its, r')) (lex_items r)" for r
      using True not_short lex_items_u00 [OF assms, of r] by (auto simp: quote_ascii_def)
    moreover have "unquote (SU (code c) # its) = c # unquote its" for its
      using assms by (simp add: surrogate_def utf8_encode_ascii)
    ultimately show ?thesis by (rule that)
  next
    case False
    then have "quote_ascii c = [c]" "plain c"
      using not_short by (auto simp: quote_ascii_def plain_def)
    then have "lex_items (quote_ascii c @ r) = map_option (\<lambda>(its, r'). (SB c # its, r')) (lex_items r)" for r
      using lex_items_plain [of "[c]" r] by simp
    then show ?thesis by (rule that) simp
  qed
qed

lemma lex_items_2028:
  "lex_items (backslash # ''u2028'' @ r) = map_option (\<lambda>(its, r'). (SU 0x2028 # its, r')) (lex_items r)"
  "lex_items (backslash # ''u2029'' @ r) = map_option (\<lambda>(its, r'). (SU 0x2029 # its, r')) (lex_items r)"
  using lex_items_u [of "CHR ''2''" "CHR ''0''" "CHR ''2''" "CHR ''8''" r]
    lex_items_u [of "CHR ''2''" "CHR ''0''" "CHR ''2''" "CHR ''9''" r]
  by (simp_all add: is_hex_def is_digit_def hex4_def hex_val_def)

lemma utf8_encode_2028:
  "unquote (SU 0x2028 # its) = CHR 0xE2 # CHR 0x80 # CHR 0xA8 # unquote its"
  "unquote (SU 0x2029 # its) = CHR 0xE2 # CHR 0x80 # CHR 0xA9 # unquote its"
proof -
  have "utf8_encode 0x2028 = [CHR 0xE2, CHR 0x80, CHR 0xA8]"
    "utf8_encode 0x2029 = [CHR 0xE2, CHR 0x80, CHR 0xA9]"
    by (simp_all add: utf8_encode_def char_of_def bit_0)
  then show "unquote (SU 0x2028 # its) = CHR 0xE2 # CHR 0x80 # CHR 0xA8 # unquote its"
    "unquote (SU 0x2029 # its) = CHR 0xE2 # CHR 0x80 # CHR 0xA9 # unquote its"
    by (simp_all add: surrogate_def)
qed

lemma take_3_drop: "take 3 s = [a, b, c] \<Longrightarrow> s = a # b # c # drop 3 s"
  by (metis append_Cons append_Nil append_take_drop_id)

lemma utf8_len_2028:
  "utf8_len (CHR 0xE2 # CHR 0x80 # CHR 0xA8 # s) = 3"
  "utf8_len (CHR 0xE2 # CHR 0x80 # CHR 0xA9 # s) = 3"
  by (simp_all add: cont_byte_def)

lemma lex_items_fffd:
  "lex_items (backslash # ''ufffd'' @ r) = map_option (\<lambda>(its, r'). (SU 0xFFFD # its, r')) (lex_items r)"
  "unquote (SU 0xFFFD # its) = rune_error @ unquote its"
  using lex_items_u [of "CHR ''f''" "CHR ''f''" "CHR ''f''" "CHR ''d''" r]
  by (simp_all add: is_hex_def is_digit_def hex4_def hex_val_def surrogate_def utf8_encode_def rune_error_def char_of_def bit_0)

text \<open>Bytes that are not UTF-8 are written as the replacement character.\<close>

lemma lex_quote_body:
  "\<exists>its. lex_items (quote_body s @ quote_char # r) = Some (its, r) \<and> unquote its = sanitize s"
proof (induction s rule: sanitize.induct)
  case (1 s)
  show ?case
  proof (cases "s = []")
    case True
    then show ?thesis by (subst quote_body.simps) (simp add: sanitize.simps [of "[]"])
  next
    case False
    let ?n = "utf8_len s"
    show ?thesis
    proof (cases "?n = 0")
      case True
      obtain its where its: "lex_items (quote_body (tl s) @ quote_char # r) = Some (its, r)" "unquote its = sanitize (tl s)"
        using "1.IH"(1) [OF False True] by blast
      have "quote_body s = (backslash # ''ufffd'') @ quote_body (tl s)" using True False by (subst quote_body.simps) simp
      moreover have "sanitize s = rune_error @ sanitize (tl s)" using True False by (subst sanitize.simps) simp
      ultimately show ?thesis
        using its lex_items_fffd(1) [of "quote_body (tl s) @ quote_char # r"] by (auto simp: lex_items_fffd(2) simp del: unquote.simps)
    next
    case n0: False
    obtain its where
      its: "lex_items (quote_body (drop ?n s) @ quote_char # r) = Some (its, r)" "unquote its = sanitize (drop ?n s)"
      using "1.IH"(2) [OF False n0] by blast
    have san: "sanitize s = take ?n s @ sanitize (drop ?n s)" using False n0 by (subst sanitize.simps) simp
    consider (one) "?n = 1" | (ls) "?n \<noteq> 1" "take 3 s = [CHR 0xE2, CHR 0x80, CHR 0xA8]"
      | (ps) "?n \<noteq> 1" "take 3 s = [CHR 0xE2, CHR 0x80, CHR 0xA9]"
      | (raw) "2 \<le> ?n" "take 3 s \<noteq> [CHR 0xE2, CHR 0x80, CHR 0xA8]" "take 3 s \<noteq> [CHR 0xE2, CHR 0x80, CHR 0xA9]"
      using n0 by linarith
    then show ?thesis
    proof cases
      case one
      obtain c cs where s: "s = c # cs" using False by (cases s) auto
      with one have asc: "code c < 0x80" by (metis utf8_len_1)
      obtain it where it: "\<And>r. lex_items (quote_ascii c @ r) = map_option (\<lambda>(its, r'). (it # its, r')) (lex_items r)"
        "\<And>its. unquote (it # its) = c # unquote its"
        using lex_items_quote_ascii [OF asc] by blast
      have "quote_body s = quote_ascii c @ quote_body cs"
        using one s by (subst quote_body.simps) simp
      then show ?thesis using it its one s san by auto
    next
      case ls
      then have s: "s = CHR 0xE2 # CHR 0x80 # CHR 0xA8 # drop 3 s" by (intro take_3_drop)
      then have n3: "?n = 3" by (metis utf8_len_2028(1))
      have "quote_body s = (backslash # ''u2028'') @ quote_body (drop 3 s)"
        using ls n3 False by (subst quote_body.simps) simp
      then have "lex_items (quote_body s @ quote_char # r) = Some (SU 0x2028 # its, r)"
        using lex_items_2028(1) [of "quote_body (drop 3 s) @ quote_char # r"] its n3 by simp
      then show ?thesis using its(2) n3 ls(2) utf8_encode_2028(1) san by simp
    next
      case ps
      then have s: "s = CHR 0xE2 # CHR 0x80 # CHR 0xA9 # drop 3 s" by (intro take_3_drop)
      then have n3: "?n = 3" by (metis utf8_len_2028(2))
      have "quote_body s = (backslash # ''u2029'') @ quote_body (drop 3 s)"
        using ps n3 False by (subst quote_body.simps) simp
      then have "lex_items (quote_body s @ quote_char # r) = Some (SU 0x2029 # its, r)"
        using lex_items_2028(2) [of "quote_body (drop 3 s) @ quote_char # r"] its n3 by simp
      then show ?thesis using its(2) n3 ps(2) utf8_encode_2028(2) san by simp
    next
      case raw
      have q: "quote_body s = take ?n s @ quote_body (drop ?n s)"
        using raw False by (subst quote_body.simps) simp
      have "list_all plain (take ?n s)"
        using utf8_chunk_high [OF raw(1)] by (auto simp: list_all_iff intro: plain_high)
      then have "lex_items (quote_body s @ quote_char # r) = Some (map SB (take ?n s) @ its, r)"
        using q its by (simp add: lex_items_plain)
      then show ?thesis using its(2) san by simp
    qed
    qed
  qed
qed


subsection \<open>Numbers\<close>

text \<open>\<open>reads s r\<close>: \<open>r\<close> is what is left of \<open>s\<close> after some number characters.\<close>

definition reads :: "string \<Rightarrow> string \<Rightarrow> bool" where
  "reads s r \<longleftrightarrow> (\<exists>p. s = p @ r \<and> list_all number_char p)"

lemma reads_refl: "reads s s"
  by (simp add: reads_def)

lemma reads_Cons: "number_char c \<Longrightarrow> reads s r \<Longrightarrow> reads (c # s) r"
proof -
  assume c: "number_char c" and "reads s r"
  then obtain p where "s = p @ r" "list_all number_char p" by (auto simp: reads_def)
  with c have "c # s = (c # p) @ r" "list_all number_char (c # p)" by simp_all
  then show ?thesis unfolding reads_def by blast
qed

lemma reads_trans: "reads s t \<Longrightarrow> reads t r \<Longrightarrow> reads s r"
proof -
  assume "reads s t" "reads t r"
  then obtain p q where "s = p @ t" "list_all number_char p" "t = q @ r" "list_all number_char q"
    by (auto simp: reads_def)
  then have "s = (p @ q) @ r" "list_all number_char (p @ q)" by simp_all
  then show ?thesis unfolding reads_def by blast
qed

lemma reads_digits: "reads s (dropWhile is_digit s)"
  by (induction s) (auto intro: reads_Cons reads_refl simp: number_char_def)

lemma reads_sign: "reads s (snd (num_sign s))"
  by (auto simp: num_sign_def number_char_def intro: reads_Cons reads_refl split: list.split)

lemma reads_exp_sign: "reads s (snd (exp_sign s))"
  by (auto simp: exp_sign_def number_char_def intro: reads_Cons reads_refl split: list.split)

lemma reads_frac: "reads s (snd (num_frac s))"
  by (auto simp: num_frac_def number_char_def intro: reads_Cons reads_refl reads_digits split: list.split)

lemma reads_exp: "reads s (snd (num_exp s))"
proof (cases s)
  case (Cons c r)
  have "reads r (dropWhile is_digit (snd (exp_sign r)))"
    by (rule reads_trans [OF reads_exp_sign reads_digits])
  with Cons show ?thesis
    by (auto simp: num_exp_def number_char_def case_prod_beta Let_def intro: reads_Cons reads_refl)
qed (simp add: num_exp_def reads_refl)

lemma number_parts_reads:
  assumes "number_parts s = (neg, ip, fp, ep, rest)"
  shows "reads s rest"
proof -
  let ?s1 = "snd (num_sign s)"
  let ?s3 = "snd (num_frac (dropWhile is_digit ?s1))"
  have "rest = snd (num_exp ?s3)"
    using assms by (simp add: number_parts_def case_prod_beta Let_def)
  moreover have "reads s ?s1" "reads ?s1 (dropWhile is_digit ?s1)"
    "reads (dropWhile is_digit ?s1) ?s3" "reads ?s3 (snd (num_exp ?s3))"
    by (rule reads_sign reads_digits reads_frac reads_exp)+
  ultimately show ?thesis by (blast intro: reads_trans)
qed

lemma valid_number_chars: "valid_number s \<Longrightarrow> list_all number_char s \<and> s \<noteq> []"
proof -
  assume v: "valid_number s"
  obtain neg ip fp ep rest where np: "number_parts s = (neg, ip, fp, ep, rest)"
    by (metis surj_pair)
  with v have "rest = []" by (simp add: valid_number_def)
  with number_parts_reads [OF np] have "list_all number_char s" by (simp add: reads_def)
  moreover have "s \<noteq> []" using v by (auto simp: valid_number_def number_parts_def num_sign_def num_frac_def num_exp_def)
  ultimately show ?thesis by simp
qed

definition delimited :: "string \<Rightarrow> bool" where
  "delimited r \<longleftrightarrow> (r = [] \<or> \<not> number_char (hd r))"

lemma number_char_other:
  "number_char c \<Longrightarrow> \<not> json_space c \<and> punct c = None \<and> c \<noteq> quote_char"
proof -
  assume c: "number_char c"
  have "\<not> number_char d"
    if "d \<in> {CHR 0x20, CHR 0x09, CHR 0x0A, CHR 0x0D, CHR ''{'', CHR ''}'', CHR ''['', CHR '']'', CHR '':'', CHR '','', CHR 0x22}" for d
    using that by (elim insertE) (simp_all add: number_char_def is_digit_def)
  then have "c \<notin> {CHR 0x20, CHR 0x09, CHR 0x0A, CHR 0x0D, CHR ''{'', CHR ''}'', CHR ''['', CHR '']'', CHR '':'', CHR '','', CHR 0x22}"
    using c by blast
  then show ?thesis by (simp add: json_space_def punct_def quote_char_def)
qed

lemma lex_number:
  assumes "valid_number s" "delimited r"
  shows "lex (s @ r) = map_option ((#) (TNum s)) (lex r)"
proof -
  obtain c cs where s: "s = c # cs" "number_char c" "list_all number_char cs"
    using valid_number_chars [OF assms(1)] by (cases s) auto
  have "takeWhile number_char (cs @ r) = cs" "dropWhile number_char (cs @ r) = r"
    using s(3) assms(2)
    by (cases r, auto simp: delimited_def list_all_iff takeWhile_append dropWhile_append)+
  then show ?thesis
    using s assms(1) number_char_other [OF s(2)] by (simp add: lex.simps(2))
qed

lemma takeWhile_digits: "list_all is_digit s \<Longrightarrow> takeWhile is_digit s = s \<and> dropWhile is_digit s = []"
  by (induction s) auto

lemma nat_str_no_leading_zero: "hd (nat_str n) = CHR ''0'' \<Longrightarrow> length (nat_str n) = 1"
proof (induction n rule: nat_str.induct)
  case (1 n)
  show ?case
  proof (cases "n < 10")
    case True
    then show ?thesis by (subst nat_str.simps) simp
  next
    case False
    then have eq: "nat_str n = nat_str (n div 10) @ [digit (n mod 10)]"
      by (subst nat_str.simps) simp
    with "1.prems" have "hd (nat_str (n div 10)) = CHR ''0''" by simp
    with "1.IH" False have "length (nat_str (n div 10)) = 1" by simp
    then have d: "nat_str (n div 10) = [CHR ''0'']"
      using \<open>hd (nat_str (n div 10)) = CHR ''0''\<close> by (cases "nat_str (n div 10)") auto
    then have "str_nat (nat_str (n div 10)) = 0" by (simp add: str_nat_def)
    with False show ?thesis by simp
  qed
qed

lemma valid_number_nat_str:
  assumes "s = nat_str n \<or> s = CHR ''-'' # nat_str n"
  shows "valid_number s"
proof -
  obtain c cs where c: "nat_str n = c # cs" by (meson neq_Nil_conv nat_str_nonempty)
  have dig: "list_all is_digit (c # cs)" using nat_str_digits [of n] c by simp
  then have neg: "c \<noteq> CHR ''-''" by auto
  have "takeWhile is_digit (c # cs) = c # cs" "dropWhile is_digit (c # cs) = []"
    using takeWhile_digits [OF dig] by auto
  then have "number_parts s = (s \<noteq> nat_str n, nat_str n, None, None, [])"
    using assms c neg by (auto simp: number_parts_def num_sign_def num_frac_def num_exp_def)
  then show ?thesis
    using nat_str_no_leading_zero [of n] by (simp add: valid_number_def)
qed

lemma valid_number_itoa [simp]: "valid_number (itoa n)"
  using valid_number_nat_str [of "itoa n" "nat (- n)"] valid_number_nat_str [of "itoa n" "nat n"]
  by (auto simp: itoa_def)

subsection \<open>Documents\<close>

lemma lex_punct:
  "\<not> json_space c \<Longrightarrow> punct c = Some t \<Longrightarrow> lex (c # r) = map_option ((#) t) (lex r)"
  by (simp add: lex.simps(2))

lemma lex_puncts [simp]:
  "lex (CHR '','' # r) = map_option ((#) TComma) (lex r)"
  "lex (CHR '':'' # r) = map_option ((#) TColon) (lex r)"
  "lex (CHR ''['' # r) = map_option ((#) TLBrack) (lex r)"
  "lex (CHR '']'' # r) = map_option ((#) TRBrack) (lex r)"
  "lex (CHR ''{'' # r) = map_option ((#) TLBrace) (lex r)"
  "lex (CHR ''}'' # r) = map_option ((#) TRBrace) (lex r)"
  by (rule lex_punct; simp add: json_space_def punct_def)+

lemma lex_quote_any: "lex (quote s @ r) = map_option ((#) (TStr (sanitize s))) (lex r)"
proof -
  obtain its where "lex_items (quote_body s @ quote_char # r) = Some (its, r)" "unquote its = sanitize s"
    using lex_quote_body by blast
  moreover have "\<not> json_space quote_char" "punct quote_char = None"
    by (simp_all add: json_space_def punct_def quote_char_def)
  ultimately show ?thesis
    using sanitize_valid [OF valid_sanitize [of s]] by (simp add: quote_def lex.simps(2))
qed

lemma lex_quote: "valid_utf8 s \<Longrightarrow> lex (quote s @ r) = map_option ((#) (TStr s)) (lex r)"
  by (simp add: lex_quote_any sanitize_valid)

lemma lex_literals [simp]:
  "lex (''null'' @ r) = map_option ((#) TNull) (lex r)"
  "lex (''true'' @ r) = map_option ((#) TTrue) (lex r)"
  "lex (''false'' @ r) = map_option ((#) TFalse) (lex r)"
  by (simp_all add: lex.simps(2) json_space_def punct_def quote_char_def number_char_def is_digit_def has_prefix_def)

lemma delimited_simps [simp]:
  "delimited []" "delimited (CHR '','' # r)" "delimited (CHR '']'' # r)" "delimited (CHR ''}'' # r)"
  by (simp_all add: delimited_def number_char_def is_digit_def)

lemma lex_join:
  assumes "\<And>x r. x \<in> set xs \<Longrightarrow> delimited r \<Longrightarrow> lex (f x @ r) = map_option ((@) (g x)) (lex r)"
    and "delimited r"
  shows "lex (join '','' (map f xs) @ r) = map_option ((@) (tjoin (map g xs))) (lex r)"
  using assms
proof (induction xs rule: induct_list012)
  case 1
  then show ?case by (cases "lex r") auto
next
  case (2 x)
  then show ?case by simp
next
  case (3 x y zs)
  have "lex (f x @ CHR '','' # join '','' (map f (y # zs)) @ r) =
      map_option ((@) (g x)) (lex (CHR '','' # join '','' (map f (y # zs)) @ r))"
    by (rule "3.prems") simp_all
  also have "lex (join '','' (map f (y # zs)) @ r) = map_option ((@) (tjoin (map g (y # zs)))) (lex r)"
    by (rule "3.IH") (use "3.prems" in auto)
  ultimately show ?case by (cases "lex r") simp_all
qed

lemma lex_marshal:
  "json_ok j \<Longrightarrow> delimited r \<Longrightarrow> lex (marshal j @ r) = map_option ((@) (toks j)) (lex r)"
proof (induction j arbitrary: r rule: marshal.induct)
  case 1
  then show ?case using lex_literals(1) [of r] by (cases "lex r") auto
next
  case (2 b)
  then show ?case using lex_literals(2,3) [of r] by (cases "lex r") auto
next
  case (3 s)
  then show ?case by (cases "lex r") (auto simp: lex_number)
next
  case (4 s)
  then show ?case by (cases "lex r") (auto simp: lex_quote)
next
  case (5 js)
  have "lex (join '','' (map marshal js) @ CHR '']'' # r) =
      map_option ((@) (tjoin (map toks js))) (lex (CHR '']'' # r))"
    by (rule lex_join) (use 5 in \<open>auto simp: list_all_iff\<close>)
  then show ?case by (cases "lex r") auto
next
  case (6 kvs)
  have "lex (join '','' (map (\<lambda>(k, v). quote k @ CHR '':'' # marshal v) kvs) @ CHR ''}'' # r) =
      map_option ((@) (tjoin (map (\<lambda>p. TStr (fst p) # TColon # toks (snd p)) kvs))) (lex (CHR ''}'' # r))"
  proof (rule lex_join)
    fix x r assume x: "x \<in> set kvs" and r: "delimited r"
    obtain k v where kv: "x = (k, v)" by (cases x)
    have ok: "valid_utf8 k" "json_ok v" using 6 x kv by (auto simp: list_all_iff)
    have "lex (marshal v @ r) = map_option ((@) (toks v)) (lex r)"
      using "6.IH" [OF x kv [symmetric] ok(2) r] .
    then show "lex ((case x of (k, v) \<Rightarrow> quote k @ CHR '':'' # marshal v) @ r) =
        map_option ((@) (TStr (fst x) # TColon # toks (snd x))) (lex r)"
      using kv ok(1) by (cases "lex r") (auto simp: lex_quote)
  qed simp
  then show ?case by (cases "lex r") auto
qed


section \<open>Parsing what was marshalled\<close>

lemma toks_first: "\<exists>t ts. toks j = t # ts \<and> t \<noteq> TRBrack \<and> t \<noteq> TRBrace"
  by (cases j) auto

lemma tjoin_first: "w \<noteq> [] \<Longrightarrow> \<exists>r. tjoin (w # ws) = w @ r"
  by (cases ws) auto

lemma depth_member:
  "x \<in> set js \<Longrightarrow> json_depth x \<le> foldr (\<lambda>j n. max (json_depth j) n) js 0"
  "p \<in> set kvs \<Longrightarrow> json_depth (snd p) \<le> foldr (\<lambda>p n. max (json_depth (snd p)) n) kvs 0"
  by (induction js) (auto, induction kvs, auto)

lemma pval_elements:
  assumes "\<And>x st ts. x \<in> set js \<Longrightarrow> json_depth x + length st \<le> max_nesting \<Longrightarrow>
      pval st (toks x @ ts) = pnext x st ts"
    and "\<And>x. x \<in> set js \<Longrightarrow> json_depth x + Suc (length st) \<le> max_nesting"
    and "js \<noteq> []"
  shows "pval (FArr acc # st) (tjoin (map toks js) @ TRBrack # ts) = pnext (JArr (rev acc @ js)) st ts"
  using assms
proof (induction js arbitrary: acc rule: induct_list012)
  case (3 x y zs)
  have "pval (FArr acc # st) (toks x @ TComma # tjoin (map toks (y # zs)) @ TRBrack # ts) =
      pnext x (FArr acc # st) (TComma # tjoin (map toks (y # zs)) @ TRBrack # ts)"
    by (rule "3.prems"(1)) (use "3.prems"(2) in auto)
  also have "\<dots> = pval (FArr (x # acc) # st) (tjoin (map toks (y # zs)) @ TRBrack # ts)" by simp
  also have "\<dots> = pnext (JArr (rev (x # acc) @ y # zs)) st ts"
    by (rule "3.IH"(2)) (use "3.prems" in auto)
  finally show ?case by simp
qed simp_all

lemma pval_members:
  assumes "\<And>p st ts. p \<in> set kvs \<Longrightarrow> json_depth (snd p) + length st \<le> max_nesting \<Longrightarrow>
      pval st (toks (snd p) @ ts) = pnext (snd p) st ts"
    and "\<And>p. p \<in> set kvs \<Longrightarrow> json_depth (snd p) + Suc (length st) \<le> max_nesting"
    and "kvs \<noteq> []"
  shows "pkey acc st (tjoin (map (\<lambda>p. TStr (fst p) # TColon # toks (snd p)) kvs) @ TRBrace # ts) =
    pnext (JObj (rev acc @ kvs)) st ts"
  using assms
proof (induction kvs arbitrary: acc rule: induct_list012)
  case (3 p q zs)
  let ?rest = "tjoin (map (\<lambda>p. TStr (fst p) # TColon # toks (snd p)) (q # zs)) @ TRBrace # ts"
  have "pval (FObj acc (fst p) # st) (toks (snd p) @ TComma # ?rest) =
      pnext (snd p) (FObj acc (fst p) # st) (TComma # ?rest)"
    by (rule "3.prems"(1)) (use "3.prems"(2) in auto)
  also have "\<dots> = pkey ((fst p, snd p) # acc) st ?rest" by simp
  also have "\<dots> = pnext (JObj (rev (p # acc) @ q # zs)) st ts"
    using "3.IH"(2) [of "p # acc"] "3.prems" by simp
  finally show ?case by simp
qed simp_all

lemma pval_toks:
  "json_depth j + length st \<le> max_nesting \<Longrightarrow> pval st (toks j @ ts) = pnext j st ts"
proof (induction j arbitrary: st ts rule: marshal.induct)
  case (5 js)
  show ?case
  proof (cases "js = []")
    case True
    with "5.prems" show ?thesis by simp
  next
    case False
    then obtain x xs where js: "js = x # xs" by (cases js) auto
    obtain t r where first: "tjoin (map toks js) = t # r" "t \<noteq> TRBrack"
      using toks_first [of x] tjoin_first [of "toks x" "map toks xs"] js by auto
    have "pval st (toks (JArr js) @ ts) = pval (FArr [] # st) (tjoin (map toks js) @ TRBrack # ts)"
      using "5.prems" first by simp
    also have "\<dots> = pnext (JArr (rev [] @ js)) st ts"
      by (rule pval_elements)
        (use "5.IH" "5.prems" False depth_member(1) [of _ js] in \<open>auto intro: order.trans [rotated]\<close>)
    finally show ?thesis by simp
  qed
next
  case (6 kvs)
  show ?case
  proof (cases "kvs = []")
    case True
    with "6.prems" show ?thesis by simp
  next
    case False
    then obtain x xs where kvs: "kvs = x # xs" by (cases kvs) auto
    obtain t r where first: "tjoin (map (\<lambda>p. TStr (fst p) # TColon # toks (snd p)) kvs) = t # r" "t \<noteq> TRBrace"
      using tjoin_first [of "TStr (fst x) # TColon # toks (snd x)"
          "map (\<lambda>p. TStr (fst p) # TColon # toks (snd p)) xs"] kvs by auto
    have "pval st (toks (JObj kvs) @ ts) =
        pkey [] st (tjoin (map (\<lambda>p. TStr (fst p) # TColon # toks (snd p)) kvs) @ TRBrace # ts)"
      using "6.prems" first by simp
    also have "\<dots> = pnext (JObj (rev [] @ kvs)) st ts"
    proof (rule pval_members)
      show "pval st (toks (snd p) @ ts) = pnext (snd p) st ts"
        if "p \<in> set kvs" "json_depth (snd p) + length st \<le> max_nesting" for p st ts
        using "6.IH" [of p "fst p" "snd p"] that by simp
      show "json_depth (snd p) + Suc (length st) \<le> max_nesting" if "p \<in> set kvs" for p
        using depth_member(2) [OF that] "6.prems" by simp
    qed (use False in simp)
    finally show ?thesis by simp
  qed
qed simp_all

lemma json_parse_marshal:
  assumes "json_ok j" "json_depth j \<le> max_nesting"
  shows "json_parse (marshal j) = Some j"
proof -
  have "lex (marshal j @ []) = map_option ((@) (toks j)) (lex [])"
    by (rule lex_marshal) (use assms in simp_all)
  then have "lex (marshal j) = Some (toks j)" by simp
  moreover have "pval [] (toks j @ []) = pnext j [] []"
    by (rule pval_toks) (use assms in simp)
  ultimately show ?thesis by (simp add: json_parse_def)
qed

end
