(* ===== verification/JsonDecode.thy ===== *)
theory JsonDecode
  imports Json "HOL-Library.Log_Nat"
begin

text \<open>
  \<open>json.Unmarshal\<close> into typed Go values. A decoder takes a tree and the value already in
  the variable and returns the new value and whether the types agreed: Go goes on after a type
  mismatch, keeps what it could decode and reports the first mismatch at the end. \<open>null\<close>
  leaves anything but a pointer as it was, member names match up to case folding, a repeated
  member is decoded again over the first, and unknown members are skipped.
\<close>

type_synonym 'a dec = "json \<Rightarrow> 'a \<Rightarrow> 'a \<times> bool"

section \<open>Scalars\<close>

definition dec_string :: "string dec" where
  "dec_string j v = (case j of JStr s \<Rightarrow> (s, True) | JNull \<Rightarrow> (v, True) | _ \<Rightarrow> (v, False))"

definition dec_bool :: "bool dec" where
  "dec_bool j v = (case j of JBool b \<Rightarrow> (b, True) | JNull \<Rightarrow> (v, True) | _ \<Rightarrow> (v, False))"

text \<open>A Go \<open>int\<close>: the literal must be a plain integer that fits 64 bits.\<close>

definition dec_int :: "int dec" where
  "dec_int j v =
     (case j of
        JNum lit \<Rightarrow> (case atoi lit of Some n \<Rightarrow> (n, True) | None \<Rightarrow> (v, False))
      | JNull \<Rightarrow> (v, True)
      | _ \<Rightarrow> (v, False))"

subsection \<open>float64\<close>

text \<open>The exact value of a number literal.\<close>

definition lit_value :: "string \<Rightarrow> rat" where
  "lit_value s =
     (let (neg, ip, fp, ep, rest) = number_parts s;
          f = (case fp of None \<Rightarrow> [] | Some ds \<Rightarrow> ds);
          mant = of_nat (str_nat (ip @ f)) / 10 ^ length f;
          scaled = (case ep of
                      None \<Rightarrow> mant
                    | Some (eneg, ds) \<Rightarrow> (if eneg then mant / 10 ^ str_nat ds else mant * 10 ^ str_nat ds))
      in if neg then - scaled else scaled)"

text \<open>
  Rounding to float64, ties to even: \<open>scale q\<close> is the exponent of the last place of the
  result (subnormals stop at -1074). A magnitude of \<open>2 ^ 1024\<close> or more overflows, which
  \<open>ParseFloat\<close> reports as an error.
\<close>

definition pow2 :: "int \<Rightarrow> rat" where
  "pow2 e = (if 0 \<le> e then 2 ^ nat e else 1 / 2 ^ nat (- e))"

definition floor_log2 :: "rat \<Rightarrow> int" where
  "floor_log2 q =
     (let (a, b) = quotient_of q;
          k = int (floorlog 2 (nat a)) - int (floorlog 2 (nat b))
      in if pow2 k \<le> q then k else k - 1)"

definition scale :: "rat \<Rightarrow> int" where
  "scale q = max (floor_log2 q - 52) (- 1074)"

definition round_even :: "rat \<Rightarrow> int" where
  "round_even q =
     (let f = \<lfloor>q\<rfloor>; d = q - of_int f
      in if d < 1 / 2 then f else if 1 / 2 < d then f + 1 else if even f then f else f + 1)"

definition round_f64 :: "rat \<Rightarrow> rat option" where
  "round_f64 q =
     (if q = 0 then Some 0
      else
        (let e = scale \<bar>q\<bar>; r = of_int (round_even (\<bar>q\<bar> / pow2 e)) * pow2 e
         in if pow2 1024 \<le> r then None else Some (if q < 0 then - r else r)))"

definition dec_float :: "rat dec" where
  "dec_float j v =
     (case j of
        JNum lit \<Rightarrow> (case round_f64 (lit_value lit) of Some x \<Rightarrow> (x, True) | None \<Rightarrow> (v, False))
      | JNull \<Rightarrow> (v, True)
      | _ \<Rightarrow> (v, False))"

section \<open>Pointers and structs\<close>

text \<open>A pointer is allocated (at the type's zero value) before the value is decoded into it.\<close>

definition dec_ptr :: "'a \<Rightarrow> 'a dec \<Rightarrow> 'a option dec" where
  "dec_ptr zero d j v =
     (case j of
        JNull \<Rightarrow> (None, True)
      | _ \<Rightarrow>
          (let (x, ok) = d j (case v of Some x \<Rightarrow> x | None \<Rightarrow> zero) in (Some x, ok)))"

text \<open>A field of a struct: how to read it, how to write it, how to decode it.\<close>

definition field :: "('r \<Rightarrow> 'a) \<Rightarrow> ('a \<Rightarrow> 'r \<Rightarrow> 'r) \<Rightarrow> 'a dec \<Rightarrow> 'r dec" where
  "field get put d j r = (let (x, ok) = d j (get r) in (put x r, ok))"

definition find_field :: "(string \<times> 'r dec) list \<Rightarrow> string \<Rightarrow> 'r dec option" where
  "find_field fs k =
     (case map_of fs k of
        Some d \<Rightarrow> Some d
      | None \<Rightarrow> map_option snd (find (\<lambda>f. equal_fold (fst f) k) fs))"

fun dec_members :: "(string \<times> 'r dec) list \<Rightarrow> (string \<times> json) list \<Rightarrow> 'r \<Rightarrow> 'r \<times> bool" where
  "dec_members fs [] r = (r, True)"
| "dec_members fs ((k, j) # kvs) r =
     (let (r', ok) = (case find_field fs k of None \<Rightarrow> (r, True) | Some d \<Rightarrow> d j r);
          (r'', ok') = dec_members fs kvs r'
      in (r'', ok \<and> ok'))"

definition dec_struct :: "(string \<times> 'r dec) list \<Rightarrow> 'r dec" where
  "dec_struct fs j r =
     (case j of JObj kvs \<Rightarrow> dec_members fs kvs r | JNull \<Rightarrow> (r, True) | _ \<Rightarrow> (r, False))"

text \<open>
  \<open>json.Unmarshal\<close>: None when the text is not JSON or a type does not match.
\<close>

definition unmarshal :: "'a dec \<Rightarrow> 'a \<Rightarrow> string \<Rightarrow> 'a option" where
  "unmarshal d zero s =
     (case json_parse s of
        None \<Rightarrow> None
      | Some j \<Rightarrow> (let (x, ok) = d j zero in if ok then Some x else None))"

section \<open>The raw text of a member\<close>

text \<open>
  \<open>json.RawMessage\<close> keeps the bytes of a value as they stand in the text. The scanner below is for
  text that has already parsed: it finds where a value ends by strings and brackets alone. A string
  scanner starts behind the opening quote, a bracket scanner behind the first bracket.
\<close>

fun raw_string :: "string \<Rightarrow> string \<times> string" where
  "raw_string (c # d # r) =
     (if c = quote_char then ([c], d # r)
      else if c = backslash then (let (b, rest) = raw_string r in (c # d # b, rest))
      else (let (b, rest) = raw_string (d # r) in (c # b, rest)))"
| "raw_string r = (r, [])"

lemma raw_string_length: "length (snd (raw_string r)) \<le> length r"
  by (induction r rule: raw_string.induct) (auto split: prod.splits)

function raw_brackets :: "nat \<Rightarrow> string \<Rightarrow> string \<times> string" where
  "raw_brackets n r =
     (if n = 0 then ([], r)
      else
        (case r of
           [] \<Rightarrow> ([], [])
         | c # r' \<Rightarrow>
             if c = quote_char then
               (let (s, rest) = raw_string r'; (b, rest') = raw_brackets n rest in (c # s @ b, rest'))
             else
               (let n' = (if c = CHR ''{'' \<or> c = CHR ''['' then n + 1
                          else if c = CHR ''}'' \<or> c = CHR '']'' then n - 1 else n);
                    (b, rest) = raw_brackets n' r'
                in (c # b, rest))))"
  by pat_completeness auto
termination
proof (relation "measure (\<lambda>(n, r). length r)", goal_cases)
  case (2 n r c r' x s rest)
  then show ?case using raw_string_length [of r'] by (metis (no_types) case_prod_conv in_measure le_imp_less_Suc length_Cons snd_conv)
qed auto

declare raw_brackets.simps [simp del]

definition raw_value :: "string \<Rightarrow> string \<times> string" where
  "raw_value s =
     (case s of
        [] \<Rightarrow> ([], [])
      | c # r \<Rightarrow>
          if c = quote_char then (let (b, rest) = raw_string r in (c # b, rest))
          else if c = CHR ''{'' \<or> c = CHR ''['' then (let (b, rest) = raw_brackets 1 r in (c # b, rest))
          else
            (let stop = (\<lambda>d. json_space d \<or> d = CHR '','' \<or> d = CHR ''}'' \<or> d = CHR '']'')
             in (takeWhile (\<lambda>d. \<not> stop d) s, dropWhile (\<lambda>d. \<not> stop d) s)))"

text \<open>
  The members of an object whose text starts behind the opening brace: the decoded names and the raw
  values. There are fewer members than bytes, so the length of the text is enough fuel.
\<close>

fun raw_members :: "nat \<Rightarrow> string \<Rightarrow> (string \<times> string) list" where
  "raw_members 0 s = []"
| "raw_members (Suc n) s =
     (let s1 = dropWhile (\<lambda>c. json_space c \<or> c = CHR '','') s
      in if s1 = [] \<or> hd s1 = CHR ''}'' then []
         else
           (let (key, s2) = raw_value s1;
                s3 = dropWhile (\<lambda>c. json_space c \<or> c = CHR '':'') s2;
                (val, s4) = raw_value s3;
                name = (case lex_items (tl key) of Some (items, _) \<Rightarrow> unquote items | None \<Rightarrow> [])
            in (name, val) # raw_members n s4))"

definition raw_object :: "string \<Rightarrow> (string \<times> string) list" where
  "raw_object s =
     (let s1 = dropWhile json_space s
      in if s1 \<noteq> [] \<and> hd s1 = CHR ''{'' then raw_members (length s) (tl s1) else [])"

section \<open>Facts\<close>

lemma dec_string_str [simp]: "dec_string (JStr s) v = (s, True)"
  by (simp add: dec_string_def)

lemma dec_int_jint [simp]: "int64_range n \<Longrightarrow> dec_int (jint n) v = (n, True)"
  by (simp add: dec_int_def jint_def atoi_itoa)

lemma unmarshal_marshal:
  "json_ok j \<Longrightarrow> json_depth j \<le> max_nesting \<Longrightarrow>
    unmarshal d zero (marshal j) = (let (x, ok) = d j zero in if ok then Some x else None)"
  by (simp add: unmarshal_def json_parse_marshal)

lemma find_field_exact: "map_of fs k = Some d \<Longrightarrow> find_field fs k = Some d"
  by (simp add: find_field_def)

lemma find_field_none: "list_all (\<lambda>f. \<not> equal_fold (fst f) k) fs \<Longrightarrow> find_field fs k = None"
proof -
  assume *: "list_all (\<lambda>f. \<not> equal_fold (fst f) k) fs"
  then have "map_of fs k = None"
    by (induction fs) (auto simp: equal_fold_def)
  moreover have "find (\<lambda>f. equal_fold (fst f) k) fs = None"
    using * by (auto simp: find_None_iff list_all_iff)
  ultimately show ?thesis by (simp add: find_field_def)
qed

subsection \<open>Small integers are exact in float64\<close>

lemma floor_log2_nat:
  assumes "0 < n"
  shows "floor_log2 (of_nat n) = int (floorlog 2 n) - 1"
proof -
  let ?L = "floorlog 2 n"
  have q: "quotient_of (rat_of_nat n) = (int n, 1)"
    using quotient_of_int [of "int n"] by (simp add: Rat.of_int_def)
  have one: "floorlog 2 1 = 1" by (simp add: floorlog_def)
  have b: "2 ^ (?L - 1) \<le> n" using floorlog_bounds [of n 2] assms by simp
  have "0 < ?L" using assms by (simp add: floorlog_def)
  then have "pow2 (int ?L - 1) = of_nat (2 ^ (?L - 1))" by (simp add: pow2_def nat_diff_distrib)
  then have "pow2 (int ?L - 1) \<le> of_nat n" using b of_nat_le_iff by metis
  then show ?thesis by (simp add: floor_log2_def q one [simplified] Let_def)
qed

lemma round_even_int [simp]: "round_even (of_int n) = n"
  by (simp add: round_even_def)

lemma round_f64_nat:
  assumes "n < 2 ^ 53"
  shows "round_f64 (of_nat n) = Some (of_nat n)"
proof (cases "n = 0")
  case False
  have L: "floorlog 2 n \<le> 53" using assms by (intro floorlog_leI) simp_all
  define m where "m = nat (- scale (of_nat n))"
  have e: "scale (of_nat n) = - int m"
    using L floor_log2_nat [of n] False by (simp add: scale_def m_def)
  have p: "pow2 (- int m) = 1 / 2 ^ m" by (simp add: pow2_def)
  have "of_nat n / pow2 (- int m) = rat_of_int (int n * 2 ^ m)" by (simp add: p)
  then have "round_even (of_nat n / pow2 (- int m)) = int n * 2 ^ m" by (metis round_even_int)
  moreover have "rat_of_int (int n * 2 ^ m) * pow2 (- int m) = of_nat n" by (simp add: p)
  moreover have "\<not> pow2 1024 \<le> rat_of_nat n"
  proof -
    have "rat_of_nat n < rat_of_nat (2 ^ 53)" using assms of_nat_less_iff by blast
    also have "\<dots> \<le> pow2 1024" by (simp add: pow2_def)
    finally show ?thesis by simp
  qed
  ultimately show ?thesis using False
    by (simp add: round_f64_def e Let_def del: of_int_mult of_int_power)
qed (simp add: round_f64_def)

lemma lit_value_itoa: "lit_value (itoa n) = of_int n"
proof -
  have dig: "takeWhile is_digit (nat_str k) = nat_str k" "dropWhile is_digit (nat_str k) = []" for k
    using takeWhile_digits [OF nat_str_digits] by auto
  have hd: "nat_str k \<noteq> CHR ''-'' # r" for k r
    using hd_nat_str [of k] by auto
  have "number_parts (itoa n) = (n < 0, nat_str (nat \<bar>n\<bar>), None, None, [])"
  proof (cases "n < 0")
    case True
    then show ?thesis
      by (simp add: itoa_def number_parts_def num_sign_def num_frac_def num_exp_def dig)
  next
    case False
    have "num_sign (nat_str (nat n)) = (False, nat_str (nat n))"
      using hd by (auto simp: num_sign_def split: list.split)
    with False show ?thesis
      by (simp add: itoa_def number_parts_def num_frac_def num_exp_def dig)
  qed
  then show ?thesis by (simp add: lit_value_def Let_def)
qed

lemma dec_float_jint:
  assumes "0 \<le> n" "n < 2 ^ 53"
  shows "dec_float (jint n) v = (of_int n, True)"
proof -
  have "round_f64 (of_int n) = Some (of_int n)"
    using round_f64_nat [of "nat n"] assms by simp
  then show ?thesis by (simp add: dec_float_def jint_def lit_value_itoa)
qed

end
