(* ===== verification/Codec.thy ===== *)
theory Codec
  imports GoStrings
begin

text \<open>
  The MQTT 3.1.1 codec of \<open>internal/protocol/mqtt.go\<close>: control packets on a byte stream,
  the remaining-length varint, length-prefixed strings, and the packets the server, the bulbs and
  the broker client exchange. Offsets into a packet body are kept as in the code, every bound check
  is a branch, and lengths are cut to 16 bits where the code casts them.
\<close>

section \<open>Errors and constants\<close>

datatype mqtt_error =
    EEof
  | EReadLength
  | EMalformedLength
  | ETooLarge nat
  | EBody nat
  | EStringLength
  | EStringExceeds nat
  | EConnectHeader
  | EPublishId
  | ESubscribeId
  | ESubscribeQos
  | EConnack
  | ESuback
  | EWrap string mqtt_error

definition type_connect :: byte where "type_connect = 1"
definition type_connack :: byte where "type_connack = 2"
definition type_publish :: byte where "type_publish = 3"
definition type_puback :: byte where "type_puback = 4"
definition type_subscribe :: byte where "type_subscribe = 8"
definition type_suback :: byte where "type_suback = 9"
definition type_unsubscribe :: byte where "type_unsubscribe = 10"
definition type_unsuback :: byte where "type_unsuback = 11"
definition type_pingreq :: byte where "type_pingreq = 12"
definition type_pingresp :: byte where "type_pingresp = 13"
definition type_disconnect :: byte where "type_disconnect = 14"

lemmas packet_types =
  type_connect_def type_connack_def type_publish_def type_puback_def type_subscribe_def
  type_suback_def type_unsubscribe_def type_unsuback_def type_pingreq_def type_pingresp_def
  type_disconnect_def

definition max_packet_size :: nat where
  "max_packet_size = 2 ^ 20"

section \<open>Packets\<close>

record packet =
  ptype :: byte
  pflags :: byte
  pbody :: bytes

definition packet_qos :: "packet \<Rightarrow> byte" where
  "packet_qos p = drop_bit 1 (pflags p) AND 3"

definition packet_retained :: "packet \<Rightarrow> bool" where
  "packet_retained p \<longleftrightarrow> pflags p AND 1 \<noteq> 0"

text \<open>\<open>readVarint\<close>: at most four bytes, seven bits each, least significant first.\<close>

fun varint_loop :: "nat \<Rightarrow> nat \<Rightarrow> nat \<Rightarrow> bytes \<Rightarrow> mqtt_error + (nat \<times> bytes)" where
  "varint_loop 0 value multiplier r = Inl EMalformedLength"
| "varint_loop (Suc i) value multiplier r =
     (case r of
        [] \<Rightarrow> Inl EReadLength
      | b # r' \<Rightarrow>
          (let value' = value + unat (b AND 127) * multiplier
           in if b AND 128 = 0 then Inr (value', r')
              else varint_loop i value' (multiplier * 128) r'))"

definition read_varint :: "bytes \<Rightarrow> mqtt_error + (nat \<times> bytes)" where
  "read_varint r = varint_loop 4 0 1 r"

function append_varint :: "bytes \<Rightarrow> nat \<Rightarrow> bytes" where
  "append_varint dst n =
     (let digit = of_nat (n mod 128);
          n' = n div 128;
          digit' = (if 0 < n' then digit OR 128 else digit);
          dst' = dst @ [digit']
      in if n' = 0 then dst' else append_varint dst' n')"
  by pat_completeness auto
termination
  by (relation "measure snd") auto

declare append_varint.simps [simp del]

text \<open>\<open>ReadPacket\<close> on what is left of the stream; an exhausted stream is end of file.\<close>

definition read_packet :: "bytes \<Rightarrow> mqtt_error + (packet \<times> bytes)" where
  "read_packet r =
     (case r of
        [] \<Rightarrow> Inl EEof
      | head # r1 \<Rightarrow>
          and_then (read_varint r1) (\<lambda>(n, r2).
            if max_packet_size < n then Inl (ETooLarge n)
            else if length r2 < n then Inl (EBody n)
            else Inr (\<lparr>ptype = drop_bit 4 head, pflags = head AND 15, pbody = take n r2\<rparr>, drop n r2)))"

definition encode :: "byte \<Rightarrow> byte \<Rightarrow> bytes \<Rightarrow> bytes" where
  "encode typ flags body = append_varint [push_bit 4 typ OR flags] (length body) @ body"

section \<open>Strings and 16-bit integers\<close>

text \<open>\<open>binary.BigEndian\<close>.\<close>

definition be16 :: "byte \<Rightarrow> byte \<Rightarrow> 16 word" where
  "be16 hi lo = of_nat (unat hi * 256 + unat lo)"

definition put16 :: "16 word \<Rightarrow> bytes" where
  "put16 w = [of_nat (unat w div 256), of_nat (unat w mod 256)]"

definition read_string :: "bytes \<Rightarrow> nat \<Rightarrow> mqtt_error + (string \<times> nat)" where
  "read_string b i =
     (if length b < i + 2 then Inl EStringLength
      else
        (let n = unat (be16 (b ! i) (b ! (i + 1)))
         in if length b < i + 2 + n then Inl (EStringExceeds n)
            else Inr (str_of (take n (drop (i + 2) b)), i + 2 + n)))"

definition append_string :: "bytes \<Rightarrow> string \<Rightarrow> bytes" where
  "append_string dst s = dst @ put16 (of_nat (length s)) @ bytes_of s"

section \<open>CONNECT\<close>

record connect =
  protocol_name :: string
  protocol_level :: byte
  keep_alive :: "16 word"
  client_id :: string
  username :: string
  password :: string

text \<open>The tail of \<open>DecodeConnect\<close>: an optional string at the current offset.\<close>

definition optional_string :: "bool \<Rightarrow> string \<Rightarrow> bytes \<Rightarrow> nat \<Rightarrow> mqtt_error + (string \<times> nat)" where
  "optional_string present what b i =
     (if present then map_err (EWrap what) (read_string b i) else Inr ([], i))"

definition decode_connect :: "bytes \<Rightarrow> mqtt_error + connect" where
  "decode_connect b =
     and_then (map_err (EWrap ''connect protocol name'') (read_string b 0)) (\<lambda>(name, i).
       if length b < i + 4 then Inl EConnectHeader
       else
         (let level = b ! i; flags = b ! (i + 1); ka = be16 (b ! (i + 2)) (b ! (i + 3)) in
          and_then (map_err (EWrap ''connect client id'') (read_string b (i + 4))) (\<lambda>(cid, i1).
          and_then (optional_string (flags AND 4 \<noteq> 0) ''connect will topic'' b i1) (\<lambda>(_, i2).
          and_then (optional_string (flags AND 4 \<noteq> 0) ''connect will message'' b i2) (\<lambda>(_, i3).
          and_then (optional_string (flags AND 128 \<noteq> 0) ''connect username'' b i3) (\<lambda>(user, i4).
          and_then (optional_string (flags AND 64 \<noteq> 0) ''connect password'' b i4) (\<lambda>(pass, _).
            Inr \<lparr>protocol_name = name, protocol_level = level, keep_alive = ka,
                 client_id = cid, username = user, password = pass\<rparr>)))))))"

record connect_options =
  o_client_id :: string
  o_keep_alive :: "16 word"
  o_username :: string
  o_password :: string
  o_will_topic :: string
  o_will_payload :: bytes
  o_will_retain :: bool
  o_will_qos :: byte
  o_clean_session :: bool

definition connect_flags :: "connect_options \<Rightarrow> byte" where
  "connect_flags o' =
     (let f0 = (if o_clean_session o' then 2 else 0);
          f1 = (if o_will_topic o' \<noteq> []
                then (let f = f0 OR (4 OR push_bit 3 (o_will_qos o' AND 3))
                      in if o_will_retain o' then f OR 32 else f)
                else f0);
          f2 = (if o_password o' \<noteq> [] then f1 OR 64 else f1)
      in if o_username o' \<noteq> [] then f2 OR 128 else f2)"

definition connect_body :: "connect_options \<Rightarrow> bytes" where
  "connect_body o' =
     (let b0 = [0, 4] @ bytes_of ''MQTT'' @ [4, connect_flags o'];
          b1 = b0 @ put16 (o_keep_alive o');
          b2 = append_string b1 (o_client_id o');
          b3 = (if o_will_topic o' \<noteq> []
                then append_string b2 (o_will_topic o') @ put16 (of_nat (length (o_will_payload o'))) @ o_will_payload o'
                else b2);
          b4 = (if o_username o' \<noteq> [] then append_string b3 (o_username o') else b3)
      in if o_password o' \<noteq> [] then append_string b4 (o_password o') else b4)"

definition encode_connect :: "connect_options \<Rightarrow> bytes" where
  "encode_connect o' = encode type_connect 0 (connect_body o')"

section \<open>PUBLISH\<close>

record publish =
  topic :: string
  packet_id :: "16 word"
  content :: bytes

definition decode_publish :: "bytes \<Rightarrow> byte \<Rightarrow> mqtt_error + publish" where
  "decode_publish b qos =
     and_then (map_err (EWrap ''publish topic'') (read_string b 0)) (\<lambda>(t, i).
       if 0 < qos then
         (if length b < i + 2 then Inl EPublishId
          else Inr \<lparr>topic = t, packet_id = be16 (b ! i) (b ! (i + 1)), content = drop (i + 2) b\<rparr>)
       else Inr \<lparr>topic = t, packet_id = 0, content = drop i b\<rparr>)"

definition encode_publish :: "string \<Rightarrow> bytes \<Rightarrow> bytes" where
  "encode_publish t p = encode type_publish 0 (append_string [] t @ p)"

definition encode_publish_retained :: "string \<Rightarrow> bytes \<Rightarrow> bytes" where
  "encode_publish_retained t p = encode type_publish 1 (append_string [] t @ p)"

definition encode_publish_qos1 :: "string \<Rightarrow> bytes \<Rightarrow> 16 word \<Rightarrow> bool \<Rightarrow> bytes" where
  "encode_publish_qos1 t p pid retain =
     encode type_publish (if retain then push_bit 1 1 OR 1 else push_bit 1 1)
       (append_string [] t @ put16 pid @ p)"

section \<open>SUBSCRIBE and acknowledgements\<close>

lemma read_string_progress: "read_string b i = Inr (s, j) \<Longrightarrow> i < j \<and> j \<le> length b"
  by (auto simp: read_string_def Let_def split: if_splits)

function subscribe_loop :: "bytes \<Rightarrow> nat \<Rightarrow> string list \<Rightarrow> mqtt_error + string list" where
  "subscribe_loop b i topics =
     (if length b \<le> i then Inr topics
      else
        (case read_string b i of
           Inl e \<Rightarrow> Inl (EWrap ''subscribe filter'' e)
         | Inr (t, j) \<Rightarrow>
             if length b \<le> j then Inl ESubscribeQos
             else subscribe_loop b (j + 1) (topics @ [t])))"
  by pat_completeness auto
termination
  by (relation "measure (\<lambda>(b, i, topics). length b - i)") (auto dest!: read_string_progress)

declare subscribe_loop.simps [simp del]

definition decode_subscribe :: "bytes \<Rightarrow> mqtt_error + (16 word \<times> string list)" where
  "decode_subscribe b =
     (case b of
        hi # lo # _ \<Rightarrow> and_then (subscribe_loop b 2 []) (\<lambda>topics. Inr (be16 hi lo, topics))
      | _ \<Rightarrow> Inl ESubscribeId)"

definition encode_subscribe :: "16 word \<Rightarrow> byte \<Rightarrow> string list \<Rightarrow> bytes" where
  "encode_subscribe pid qos topics =
     encode type_subscribe 2 (foldl (\<lambda>body t. append_string body t @ [qos]) (put16 pid) topics)"

definition encode_disconnect :: bytes where
  "encode_disconnect = encode type_disconnect 0 []"

definition connack_accepted :: bytes where
  "connack_accepted = [push_bit 4 type_connack, 2, 0, 0]"

definition connack_refused_not_authorized :: bytes where
  "connack_refused_not_authorized = [push_bit 4 type_connack, 2, 0, 5]"

definition pingresp :: bytes where
  "pingresp = [push_bit 4 type_pingresp, 0]"

definition decode_connack :: "bytes \<Rightarrow> mqtt_error + (bool \<times> byte)" where
  "decode_connack b = (case b of x # y # _ \<Rightarrow> Inr (x AND 1 \<noteq> 0, y) | _ \<Rightarrow> Inl EConnack)"

definition decode_suback :: "bytes \<Rightarrow> mqtt_error + (16 word \<times> bytes)" where
  "decode_suback b =
     (case b of x # y # z # r \<Rightarrow> Inr (be16 x y, z # r) | _ \<Rightarrow> Inl ESuback)"

definition encode_suback :: "16 word \<Rightarrow> nat \<Rightarrow> bytes" where
  "encode_suback pid n = encode type_suback 0 (put16 pid @ replicate n 0)"

definition encode_puback :: "16 word \<Rightarrow> bytes" where
  "encode_puback pid = encode type_puback 0 (put16 pid)"

text \<open>\<open>ConnackReason\<close>.\<close>

definition connack_reason :: "byte \<Rightarrow> string" where
  "connack_reason c =
     (if c = 0 then ''accepted''
      else if c = 1 then ''broker refused the protocol version''
      else if c = 2 then ''broker rejected the client id''
      else if c = 3 then ''broker unavailable''
      else if c = 4 then ''broker rejected the username or password''
      else if c = 5 then ''not authorised by the broker''
      else ''broker refused the connection with code '' @ itoa (uint c))"

section \<open>Varints and packets\<close>

lemma append_varint_acc: "append_varint dst n = dst @ append_varint [] n"
proof (induction n arbitrary: dst rule: less_induct)
  case (less n)
  show ?case
  proof (cases "n div 128 = 0")
    case True
    then show ?thesis by (simp add: append_varint.simps [of dst n] append_varint.simps [of "[]" n])
  next
    case False
    then have lt: "n div 128 < n" by auto
    have "append_varint ds n = (ds @ [of_nat (n mod 128) OR 128]) @ append_varint [] (n div 128)" for ds
      using False less [OF lt, of "ds @ [of_nat (n mod 128) OR 128]"]
      by (simp add: append_varint.simps [of ds n] Let_def)
    from this [of dst] this [of "[]"] show ?thesis by simp
  qed
qed

lemma varint_step:
  "append_varint [] n =
    (if n < 128 then [of_nat n] else (of_nat (n mod 128) OR 128) # append_varint [] (n div 128))"
  using append_varint_acc [of "[of_nat (n mod 128) OR 128]" "n div 128"]
  by (auto simp: append_varint.simps [of "[]" n] Let_def div_eq_0_iff)

lemma varint_digits:
  assumes "k < 128"
  shows "unat ((of_nat k :: byte) AND 127) = k" "(of_nat k :: byte) AND 128 = 0"
    "unat ((of_nat k OR 128 :: byte) AND 127) = k" "(of_nat k OR 128 :: byte) AND 128 \<noteq> 0"
proof -
  have "(of_nat k :: byte) AND 127 = take_bit 7 (of_nat k)"
    by (simp add: take_bit_eq_mask mask_eq_exp_minus_1)
  moreover have "unat (take_bit 7 (of_nat k :: byte)) = take_bit 7 k"
    by (simp only: unsigned_take_bit_eq unat_of_nat) (simp add: take_bit_eq_mod mod_mod_cancel)
  ultimately show low: "unat ((of_nat k :: byte) AND 127) = k"
    using assms by (simp only: take_bit_eq_mod) simp
  have "\<not> bit k 7" using assms by (simp add: bit_iff_odd)
  then show "(of_nat k :: byte) AND 128 = 0"
    using and_exp_eq_0_iff_not_bit [of "of_nat k :: byte" 7] by (simp add: bit_of_nat_iff)
  have "(of_nat k OR 128 :: byte) AND 127 = of_nat k AND 127"
    by (simp add: word_ao_dist)
  with low show "unat ((of_nat k OR 128 :: byte) AND 127) = k" by simp
  show "(of_nat k OR 128 :: byte) AND 128 \<noteq> 0"
    by (simp add: word_ao_dist)
qed

lemma varint_loop_append:
  "n < 128 ^ k \<Longrightarrow> 0 < k \<Longrightarrow> varint_loop k v m (append_varint [] n @ rest) = Inr (v + n * m, rest)"
proof (induction k arbitrary: n v m)
  case 0
  then show ?case by simp
next
  case (Suc k)
  show ?case
  proof (cases "n < 128")
    case True
    then show ?thesis by (simp add: varint_step [of n] varint_digits)
  next
    case False
    then have "n div 128 < 128 ^ k" using Suc.prems by (simp add: less_mult_imp_div_less mult.commute)
    moreover have "0 < k" using False Suc.prems by (cases k) auto
    moreover have sum: "v + (n mod 128) * m + n div 128 * (m * 128) = v + n * m"
    proof -
      obtain q d where "n div 128 = q" "n mod 128 = d" "n = q * 128 + d"
        using div_mult_mod_eq [of n 128] by metis
      then show ?thesis by (simp add: algebra_simps)
    qed
    moreover have "append_varint [] n = (of_nat (n mod 128) OR 128) # append_varint [] (n div 128)"
      by (subst varint_step) (simp add: False)
    then have "varint_loop (Suc k) v m (append_varint [] n @ rest) =
        varint_loop k (v + (n mod 128) * m) (m * 128) (append_varint [] (n div 128) @ rest)"
      by (simp add: varint_digits)
    ultimately show ?thesis
      using Suc.IH [of "n div 128" "v + (n mod 128) * m" "m * 128"] by (simp only: sum)
  qed
qed

lemma read_varint_append: "n < 2 ^ 28 \<Longrightarrow> read_varint (append_varint [] n @ rest) = Inr (n, rest)"
  using varint_loop_append [of n 4 0 1 rest] by (simp add: read_varint_def)

interpretation varint: stream_codec "append_varint []" read_varint "\<lambda>n. n < 2 ^ 28"
  by unfold_locales (rule read_varint_append)

lemma encode_eq: "encode ty flags body = (push_bit 4 ty OR flags) # append_varint [] (length body) @ body"
  by (simp add: encode_def append_varint_acc [of "[push_bit 4 ty OR flags]"])

lemma nibble_bits:
  assumes "(w :: byte) < 16"
  shows "bit w n \<Longrightarrow> n < 4"
proof -
  have "take_bit 4 w = w"
    using assms by (simp add: take_bit_eq_mod word_mod_less_divisor mod_word_less)
  then show "bit w n \<Longrightarrow> n < 4"
    by (metis bit_take_bit_iff)
qed

lemma fixed_header:
  fixes ty flags :: byte
  assumes "ty < 16" "flags < 16"
  shows "drop_bit 4 (push_bit 4 ty OR flags) = ty" "(push_bit 4 ty OR flags) AND 15 = flags"
proof -
  show "drop_bit 4 (push_bit 4 ty OR flags) = ty"
    by (rule bit_word_eqI)
      (use nibble_bits [OF assms(1)] nibble_bits [OF assms(2)] in
        \<open>force simp: bit_drop_bit_eq bit_or_iff bit_push_bit_iff\<close>)
  have "(push_bit 4 ty OR flags) AND mask 4 = flags"
    by (rule bit_word_eqI)
      (use nibble_bits [OF assms(2)] in \<open>auto simp: bit_and_iff bit_or_iff bit_push_bit_iff bit_mask_iff\<close>)
  then show "(push_bit 4 ty OR flags) AND 15 = flags"
    by (simp add: mask_eq_exp_minus_1)
qed

definition encode_packet :: "packet \<Rightarrow> bytes" where
  "encode_packet p = encode (ptype p) (pflags p) (pbody p)"

definition packet_ok :: "packet \<Rightarrow> bool" where
  "packet_ok p \<longleftrightarrow> ptype p < 16 \<and> pflags p < 16 \<and> length (pbody p) \<le> max_packet_size"

lemma read_encode:
  assumes "ty < 16" "flags < 16" "length body \<le> max_packet_size"
  shows "read_packet (encode ty flags body @ rest) =
    Inr (\<lparr>ptype = ty, pflags = flags, pbody = body\<rparr>, rest)"
proof -
  obtain head where head: "head = push_bit 4 ty OR flags" by blast
  then have "drop_bit 4 head = ty" "head AND 15 = flags"
    using fixed_header [OF assms(1,2)] by simp_all
  then show ?thesis
    using assms(3) read_varint_append [of "length body" "body @ rest"]
    by (simp add: read_packet_def encode_eq max_packet_size_def flip: head)
qed

interpretation packets: stream_codec encode_packet read_packet packet_ok
  by unfold_locales (simp add: packet_ok_def encode_packet_def read_encode)

text \<open>What a successful read consumed, whatever the bytes were.\<close>

lemma varint_loop_consumes:
  "varint_loop k v m r = Inr (n, r') \<Longrightarrow>
    \<exists>pre. r = pre @ r' \<and> 0 < length pre \<and> length pre \<le> k"
proof (induction k arbitrary: v m r)
  case 0
  then show ?case by simp
next
  case (Suc k)
  then obtain b r1 where r: "r = b # r1" by (cases r) auto
  show ?case
  proof (cases "b AND 128 = 0")
    case True
    then show ?thesis using Suc.prems r by (intro exI [of _ "[b]"]) (simp add: Let_def)
  next
    case False
    then have "varint_loop k (v + unat (b AND 127) * m) (m * 128) r1 = Inr (n, r')"
      using Suc.prems r by (simp add: Let_def)
    from Suc.IH [OF this] obtain pre where "r1 = pre @ r'" "0 < length pre \<and> length pre \<le> k"
      by blast
    then show ?thesis using r by (intro exI [of _ "b # pre"]) simp
  qed
qed

lemma read_packet_parts:
  assumes "read_packet r = Inr (p, rest)"
  shows "\<exists>head len. r = head # len @ pbody p @ rest \<and> 1 \<le> length len \<and> length len \<le> 4
      \<and> ptype p = drop_bit 4 head \<and> pflags p = head AND 15
      \<and> length (pbody p) \<le> max_packet_size \<and> read_varint (len @ pbody p @ rest) = Inr (length (pbody p), pbody p @ rest)"
proof -
  obtain head r1 n r2 where parts: "r = head # r1" "read_varint r1 = Inr (n, r2)" "n \<le> max_packet_size"
      "n \<le> length r2" "p = \<lparr>ptype = drop_bit 4 head, pflags = head AND 15, pbody = take n r2\<rparr>" "rest = drop n r2"
    using assms by (cases r) (auto simp: read_packet_def and_then_Inr_iff split: if_splits)
  moreover obtain len where "r1 = len @ r2" "0 < length len" "length len \<le> 4"
    using varint_loop_consumes parts(2) unfolding read_varint_def by blast
  ultimately show ?thesis by (intro exI [of _ head] exI [of _ len]) (auto simp: Suc_le_eq)
qed

lemma read_packet_bounded:
  "read_packet r = Inr (p, rest) \<Longrightarrow> packet_ok p \<and> length rest < length r"
proof -
  assume "read_packet r = Inr (p, rest)"
  then obtain head len where h: "r = head # len @ pbody p @ rest" "ptype p = drop_bit 4 head"
      "pflags p = head AND 15" "length (pbody p) \<le> max_packet_size"
    using read_packet_parts by blast
  have "unat (drop_bit 4 (head :: byte)) = unat head div 16"
    by (simp only: unat_drop_bit_eq) (simp add: drop_bit_eq_div)
  then have "drop_bit 4 (head :: byte) < 16"
    using div_less_iff_less_mult [of 16 "unat head" 16] by (simp add: word_less_nat_alt del: unat_div)
  moreover have "head AND 15 < (16 :: byte)"
    using word_and_le1 [of head 15] by (simp add: le_less_trans)
  ultimately show ?thesis using h by (simp add: packet_ok_def)
qed


section \<open>Strings and integers\<close>

lemma unat_16_lt [simp]: "unat (w :: 16 word) < 65536"
  using unsigned_less [of w] by simp

lemma length_put16 [simp]: "length (put16 w) = 2"
  by (simp add: put16_def)

lemma put16_neq_Nil [simp]: "put16 w \<noteq> []"
  by (simp add: put16_def)

lemma be16_put16: "be16 (put16 w ! 0) (put16 w ! Suc 0) = w"
proof -
  have "unat w div 256 < 256" using unat_16_lt [of w] by linarith
  then show ?thesis by (simp add: put16_def be16_def unat_of_nat word_unat_eq_iff)
qed

lemma be16_at:
  "length pre = i \<Longrightarrow> be16 ((pre @ put16 w @ rest) ! i) ((pre @ put16 w @ rest) ! Suc i) = w"
  using be16_put16 [of w] by (auto simp: nth_append)

definition wire_string :: "string \<Rightarrow> bytes" where
  "wire_string s = put16 (of_nat (length s)) @ bytes_of s"

lemma append_string_eq: "append_string dst s = dst @ wire_string s"
  by (simp add: append_string_def wire_string_def)

lemma length_wire_string [simp]: "length (wire_string s) = length s + 2"
  by (simp add: wire_string_def)

lemma read_string_at:
  assumes "b = pre @ wire_string s @ rest" "i = length pre" "length s < 2 ^ 16"
  shows "read_string b i = Inr (s, length pre + 2 + length s)"
proof -
  have "unat (be16 (b ! i) (b ! (i + 1))) = length s"
    using assms be16_at [of pre i "of_nat (length s)" "bytes_of s @ rest"]
    by (simp add: wire_string_def unat_of_nat)
  then show ?thesis using assms by (simp add: read_string_def wire_string_def)
qed

text \<open>A decoder of the bytes \<open>binary.BigEndian\<close> writes, and one of a string at the front of a stream.\<close>

definition take_string :: "bytes \<Rightarrow> mqtt_error + (string \<times> bytes)" where
  "take_string b = and_then (read_string b 0) (\<lambda>(s, i). Inr (s, drop i b))"

interpretation wire_strings: stream_codec wire_string take_string "\<lambda>s. length s < 2 ^ 16"
proof unfold_locales
  fix s rest
  assume "length (s :: string) < 2 ^ 16"
  then show "take_string (wire_string s @ rest) = Inr (s, rest)"
    using read_string_at [of "wire_string s @ rest" "[]" s rest 0]
    by (simp add: take_string_def)
qed

lemma read_string_Inr:
  "read_string b i = Inr (s, j) \<Longrightarrow>
    j = i + 2 + length s \<and> j \<le> length b \<and> length s < 2 ^ 16 \<and> s = str_of (take (length s) (drop (i + 2) b))"
  using unat_16_lt [of "be16 (b ! i) (b ! (i + 1))"]
  by (auto simp: read_string_def Let_def min_def split: if_splits intro: le_less_trans [OF _ unat_16_lt])

section \<open>Round trips\<close>

definition wire_opt :: "bool \<Rightarrow> string \<Rightarrow> bytes" where
  "wire_opt present s = (if present then wire_string s else [])"

lemma optional_string_at:
  assumes "b = pre @ wire_opt present s @ rest" "i = length pre" "length s < 2 ^ 16"
  shows "optional_string present w b i =
    Inr (if present then s else [], length (pre @ wire_opt present s))"
  using assms read_string_at [of b pre s rest i] by (simp add: optional_string_def wire_opt_def)

lemma connect_flag_bits:
  "connect_flags co AND 4 \<noteq> 0 \<longleftrightarrow> o_will_topic co \<noteq> []"
  "connect_flags co AND 64 \<noteq> 0 \<longleftrightarrow> o_password co \<noteq> []"
  "connect_flags co AND 128 \<noteq> 0 \<longleftrightarrow> o_username co \<noteq> []"
proof -
  have "bit (connect_flags co) 2 \<longleftrightarrow> o_will_topic co \<noteq> []"
    "bit (connect_flags co) 6 \<longleftrightarrow> o_password co \<noteq> []"
    "bit (connect_flags co) 7 \<longleftrightarrow> o_username co \<noteq> []"
    by (simp_all add: connect_flags_def Let_def bit_or_iff bit_push_bit_iff bit_and_iff bit_numeral_rec)
  moreover have "(w :: byte) AND 4 \<noteq> 0 \<longleftrightarrow> bit w 2" "w AND 64 \<noteq> 0 \<longleftrightarrow> bit w 6" "w AND 128 \<noteq> 0 \<longleftrightarrow> bit w 7" for w
    using and_exp_eq_0_iff_not_bit [of w 2] and_exp_eq_0_iff_not_bit [of w 6] and_exp_eq_0_iff_not_bit [of w 7]
    by simp_all
  ultimately show "connect_flags co AND 4 \<noteq> 0 \<longleftrightarrow> o_will_topic co \<noteq> []"
    "connect_flags co AND 64 \<noteq> 0 \<longleftrightarrow> o_password co \<noteq> []"
    "connect_flags co AND 128 \<noteq> 0 \<longleftrightarrow> o_username co \<noteq> []"
    by simp_all
qed

lemma connect_body_eq:
  "connect_body co = wire_string ''MQTT'' @ [4, connect_flags co] @ put16 (o_keep_alive co) @
     wire_string (o_client_id co) @
     wire_opt (o_will_topic co \<noteq> []) (o_will_topic co) @
     wire_opt (o_will_topic co \<noteq> []) (str_of (o_will_payload co)) @
     wire_opt (o_username co \<noteq> []) (o_username co) @
     wire_opt (o_password co \<noteq> []) (o_password co)"
  by (simp add: connect_body_def Let_def append_string_eq wire_opt_def wire_string_def put16_def)

definition connect_fits :: "connect_options \<Rightarrow> bool" where
  "connect_fits co \<longleftrightarrow> length (o_client_id co) < 2 ^ 16 \<and> length (o_will_topic co) < 2 ^ 16
     \<and> length (o_will_payload co) < 2 ^ 16 \<and> length (o_username co) < 2 ^ 16
     \<and> length (o_password co) < 2 ^ 16"

lemma decode_connect_body:
  assumes "connect_fits co"
  shows "decode_connect (connect_body co) =
    Inr \<lparr>protocol_name = ''MQTT'', protocol_level = 4, keep_alive = o_keep_alive co,
         client_id = o_client_id co, username = o_username co, password = o_password co\<rparr>"
proof -
  let ?will = "o_will_topic co \<noteq> []" and ?user = "o_username co \<noteq> []" and ?pass = "o_password co \<noteq> []"
  define h where "h = wire_string ''MQTT'' @ [4, connect_flags co] @ put16 (o_keep_alive co)"
  define w1 where "w1 = wire_opt ?will (o_will_topic co)"
  define w2 where "w2 = wire_opt ?will (str_of (o_will_payload co))"
  define u where "u = wire_opt ?user (o_username co)"
  define p where "p = wire_opt ?pass (o_password co)"
  define c where "c = wire_string (o_client_id co)"
  define b where "b = connect_body co"
  note fits = assms [unfolded connect_fits_def]
  have b: "b = h @ c @ w1 @ w2 @ u @ p"
    by (simp add: b_def connect_body_eq h_def c_def w1_def w2_def u_def p_def)
  have len: "length h = 10" by (simp add: h_def)
  have r0: "read_string b 0 = Inr (''MQTT'', 6)"
    using read_string_at [of b "[]" "''MQTT''" _ 0] b by (simp add: h_def)
  have r1: "read_string b 10 = Inr (o_client_id co, length (h @ c))"
    using read_string_at [of b h "o_client_id co" _ 10] b len fits by (simp add: c_def)
  have r2: "optional_string ?will x b (length (h @ c)) = Inr (if ?will then o_will_topic co else [], length (h @ c @ w1))" for x
    using optional_string_at [of b "h @ c" ?will "o_will_topic co"] b fits by (simp add: w1_def)
  have r3: "optional_string ?will x b (length (h @ c @ w1)) =
      Inr (if ?will then str_of (o_will_payload co) else [], length (h @ c @ w1 @ w2))" for x
    using optional_string_at [of b "h @ c @ w1" ?will "str_of (o_will_payload co)"] b fits by (simp add: w2_def)
  have r4: "optional_string ?user x b (length (h @ c @ w1 @ w2)) = Inr (o_username co, length (h @ c @ w1 @ w2 @ u))" for x
    using optional_string_at [of b "h @ c @ w1 @ w2" ?user "o_username co"] b fits by (simp add: u_def)
  have r5: "optional_string ?pass x b (length (h @ c @ w1 @ w2 @ u)) = Inr (o_password co, length b)" for x
    using optional_string_at [of b "h @ c @ w1 @ w2 @ u" ?pass "o_password co"] b fits by (simp add: p_def)
  have bytes: "b ! 6 = 4" "b ! 7 = connect_flags co" "be16 (b ! 8) (b ! 9) = o_keep_alive co"
    using be16_put16 [of "o_keep_alive co"]
    by (simp_all add: b h_def wire_string_def put16_def)
  have "\<not> length b < 10" using len by (simp add: b)
  then show ?thesis
    unfolding decode_connect_def b_def [symmetric]
    by (simp add: r0 r1 r2 r3 r4 r5 bytes connect_flag_bits del: length_append)
qed

lemma decode_publish_qos0:
  "length t < 2 ^ 16 \<Longrightarrow> decode_publish (wire_string t @ p) 0 = Inr \<lparr>topic = t, packet_id = 0, content = p\<rparr>"
  using read_string_at [of "wire_string t @ p" "[]" t p 0] by (simp add: decode_publish_def)

lemma decode_publish_qos:
  assumes "length t < 2 ^ 16" "0 < qos"
  shows "decode_publish (wire_string t @ put16 pid @ p) qos = Inr \<lparr>topic = t, packet_id = pid, content = p\<rparr>"
  using assms read_string_at [of "wire_string t @ put16 pid @ p" "[]" t _ 0]
    be16_at [of "wire_string t" _ pid p]
  by (simp add: decode_publish_def)

lemma subscribe_loop_filters:
  assumes "list_all (\<lambda>t. length t < 2 ^ 16) ts"
  shows "length pre = i \<Longrightarrow>
    subscribe_loop (pre @ concat (map (\<lambda>t. wire_string t @ [qos]) ts)) i acc = Inr (acc @ ts)"
  using assms
proof (induction ts arbitrary: pre i acc)
  case Nil
  then show ?case by (simp add: subscribe_loop.simps)
next
  case (Cons t ts)
  let ?rest = "concat (map (\<lambda>t. wire_string t @ [qos]) ts)"
  have "read_string (pre @ wire_string t @ qos # ?rest) i = Inr (t, i + 2 + length t)"
    using Cons.prems by (intro read_string_at [THEN trans]) auto
  moreover have "subscribe_loop ((pre @ wire_string t @ [qos]) @ ?rest) (i + 2 + length t + 1) (acc @ [t]) = Inr ((acc @ [t]) @ ts)"
    using Cons.prems by (intro Cons.IH) auto
  ultimately show ?case
    using Cons.prems by (subst subscribe_loop.simps) simp
qed

lemma subscribe_body:
  "foldl (\<lambda>body t. append_string body t @ [qos]) b ts = b @ concat (map (\<lambda>t. wire_string t @ [qos]) ts)"
  by (induction ts arbitrary: b) (simp_all add: append_string_eq)

lemma decode_subscribe_body:
  assumes "list_all (\<lambda>t. length t < 2 ^ 16) ts"
  shows "decode_subscribe (foldl (\<lambda>body t. append_string body t @ [qos]) (put16 pid) ts) = Inr (pid, ts)"
  using subscribe_loop_filters [OF assms, of "put16 pid" 2 qos "[]"] be16_put16 [of pid]
  by (simp add: decode_subscribe_def subscribe_body) (simp add: put16_def)

lemma length_connect_body: "connect_fits co \<Longrightarrow> length (connect_body co) \<le> max_packet_size"
  by (auto simp: connect_fits_def connect_body_eq wire_opt_def max_packet_size_def)

lemma length_subscribe_body:
  "list_all (\<lambda>t. length t < 2 ^ 16) ts \<Longrightarrow>
    length (foldl (\<lambda>body t. append_string body t @ [qos]) (put16 pid) ts) \<le> 2 + length ts * (2 ^ 16 + 2)"
  unfolding subscribe_body by (induction ts) auto

lemma decode_suback_body:
  "ts \<noteq> [] \<Longrightarrow> decode_suback (put16 pid @ replicate (length ts) 0) = Inr (pid, replicate (length ts) 0)"
  using be16_put16 [of pid] by (cases ts) (auto simp: decode_suback_def put16_def)

text \<open>A publish as the server and the broker client read it: the packet, then its body under its level.\<close>

definition read_publish :: "bytes \<Rightarrow> mqtt_error + (publish \<times> byte \<times> bool \<times> bytes)" where
  "read_publish r =
     and_then (read_packet r) (\<lambda>(p, rest).
     and_then (decode_publish (pbody p) (packet_qos p)) (\<lambda>pub.
       Inr (pub, packet_qos p, packet_retained p, rest)))"

lemma read_publish_encode:
  "flags < 16 \<Longrightarrow> length body \<le> max_packet_size \<Longrightarrow>
    read_publish (encode type_publish flags body @ rest) =
      (let p = \<lparr>ptype = type_publish, pflags = flags, pbody = body\<rparr>
       in and_then (decode_publish body (packet_qos p)) (\<lambda>pub. Inr (pub, packet_qos p, packet_retained p, rest)))"
  by (simp add: read_publish_def read_encode packet_types Let_def)

section \<open>Properties\<close>

text \<open>
  C25: a stream of packets that \<open>Encode\<close> wrote is read back by repeated \<open>ReadPacket\<close>, packet by
  packet and to the byte, whatever follows it on the connection.
\<close>

theorem packet_stream_roundtrip:
  "list_all packet_ok ps \<Longrightarrow>
    decode_many read_packet (length ps) (concat (map encode_packet ps) @ rest) = Inr (ps, rest)"
  by (rule packets.dec_many_enc)

theorem packet_stream_roundtrip_witness:
  "decode_many read_packet (length [\<lparr>ptype = 12, pflags = 0, pbody = []\<rparr>, \<lparr>ptype = 3, pflags = 2, pbody = [0, 1, 97]\<rparr>])
      (concat (map encode_packet [\<lparr>ptype = 12, pflags = 0, pbody = []\<rparr>, \<lparr>ptype = 3, pflags = 2, pbody = [0, 1, 97]\<rparr>]) @ [7]) =
    Inr ([\<lparr>ptype = 12, pflags = 0, pbody = []\<rparr>, \<lparr>ptype = 3, pflags = 2, pbody = [0, 1, 97]\<rparr>], [7])"
  by (rule packet_stream_roundtrip) code_simp

text \<open>
  C30: whatever bytes arrive, a packet \<open>ReadPacket\<close> accepts is the header byte, one to four length
  bytes and then exactly the body it returns; the body never exceeds \<open>MaxPacketSize\<close> and what is
  left of the stream is what the next read sees.
\<close>

theorem read_packet_framing:
  "read_packet r = Inr (p, rest) \<Longrightarrow>
    \<exists>head len. r = head # len @ pbody p @ rest \<and> 1 \<le> length len \<and> length len \<le> 4
      \<and> ptype p = drop_bit 4 head \<and> pflags p = head AND 15
      \<and> length (pbody p) \<le> max_packet_size \<and> read_varint (len @ pbody p @ rest) = Inr (length (pbody p), pbody p @ rest)"
  by (rule read_packet_parts)

theorem read_packet_framing_witness:
  "\<exists>head len. [0x31, 0x83, 0x00, 97, 98, 99, 7 :: byte] = head # len @ [97, 98, 99] @ [7] \<and> length len \<le> 4"
proof -
  have "read_packet [0x31, 0x83, 0x00, 97, 98, 99, 7] = Inr (\<lparr>ptype = 3, pflags = 1, pbody = [97, 98, 99]\<rparr>, [7])"
    by code_simp
  from read_packet_framing [OF this] show ?thesis by auto
qed

text \<open>
  The CONNECT the broker client writes with \<open>EncodeConnect\<close> is read by \<open>ReadPacket\<close> and
  \<open>DecodeConnect\<close> as the options it was built from, with or without a will, a user name and a
  password, as long as every string fits its 16-bit length.
\<close>

theorem connect_roundtrip:
  "connect_fits co \<Longrightarrow>
    \<exists>p. read_packet (encode_connect co @ rest) = Inr (p, rest) \<and> ptype p = type_connect \<and>
      decode_connect (pbody p) =
        Inr \<lparr>protocol_name = ''MQTT'', protocol_level = 4, keep_alive = o_keep_alive co,
             client_id = o_client_id co, username = o_username co, password = o_password co\<rparr>"
  using read_encode [of type_connect 0 "connect_body co" rest] length_connect_body [of co]
  by (simp add: encode_connect_def packet_types decode_connect_body)

theorem connect_roundtrip_witness:
  "\<exists>p. read_packet (encode_connect \<lparr>o_client_id = ''haigosmart'', o_keep_alive = 60, o_username = ''u'', o_password = ''secret'',
        o_will_topic = ''haigosmart/status'', o_will_payload = [1, 2], o_will_retain = True, o_will_qos = 1, o_clean_session = True\<rparr> @ [9]) = Inr (p, [9]) \<and>
      map_err id (decode_connect (pbody p)) = Inr \<lparr>protocol_name = ''MQTT'', protocol_level = 4, keep_alive = 60,
        client_id = ''haigosmart'', username = ''u'', password = ''secret''\<rparr>"
  using connect_roundtrip [of "\<lparr>o_client_id = ''haigosmart'', o_keep_alive = 60, o_username = ''u'', o_password = ''secret'',
        o_will_topic = ''haigosmart/status'', o_will_payload = [1, 2], o_will_retain = True, o_will_qos = 1, o_clean_session = True\<rparr>" "[9]"]
  by (fastforce simp: connect_fits_def)

text \<open>
  Each of the three publish encoders is read back: QoS 0 and retained messages without a packet
  id, QoS 1 with the id it was given; the retain flag and the level survive, and the payload is
  returned unchanged.
\<close>

theorem publish_roundtrip:
  assumes "length t < 2 ^ 16" "length p \<le> 2 ^ 19"
  shows "read_publish (encode_publish t p @ rest) =
      Inr (\<lparr>topic = t, packet_id = 0, content = p\<rparr>, 0, False, rest) \<and>
    read_publish (encode_publish_retained t p @ rest) =
      Inr (\<lparr>topic = t, packet_id = 0, content = p\<rparr>, 0, True, rest) \<and>
    read_publish (encode_publish_qos1 t p pid retain @ rest) =
      Inr (\<lparr>topic = t, packet_id = pid, content = p\<rparr>, 1, retain, rest)"
  using assms
  by (simp add: encode_publish_def encode_publish_retained_def encode_publish_qos1_def append_string_eq
      read_publish_encode packet_qos_def packet_retained_def max_packet_size_def
      decode_publish_qos0 decode_publish_qos)

theorem publish_roundtrip_witness:
  "read_publish (encode_publish_qos1 ''a/b'' [1, 2, 3] 77 True @ [5]) =
    Inr (\<lparr>topic = ''a/b'', packet_id = 77, content = [1, 2, 3]\<rparr>, 1, True, [5])"
  using publish_roundtrip [of "''a/b''" "[1, 2, 3]" "[5]" 77 True] by simp

text \<open>
  \<open>DecodeSubscribe\<close> recovers the packet id and all filters, in order, from what
  \<open>EncodeSubscribe\<close> wrote, and the SUBACK that answers it grants level 0 once per filter under the
  same packet id.
\<close>

theorem subscribe_roundtrip:
  assumes "list_all (\<lambda>t. length t < 2 ^ 16) ts" "length ts \<le> 8"
  shows "\<exists>p. read_packet (encode_subscribe pid qos ts @ rest) = Inr (p, rest) \<and> ptype p = type_subscribe \<and>
      decode_subscribe (pbody p) = Inr (pid, ts) \<and>
      (ts \<noteq> [] \<longrightarrow> (\<exists>a. read_packet (encode_suback pid (length ts) @ rest) = Inr (a, rest) \<and> ptype a = type_suback \<and>
        decode_suback (pbody a) = Inr (pid, replicate (length ts) 0)))"
  using assms read_encode [of type_subscribe 2 "foldl (\<lambda>body t. append_string body t @ [qos]) (put16 pid) ts" rest]
    read_encode [of type_suback 0 "put16 pid @ replicate (length ts) 0" rest]
    length_subscribe_body [OF assms(1), of qos pid] decode_suback_body [of ts pid]
  by (simp add: encode_subscribe_def encode_suback_def packet_types decode_subscribe_body max_packet_size_def)

theorem subscribe_roundtrip_witness:
  "\<exists>p. read_packet (encode_subscribe 3 1 [''a/#'', ''b''] @ []) = Inr (p, []) \<and> decode_subscribe (pbody p) = Inr (3, [''a/#'', ''b''])"
  using subscribe_roundtrip [of "[''a/#'', ''b'']" 3 1 "[]"] by auto

end
