(* ===== verification/Alink.thy ===== *)
theory Alink
  imports JsonDecode Codec Bulb
begin

text \<open>
  The Alink payloads of \<open>internal/protocol/alink.go\<close> and \<open>capabilities.go\<close>: identities, topics,
  state reports and how they are folded onto a state, commands and their replies, and what a
  firmware version says a bulb can do.
\<close>

section \<open>Identity and topics\<close>

record identity =
  device_name :: string
  product_key :: string

text \<open>None stands for the error that quotes the user name and the client id.\<close>

definition identity_from_connect :: "connect \<Rightarrow> identity option" where
  "identity_from_connect c =
     (let (name, key, ok) = cut (username c) CHR ''&''
      in if ok \<and> name \<noteq> [] \<and> key \<noteq> [] then Some \<lparr>device_name = name, product_key = key\<rparr>
         else
           (let (head, _, _) = cut (client_id c) CHR ''|'';
                (key', name', ok') = cut head CHR ''.''
            in if ok' \<and> key' \<noteq> [] \<and> name' \<noteq> [] then Some \<lparr>device_name = name', product_key = key'\<rparr>
               else None))"

definition identity_device_id :: "identity \<Rightarrow> string" where
  "identity_device_id i = device_name i"

definition common_service :: "identity \<Rightarrow> string" where
  "common_service i = ''/sys/'' @ product_key i @ ''/'' @ device_name i @ ''/thing/service/CommonService''"

definition property_post_reply :: "identity \<Rightarrow> string" where
  "property_post_reply i = ''/sys/'' @ product_key i @ ''/'' @ device_name i @ ''/thing/event/property/post_reply''"

definition ntp_response :: "identity \<Rightarrow> string" where
  "ntp_response i = ''/ext/ntp/'' @ product_key i @ ''/'' @ device_name i @ ''/response''"

definition suffix_property_post :: string where
  "suffix_property_post = ''/thing/event/property/post''"
definition suffix_service_reply :: string where
  "suffix_service_reply = ''/thing/service/CommonService_reply''"
definition suffix_ota_inform :: string where
  "suffix_ota_inform = ''/ota/device/inform/''"
definition suffix_ntp_request :: string where
  "suffix_ntp_request = ''/request''"

section \<open>State reports\<close>

definition prop_switch :: string where "prop_switch = ''LightSwitch''"
definition prop_brightness :: string where "prop_brightness = ''Brightness''"
definition prop_color_temp :: string where "prop_color_temp = ''ColorTemperature''"
definition prop_light_mode :: string where "prop_light_mode = ''LightMode''"
definition prop_response :: string where "prop_response = ''CommonServiceResponse''"

lemmas prop_names =
  prop_switch_def prop_brightness_def prop_color_temp_def prop_light_mode_def prop_response_def

record property_post =
  post_id :: string
  post_power :: "bool option"
  post_brightness :: "byte option"
  post_color_temp :: "byte option"
  post_mode :: "mode option"
  post_seq :: string

definition no_post :: property_post where
  "no_post = \<lparr>post_id = [], post_power = None, post_brightness = None, post_color_temp = None,
     post_mode = None, post_seq = []\<rparr>"

text \<open>
  \<open>alinkValue.number\<close>: the value itself, or the member \<open>value\<close> of an object. The raw text the
  program keeps is the tree it parses to; \<open>null\<close> leaves the zero it is decoded over.
\<close>

definition alink_number :: "json \<Rightarrow> rat option" where
  "alink_number j =
     (let (direct, ok) = dec_float j 0
      in if ok then Some direct
         else
           (let (wrapped, ok') = dec_struct [(''value'', field id (\<lambda>x _. x) dec_float)] j 0
            in if ok' then Some wrapped else None))"

definition alink_seq :: "json \<Rightarrow> string" where
  "alink_seq j =
     (let (s, ok) =
        dec_struct [(''value'', dec_struct [(''seq'', field id (\<lambda>x _. x) dec_string)])] j []
      in if ok then s else [])"

definition clamp_percent :: "rat \<Rightarrow> byte" where
  "clamp_percent n = (if n < 0 then 0 else if 100 < n then 100 else of_int \<lfloor>n\<rfloor>)"

text \<open>\<open>map[string]alinkValue\<close>: exact member names, the last of several wins, \<open>null\<close> empties it.\<close>

definition dec_params :: "(string \<times> json) list dec" where
  "dec_params j m =
     (case j of
        JObj kvs \<Rightarrow> (foldl (\<lambda>m (k, v). aset k v m) m kvs, True)
      | JNull \<Rightarrow> ([], True)
      | _ \<Rightarrow> (m, False))"

record post_message =
  msg_id :: string
  msg_params :: "(string \<times> json) list"

definition dec_post_message :: "post_message dec" where
  "dec_post_message =
     dec_struct [(''id'', field msg_id (\<lambda>x r. r\<lparr>msg_id := x\<rparr>) dec_string),
                 (''params'', field msg_params (\<lambda>x r. r\<lparr>msg_params := x\<rparr>) dec_params)]"

definition post_step :: "property_post \<Rightarrow> string \<times> json \<Rightarrow> property_post" where
  "post_step post p =
     (let (name, v) = p in
      if name = prop_switch then
        (case alink_number v of None \<Rightarrow> post | Some n \<Rightarrow> post\<lparr>post_power := Some (n \<noteq> 0)\<rparr>)
      else if name = prop_brightness then
        (case alink_number v of None \<Rightarrow> post | Some n \<Rightarrow> post\<lparr>post_brightness := Some (clamp_percent n)\<rparr>)
      else if name = prop_color_temp then
        (case alink_number v of None \<Rightarrow> post | Some n \<Rightarrow> post\<lparr>post_color_temp := Some (clamp_percent n)\<rparr>)
      else if name = prop_light_mode then
        (case alink_number v of
           None \<Rightarrow> post
         | Some n \<Rightarrow> post\<lparr>post_mode := Some (if n \<noteq> 0 then mode_scene else mode_white)\<rparr>)
      else if name = prop_response then post\<lparr>post_seq := alink_seq v\<rparr>
      else post)"

definition decode_property_post :: "string \<Rightarrow> property_post option" where
  "decode_property_post payload =
     (case unmarshal dec_post_message \<lparr>msg_id = [], msg_params = []\<rparr> payload of
        None \<Rightarrow> None
      | Some msg \<Rightarrow> Some (foldl post_step (no_post\<lparr>post_id := msg_id msg\<rparr>) (msg_params msg)))"

definition apply_post :: "property_post \<Rightarrow> light_state \<Rightarrow> time \<Rightarrow> light_state" where
  "apply_post p prev t =
     (let n1 = (case post_power p of None \<Rightarrow> prev | Some x \<Rightarrow> prev\<lparr>power := x\<rparr>);
          n2 = (case post_brightness p of None \<Rightarrow> n1 | Some x \<Rightarrow> n1\<lparr>brightness := x\<rparr>);
          n3 = (case post_color_temp p of None \<Rightarrow> n2 | Some x \<Rightarrow> n2\<lparr>color_temp := x\<rparr>);
          n4 = (case post_mode p of None \<Rightarrow> n3 | Some x \<Rightarrow> n3\<lparr>light_mode := x\<rparr>)
      in n4\<lparr>reported_at := t\<rparr>)"

definition encode_property_post_reply :: "string \<Rightarrow> string" where
  "encode_property_post_reply i =
     marshal (jmap [(''code'', jint 200), (''data'', jmap []), (''id'', JStr i),
       (''message'', JStr ''success''), (''method'', JStr ''thing.event.property.post''),
       (''version'', JStr ''1.0'')])"

section \<open>Commands\<close>

definition go_mod :: "int \<Rightarrow> int \<Rightarrow> int" where
  "go_mod a b = a - b * go_div a b"

definition command_seq :: "time \<Rightarrow> string" where
  "command_seq now = ''10000@'' @ itoa (unix_milli now)"

definition encode_command :: "(string \<times> json) list \<Rightarrow> time \<Rightarrow> string \<times> string" where
  "encode_command props now =
     (let inner = marshal (jmap props);
          millis = unix_milli now;
          sq = command_seq now;
          msg = jmap
            [(''method'', JStr ''thing.service.CommonService''),
             (''id'', JStr (itoa (go_mod millis 1000000000))),
             (''version'', JStr ''1.0.0''),
             (''params'', jmap [(''flag'', jint 0), (''method'', jint 0), (''params'', JStr inner), (''seq'', JStr sq)])]
      in (marshal msg, sq))"

record property =
  prop_name :: string
  prop_value :: int

definition property_map :: "property \<Rightarrow> (string \<times> json) list" where
  "property_map p = [(prop_name p, jint (prop_value p))]"

definition changed_props :: "light_state \<Rightarrow> light_state \<Rightarrow> capabilities \<Rightarrow> property list" where
  "changed_props current want caps =
     (if power want \<and> power want \<noteq> power current then [\<lparr>prop_name = prop_switch, prop_value = 1\<rparr>] else []) @
     (if power want then
        (if 0 < brightness want \<and> brightness want \<noteq> brightness current
         then [\<lparr>prop_name = prop_brightness, prop_value = uint (brightness want)\<rparr>] else []) @
        (if supports_color_temp caps \<and> color_temp want \<noteq> color_temp current
         then [\<lparr>prop_name = prop_color_temp, prop_value = uint (color_temp want)\<rparr>] else [])
      else []) @
     (if \<not> power want \<and> power want \<noteq> power current then [\<lparr>prop_name = prop_switch, prop_value = 0\<rparr>] else [])"

definition encode_ntp_response :: "string \<Rightarrow> time \<Rightarrow> string" where
  "encode_ntp_response sent now =
     marshal (jmap [(''deviceSendTime'', JStr sent), (''serverRecvTime'', JStr (itoa (unix_milli now))),
       (''serverSendTime'', JStr (itoa (unix_milli now)))])"

text \<open>
  \<open>DecodeNTPRequest\<close>: the raw text of the member, without the quotes around it. Text that does not
  parse, or is no object and not \<open>null\<close>, is an error; the last of several members wins.
\<close>

definition trim_quotes :: "string \<Rightarrow> string" where
  "trim_quotes s = rev (dropWhile (\<lambda>c. c = quote_char) (rev (dropWhile (\<lambda>c. c = quote_char) s)))"

definition decode_ntp_request :: "string \<Rightarrow> string" where
  "decode_ntp_request payload =
     (case json_parse payload of
        Some (JObj _) \<Rightarrow>
          trim_quotes (foldl (\<lambda>raw (name, v). if equal_fold ''deviceSendTime'' name then v else raw) [] (raw_object payload))
      | Some JNull \<Rightarrow> []
      | _ \<Rightarrow> ''0'')"

record service_reply =
  reply_id :: string
  reply_code :: int

definition decode_service_reply :: "string \<Rightarrow> service_reply option" where
  "decode_service_reply payload =
     unmarshal
       (dec_struct [(''id'', field reply_id (\<lambda>x r. r\<lparr>reply_id := x\<rparr>) dec_string),
                    (''code'', field reply_code (\<lambda>x r. r\<lparr>reply_code := x\<rparr>) dec_int)])
       \<lparr>reply_id = [], reply_code = 0\<rparr> payload"

section \<open>Capabilities\<close>

definition decode_ota_version :: "string \<Rightarrow> string" where
  "decode_ota_version payload =
     (case unmarshal
        (dec_struct [(''params'', dec_struct [(''version'', field id (\<lambda>x _. x) dec_string)])]) [] payload of
        None \<Rightarrow> [] | Some v \<Rightarrow> v)"

definition capabilities_from_version :: "string \<Rightarrow> capabilities" where
  "capabilities_from_version version =
     (let caps = no_caps\<lparr>min_brightness := 1\<rparr>; v = to_lower version
      in if v = [] then caps
         else if contains v ''rgbcct'' \<or> contains v ''rgbw''
           then caps\<lparr>cap_known := True, cap_color := True, cap_color_temp := True\<rparr>
         else if contains v ''rgb'' then caps\<lparr>cap_known := True, cap_color := True\<rparr>
         else if contains v ''cct'' then caps\<lparr>cap_known := True, cap_color_temp := True\<rparr>
         else caps)"

definition refine_from_report :: "capabilities \<Rightarrow> property_post \<Rightarrow> capabilities" where
  "refine_from_report caps post =
     (if post_color_temp post \<noteq> None
      then (let c = caps\<lparr>cap_color_temp := True\<rparr> in if \<not> cap_known c then c\<lparr>cap_known := True\<rparr> else c)
      else caps)"

section \<open>What a report says\<close>

lemma prop_names_distinct:
  "distinct [prop_switch, prop_brightness, prop_color_temp, prop_light_mode, prop_response]"
  by (simp add: prop_names)

text \<open>The number a report gives for a property, if it gives one.\<close>

definition report_number :: "(string \<times> json) list \<Rightarrow> string \<Rightarrow> rat option" where
  "report_number kvs k = Option.bind (map_of kvs k) alink_number"

definition post_of :: "string \<Rightarrow> (string \<times> json) list \<Rightarrow> property_post" where
  "post_of i kvs =
     \<lparr>post_id = i,
      post_power = map_option (\<lambda>n. n \<noteq> 0) (report_number kvs prop_switch),
      post_brightness = map_option clamp_percent (report_number kvs prop_brightness),
      post_color_temp = map_option clamp_percent (report_number kvs prop_color_temp),
      post_mode = map_option (\<lambda>n. if n \<noteq> 0 then mode_scene else mode_white) (report_number kvs prop_light_mode),
      post_seq = (case map_of kvs prop_response of None \<Rightarrow> [] | Some v \<Rightarrow> alink_seq v)\<rparr>"

lemma prop_names_neq [simp]:
  "prop_switch \<noteq> prop_brightness" "prop_switch \<noteq> prop_color_temp" "prop_switch \<noteq> prop_light_mode"
  "prop_switch \<noteq> prop_response" "prop_brightness \<noteq> prop_color_temp" "prop_brightness \<noteq> prop_light_mode"
  "prop_brightness \<noteq> prop_response" "prop_color_temp \<noteq> prop_light_mode" "prop_color_temp \<noteq> prop_response"
  "prop_light_mode \<noteq> prop_response"
  by (simp_all add: prop_names)

lemmas prop_names_neq' [simp] = prop_names_neq [symmetric]

lemma report_number_Cons:
  "report_number ((k, v) # kvs) x = (if x = k then alink_number v else report_number kvs x)"
  by (simp add: report_number_def)

lemma foldl_post_step:
  assumes "distinct (map fst kvs)"
  shows "foldl post_step p kvs =
     \<lparr>post_id = post_id p,
      post_power = (case report_number kvs prop_switch of None \<Rightarrow> post_power p | Some n \<Rightarrow> Some (n \<noteq> 0)),
      post_brightness = (case report_number kvs prop_brightness of None \<Rightarrow> post_brightness p | Some n \<Rightarrow> Some (clamp_percent n)),
      post_color_temp = (case report_number kvs prop_color_temp of None \<Rightarrow> post_color_temp p | Some n \<Rightarrow> Some (clamp_percent n)),
      post_mode = (case report_number kvs prop_light_mode of None \<Rightarrow> post_mode p
                   | Some n \<Rightarrow> Some (if n \<noteq> 0 then mode_scene else mode_white)),
      post_seq = (case map_of kvs prop_response of None \<Rightarrow> post_seq p | Some v \<Rightarrow> alink_seq v)\<rparr>"
  using assms
proof (induction kvs arbitrary: p)
  case Nil
  then show ?case by (simp add: report_number_def)
next
  case (Cons kv kvs)
  obtain k v where kv: "kv = (k, v)" by (cases kv)
  have none: "map_of kvs k = None"
    using Cons.prems kv by (simp add: map_of_eq_None_iff)
  then have none': "report_number kvs k = None" by (simp add: report_number_def)
  have step: "foldl post_step p (kv # kvs) = foldl post_step (post_step p kv) kvs" by simp
  note IH = Cons.IH [OF distinct_tl [OF Cons.prems, unfolded list.map list.sel], of "post_step p kv"]
  consider "k = prop_switch" | "k = prop_brightness" | "k = prop_color_temp" | "k = prop_light_mode"
    | "k = prop_response"
    | "k \<noteq> prop_switch" "k \<noteq> prop_brightness" "k \<noteq> prop_color_temp" "k \<noteq> prop_light_mode" "k \<noteq> prop_response"
    by blast
  then show ?case
    unfolding step IH unfolding kv
    using none none' by cases (simp_all add: report_number_Cons post_step_def split: option.split)
qed

lemma foldl_aset_distinct:
  "distinct (map fst (m @ kvs)) \<Longrightarrow> foldl (\<lambda>m (k, v). aset k v m) m kvs = m @ kvs"
proof (induction kvs arbitrary: m)
  case (Cons kv kvs)
  then have "aset (fst kv) (snd kv) m = m @ [kv]"
    by (subst aset_fresh) auto
  with Cons show ?case by (simp add: case_prod_beta)
qed simp

lemma dec_params_distinct: "distinct (map fst kvs) \<Longrightarrow> dec_params (JObj kvs) [] = (kvs, True)"
  using foldl_aset_distinct [of "[]" kvs] by (simp add: dec_params_def)

text \<open>A report message, with the members the bulbs send.\<close>

definition report_json :: "string \<Rightarrow> (string \<times> json) list \<Rightarrow> json" where
  "report_json i kvs = jmap [(''id'', JStr i), (''version'', JStr ''1.0''),
     (''method'', JStr ''thing.event.property.post''), (''params'', JObj kvs)]"

lemma find_post_fields:
  "find_field [(''id'', d1), (''params'', d2)] ''id'' = Some d1"
  "find_field [(''id'', d1), (''params'', d2)] ''params'' = Some d2"
  "find_field [(''id'', d1), (''params'', d2)] ''version'' = None"
  "find_field [(''id'', d1), (''params'', d2)] ''method'' = None"
proof -
  show "find_field [(''id'', d1), (''params'', d2)] ''id'' = Some d1"
    "find_field [(''id'', d1), (''params'', d2)] ''params'' = Some d2"
    by (simp_all add: find_field_exact)
  have "\<not> equal_fold ''id'' ''version'' \<and> \<not> equal_fold ''params'' ''version''
      \<and> \<not> equal_fold ''id'' ''method'' \<and> \<not> equal_fold ''params'' ''method''"
    by code_simp
  then show "find_field [(''id'', d1), (''params'', d2)] ''version'' = None"
    "find_field [(''id'', d1), (''params'', d2)] ''method'' = None"
    by (simp_all add: find_field_none)
qed

lemma report_json_eq:
  "report_json i kvs = JObj [(''id'', JStr i), (''method'', JStr ''thing.event.property.post''),
     (''params'', JObj kvs), (''version'', JStr ''1.0'')]"
  by (simp add: report_json_def jmap_def)

lemma unmarshal_report:
  assumes "valid_utf8 i" "json_ok (JObj kvs)" "json_depth (JObj kvs) < max_nesting" "distinct (map fst kvs)"
  shows "unmarshal dec_post_message \<lparr>msg_id = [], msg_params = []\<rparr> (marshal (report_json i kvs)) =
    Some \<lparr>msg_id = i, msg_params = kvs\<rparr>"
proof -
  have "json_ok (report_json i kvs)" "json_depth (report_json i kvs) \<le> max_nesting"
    using assms(1-3) by (simp_all add: report_json_eq valid_utf8_ascii del: json_ok.simps(4)) (simp_all add: list_all_iff)
  then have "unmarshal dec_post_message \<lparr>msg_id = [], msg_params = []\<rparr> (marshal (report_json i kvs)) =
      (let (x, ok) = dec_post_message (report_json i kvs) \<lparr>msg_id = [], msg_params = []\<rparr> in if ok then Some x else None)"
    by (rule unmarshal_marshal)
  then show ?thesis
    using assms(4)
    by (simp add: dec_post_message_def dec_struct_def report_json_eq find_post_fields field_def dec_params_distinct)
qed

lemma decode_report_eq:
  assumes "valid_utf8 i" "json_ok (JObj kvs)" "json_depth (JObj kvs) < max_nesting" "distinct (map fst kvs)"
  shows "decode_property_post (marshal (report_json i kvs)) = Some (post_of i kvs)"
  by (simp add: decode_property_post_def unmarshal_report [OF assms] foldl_post_step [OF assms(4)] post_of_def
      no_post_def map_option_case cong: option.case_cong)

section \<open>Values and folding\<close>

lemma alink_number_bare: "0 \<le> n \<Longrightarrow> n < 2 ^ 53 \<Longrightarrow> alink_number (jint n) = Some (of_int n)"
  by (simp add: alink_number_def dec_float_jint)

lemma find_wrapped:
  "find_field [(''value'', d)] ''value'' = Some d" "find_field [(''value'', d)] ''time'' = None"
  "find_field [(''seq'', d)] ''seq'' = Some d"
proof -
  show "find_field [(''value'', d)] ''value'' = Some d" "find_field [(''seq'', d)] ''seq'' = Some d"
    by (simp_all add: find_field_exact)
  have "\<not> equal_fold ''value'' ''time''" by code_simp
  then show "find_field [(''value'', d)] ''time'' = None" by (simp add: find_field_none)
qed

text \<open>The wrapper a delta puts around a value.\<close>

definition wrapped :: "json \<Rightarrow> json \<Rightarrow> json" where
  "wrapped t v = jmap [(''value'', v), (''time'', t)]"

lemma wrapped_eq: "wrapped t v = JObj [(''time'', t), (''value'', v)]"
  by (simp add: wrapped_def jmap_def)

lemma alink_number_wrapped:
  "0 \<le> n \<Longrightarrow> n < 2 ^ 53 \<Longrightarrow> alink_number (wrapped t (jint n)) = Some (of_int n)"
  by (simp add: alink_number_def wrapped_eq dec_float_def dec_struct_def find_wrapped field_def)
    (simp add: dec_float_jint flip: dec_float_def)

lemma alink_seq_wrapped: "alink_seq (wrapped t (JObj [(''seq'', JStr s)])) = s"
  by (simp add: alink_seq_def wrapped_eq dec_struct_def find_wrapped field_def)

lemma clamp_percent_int: "0 \<le> n \<Longrightarrow> n \<le> 100 \<Longrightarrow> clamp_percent (of_int n) = of_int n"
  by (simp add: clamp_percent_def)

lemma clamp_percent_range: "uint (clamp_percent n) \<le> 100"
proof -
  have "uint (of_int k :: byte) \<le> 100" if "0 \<le> k" "k \<le> 100" for k
    using that by (simp add: uint_word_of_int_eq take_bit_eq_mod)
  moreover have "0 \<le> n \<Longrightarrow> n \<le> 100 \<Longrightarrow> 0 \<le> \<lfloor>n\<rfloor> \<and> \<lfloor>n\<rfloor> \<le> 100"
    by (simp add: floor_le_iff)
  ultimately show ?thesis by (auto simp: clamp_percent_def not_less)
qed

lemma apply_post_fields [simp]:
  "power (apply_post p s t) = (case post_power p of None \<Rightarrow> power s | Some x \<Rightarrow> x)"
  "brightness (apply_post p s t) = (case post_brightness p of None \<Rightarrow> brightness s | Some x \<Rightarrow> x)"
  "color_temp (apply_post p s t) = (case post_color_temp p of None \<Rightarrow> color_temp s | Some x \<Rightarrow> x)"
  "light_mode (apply_post p s t) = (case post_mode p of None \<Rightarrow> light_mode s | Some x \<Rightarrow> x)"
  "reported_at (apply_post p s t) = t"
  by (simp_all add: apply_post_def Let_def split: option.split)

section \<open>Properties\<close>

lemma identity_username:
  "cut (username c) CHR ''&'' = (n, k, True) \<Longrightarrow> n \<noteq> [] \<Longrightarrow> k \<noteq> [] \<Longrightarrow>
    identity_from_connect c = Some \<lparr>device_name = n, product_key = k\<rparr>"
  by (simp add: identity_from_connect_def)

text \<open>
  The identity of a bulb is read from the user name \<open>deviceName&productKey\<close>, else from the head
  \<open>productKey.deviceName\<close> of the client id; whichever it is, both parts are non-empty, so no bulb is
  ever registered under an empty device id.
\<close>

theorem identity_of_connect:
  "identity_from_connect c = Some i \<longleftrightarrow>
    device_name i \<noteq> [] \<and> product_key i \<noteq> [] \<and>
    (username c = device_name i @ ''&'' @ product_key i \<and> CHR ''&'' \<notin> set (device_name i) \<or>
     (\<nexists>n k. n \<noteq> [] \<and> k \<noteq> [] \<and> CHR ''&'' \<notin> set n \<and> username c = n @ ''&'' @ k) \<and>
     (\<exists>tail more. client_id c = product_key i @ ''.'' @ device_name i @ tail \<and> CHR ''.'' \<notin> set (product_key i)
        \<and> CHR ''|'' \<notin> set (product_key i) \<and> CHR ''|'' \<notin> set (device_name i) \<and> (tail = [] \<or> tail = CHR ''|'' # more)))"
proof (cases "\<exists>n k. n \<noteq> [] \<and> k \<noteq> [] \<and> CHR ''&'' \<notin> set n \<and> username c = n @ ''&'' @ k")
  case True
  then obtain n k where nk: "n \<noteq> []" "k \<noteq> []" "CHR ''&'' \<notin> set n" "username c = n @ CHR ''&'' # k" by auto
  then have "identity_from_connect c = Some \<lparr>device_name = n, product_key = k\<rparr>"
    by (intro identity_username) simp_all
  moreover have "cut (username c) CHR ''&'' = (n, k, True)" using nk by simp
  moreover have "username c = device_name i @ ''&'' @ product_key i \<and> CHR ''&'' \<notin> set (device_name i) \<longleftrightarrow>
      cut (username c) CHR ''&'' = (device_name i, product_key i, True)"
    by (auto simp: cut_True_iff)
  ultimately show ?thesis using True nk(1,2) by (cases i) auto
next
  case False
  obtain n k ok where u: "cut (username c) CHR ''&'' = (n, k, ok)" by (cases "cut (username c) CHR ''&''") auto
  obtain head tl found where h: "cut (client_id c) CHR ''|'' = (head, tl, found)" by (cases "cut (client_id c) CHR ''|''") auto
  have head: "client_id c = head @ (if found then CHR ''|'' # tl else []) \<and> CHR ''|'' \<notin> set head"
    using h by (cases found) (auto simp: cut_True_iff cut_False_iff)
  have "ok \<Longrightarrow> username c = n @ ''&'' @ k \<and> CHR ''&'' \<notin> set n" using u by (simp add: cut_True_iff)
  then have "\<not> (ok \<and> n \<noteq> [] \<and> k \<noteq> [])" using False by blast
  then have "identity_from_connect c = Some i \<longleftrightarrow>
      cut head CHR ''.'' = (product_key i, device_name i, True) \<and> product_key i \<noteq> [] \<and> device_name i \<noteq> []"
    by (cases i) (auto simp: identity_from_connect_def u h split: prod.splits)
  also have "\<dots> \<longleftrightarrow> head = product_key i @ ''.'' @ device_name i \<and> CHR ''.'' \<notin> set (product_key i) \<and> product_key i \<noteq> [] \<and> device_name i \<noteq> []"
    by (simp add: cut_True_iff)
  also have "head = product_key i @ ''.'' @ device_name i \<longleftrightarrow>
     CHR ''|'' \<notin> set (product_key i) \<and> CHR ''|'' \<notin> set (device_name i) \<and>
     (\<exists>tail more. client_id c = product_key i @ ''.'' @ device_name i @ tail \<and> (tail = [] \<or> tail = CHR ''|'' # more))" (is "?L \<longleftrightarrow> ?R")
  proof
    assume ?L
    then show ?R using head by (cases found) auto
  next
    assume ?R
    then obtain tail more where t: "client_id c = (product_key i @ ''.'' @ device_name i) @ tail" "tail = [] \<or> tail = CHR ''|'' # more"
      and no: "CHR ''|'' \<notin> set (product_key i @ ''.'' @ device_name i)" by auto
    from t(2) have "fst (cut (client_id c) CHR ''|'') = product_key i @ ''.'' @ device_name i"
      using t(1) no cut_found [of "CHR ''|''" "product_key i @ ''.'' @ device_name i" more] by (auto simp: cut_missing)
    then show ?L by (simp add: h)
  qed
  finally show ?thesis using False by blast
qed



text \<open>
  Folding a report onto a state. What the bulb sent wins, what it did not send stays, and the
  change list the operator sees is empty exactly when every value sent was the one already held; a
  second report overrides the first field by field.
\<close>

theorem report_wins:
  "(diff_state s (apply_post p s t) = [] \<longleftrightarrow>
      post_power p \<in> {None, Some (power s)} \<and> post_brightness p \<in> {None, Some (brightness s)} \<and>
      post_color_temp p \<in> {None, Some (color_temp s)} \<and> post_mode p \<in> {None, Some (light_mode s)}) \<and>
    diff_state (apply_post p s t) (apply_post p (apply_post p s t) t') = [] \<and>
    apply_post q (apply_post p s t) t' =
      apply_post (q\<lparr>post_power := (case post_power q of None \<Rightarrow> post_power p | Some x \<Rightarrow> Some x),
        post_brightness := (case post_brightness q of None \<Rightarrow> post_brightness p | Some x \<Rightarrow> Some x),
        post_color_temp := (case post_color_temp q of None \<Rightarrow> post_color_temp p | Some x \<Rightarrow> Some x),
        post_mode := (case post_mode q of None \<Rightarrow> post_mode p | Some x \<Rightarrow> Some x)\<rparr>) s t'"
  by (auto simp: diff_state_Nil_iff same_light_def split: option.split intro!: light_state.equality)

text \<open>
  What a report corroborates is only ever added: it never takes a capability away, a bulb that
  reports a colour temperature is known to have one, and one that does not is left as it was; a
  firmware version that names no family leaves the capabilities unknown and then nothing is refused.
\<close>

theorem capabilities_only_grow:
  "(cap_known c \<longrightarrow> cap_known (refine_from_report c p)) \<and> (cap_color c = cap_color (refine_from_report c p)) \<and>
   (cap_color_temp c \<longrightarrow> cap_color_temp (refine_from_report c p)) \<and>
   (supports_color_temp c \<longrightarrow> supports_color_temp (refine_from_report c p)) \<and>
   (post_color_temp p \<noteq> None \<longrightarrow> cap_known (refine_from_report c p) \<and> cap_color_temp (refine_from_report c p)) \<and>
   refine_from_report (refine_from_report c p) p = refine_from_report c p \<and>
   (\<not> contains (to_lower v) ''rgb'' \<and> \<not> contains (to_lower v) ''cct'' \<longrightarrow>
      \<not> cap_known (capabilities_from_version v) \<and> supports_color (capabilities_from_version v)
      \<and> supports_color_temp (capabilities_from_version v))"
proof -
  have "contains s ''rgb''" if "contains s ''rgbcct'' \<or> contains s ''rgbw''" for s
  proof -
    have "''rgbcct'' = ''rgb'' @ ''cct''" "''rgbw'' = ''rgb'' @ ''w''" by simp_all
    with that show ?thesis unfolding contains_iff by (metis append.assoc)
  qed
  then show ?thesis
    by (auto simp: refine_from_report_def supports_color_temp_def supports_color_def capabilities_from_version_def
        no_caps_def Let_def)
qed

theorem capabilities_only_grow_witness:
  "cap_known (refine_from_report no_caps (no_post\<lparr>post_color_temp := Some 3\<rparr>)) \<and>
   cap_color_temp (refine_from_report no_caps (no_post\<lparr>post_color_temp := Some 3\<rparr>)) \<and>
   \<not> cap_known (capabilities_from_version ''v1'')"
proof -
  have "\<not> contains (to_lower ''v1'') ''rgb'' \<and> \<not> contains (to_lower ''v1'') ''cct''" by code_simp
  then show ?thesis
    using capabilities_only_grow [where c = no_caps and p = "no_post\<lparr>post_color_temp := Some 3\<rparr>" and v = "''v1''"] by simp
qed

text \<open>
  \<open>ChangedProps\<close> asks for no more than differs: nothing at all exactly when the bulb already is
  where the commands would take it, at most three commands, each of another property, switching on
  before anything else and switching off alone.
\<close>

theorem changed_props_minimal:
  "(changed_props s w caps = [] \<longleftrightarrow>
      power s = power w \<and> (power w \<longrightarrow> (brightness w = 0 \<or> brightness w = brightness s) \<and>
        (supports_color_temp caps \<longrightarrow> color_temp w = color_temp s))) \<and>
   length (changed_props s w caps) \<le> 3 \<and> distinct (map prop_name (changed_props s w caps)) \<and>
   (\<not> power w \<longrightarrow> length (changed_props s w caps) \<le> 1) \<and>
   (power w \<and> \<not> power s \<longrightarrow> hd (changed_props s w caps) = \<lparr>prop_name = prop_switch, prop_value = 1\<rparr>) \<and>
   (cap_known caps \<and> \<not> cap_color_temp caps \<longrightarrow> prop_color_temp \<notin> prop_name ` set (changed_props s w caps))"
proof -
  have pos: "0 < b \<longleftrightarrow> b \<noteq> 0" for b :: byte by (simp add: word_gt_0)
  show ?thesis by (auto simp: changed_props_def pos supports_color_temp_def)
qed

theorem changed_props_minimal_witness:
  "hd (changed_props zero_state (zero_state\<lparr>power := True, brightness := 30\<rparr>) no_caps) = \<lparr>prop_name = prop_switch, prop_value = 1\<rparr>
   \<and> length (changed_props (zero_state\<lparr>power := True\<rparr>) zero_state no_caps) \<le> 1"
  using changed_props_minimal [where s = zero_state and w = "zero_state\<lparr>power := True, brightness := 30\<rparr>" and caps = no_caps]
    changed_props_minimal [where s = "zero_state\<lparr>power := True\<rparr>" and w = zero_state and caps = no_caps]
  by (simp add: zero_state_def)

end
