(* ===== verification/Fakebulb.thy ===== *)
theory Fakebulb
  imports Alink
begin

text \<open>
  The bulb's half of the protocol, \<open>internal/bulb/fakebulb/fakebulb.go\<close>: the handshake, the full
  report on power-up, the deltas, and what a bulb does with a command. It is the device the rest
  of the development is checked against. A step returns the bytes the bulb sends; the
  connection, the TLS options, the errors of sending and the channel a test reads commands from are in
  BulbLife.
\<close>

section \<open>float64 as JSON\<close>

text \<open>
  A value of type \<open>any\<close> is the tree that marshals it, so a number decoded into \<open>any\<close>, a float64,
  is its shortest decimal text: \<open>float_digits\<close> finds the least number of digits that round back to
  the value. Zero has no sign here.
\<close>

definition pow10 :: "int \<Rightarrow> rat" where
  "pow10 e = (if 0 \<le> e then 10 ^ nat e else 1 / 10 ^ nat (- e))"

definition floor_log10 :: "rat \<Rightarrow> int" where
  "floor_log10 q =
     (let (a, b) = quotient_of q;
          e = int (length (nat_str (nat a))) - int (length (nat_str (nat b)))
      in if pow10 e \<le> q then e else e - 1)"

fun float_digits :: "rat \<Rightarrow> int \<Rightarrow> nat list \<Rightarrow> string \<times> int" where
  "float_digits q e [] = ([], 0)"
| "float_digits q e (k # ks) =
     (let place = e - int k + 1;
          m = round_even (q / pow10 place)
      in if ks = [] \<or> round_f64 (of_int m * pow10 place) = Some q then (nat_str (nat m), place)
         else float_digits q e ks)"

definition fmt_float :: "rat \<Rightarrow> string" where
  "fmt_float x =
     (if x = 0 then ''0''
      else
        (let q = \<bar>x\<bar>;
             (ds, place) = float_digits q (floor_log10 q) [1..<18];
             n = int (length ds);
             body =
               (if q < pow10 (- 6) \<or> pow10 21 \<le> q then
                  (let ex = n + place - 1 in
                   take 1 ds @ (if 1 < n then ''.'' @ drop 1 ds else []) @ ''e'' @
                   (if ex < 0 then ''-'' else ''+'') @ nat_str (nat \<bar>ex\<bar>))
                else if 0 \<le> place then ds @ replicate (nat place) CHR ''0''
                else if 0 < n + place then take (nat (n + place)) ds @ ''.'' @ drop (nat (n + place)) ds
                else ''0.'' @ replicate (nat (- (n + place))) CHR ''0'' @ ds)
         in (if x < 0 then ''-'' else []) @ body))"

fun any_of :: "json \<Rightarrow> json" where
  "any_of (JNum lit) = (case round_f64 (lit_value lit) of None \<Rightarrow> JNull | Some x \<Rightarrow> JNum (fmt_float x))"
| "any_of (JArr js) = JArr (map any_of js)"
| "any_of (JObj kvs) = jmap (foldl (\<lambda>m (k, v). aset k v m) [] (map (\<lambda>p. (fst p, any_of (snd p))) kvs))"
| "any_of j = j"

text \<open>\<open>toFloat\<close>: every number that can be in the map.\<close>

definition to_float :: "json \<Rightarrow> rat option" where
  "to_float j = (case j of JNum lit \<Rightarrow> round_f64 (lit_value lit) | _ \<Rightarrow> None)"

section \<open>The bulb\<close>

record fake_options =
  f_product_key :: string
  f_device_name :: string
  f_version :: string
  f_keep_alive :: "16 word"
  f_malformed :: bool
  f_silent :: bool
  f_no_ack :: bool

record fake_bulb =
  f_power :: bool
  f_bright :: byte
  f_temp :: byte
  f_post_id :: int

text \<open>The part of \<open>Dial\<close> that fills in the options and the state of a bulb fresh out of the box.\<close>

definition fake_defaults :: "fake_options \<Rightarrow> fake_options" where
  "fake_defaults opts =
     (let o1 = (if f_product_key opts = [] then opts\<lparr>f_product_key := ''a1GGnyln558''\<rparr> else opts);
          o2 = (if f_device_name o1 = [] then o1\<lparr>f_device_name := ''703e975dc388''\<rparr> else o1)
      in if f_keep_alive o2 = 0 then o2\<lparr>f_keep_alive := 120\<rparr> else o2)"

definition fake_init :: fake_bulb where
  "fake_init = \<lparr>f_power = True, f_bright = 30, f_temp = 2, f_post_id = 0\<rparr>"

definition fake_topic :: "fake_options \<Rightarrow> string \<Rightarrow> string" where
  "fake_topic opts suffix = ''/sys/'' @ f_product_key opts @ ''/'' @ f_device_name opts @ ''/'' @ suffix"

definition fake_connect :: "fake_options \<Rightarrow> connect_options" where
  "fake_connect opts =
     \<lparr>o_client_id = f_product_key opts @ ''.'' @ f_device_name opts @
        ''|securemode=2,tokenType=0,_v=sdk-c-2.3.0,authtype=custom-ilop|'',
      o_keep_alive = f_keep_alive opts,
      o_username = f_device_name opts @ ''&'' @ f_product_key opts,
      o_password = ''fakebulbpassword'',
      o_will_topic = [], o_will_payload = [], o_will_retain = False, o_will_qos = 0, o_clean_session = False\<rparr>"

definition fake_subscribe :: "fake_options \<Rightarrow> bytes" where
  "fake_subscribe opts = encode_subscribe 1 0 [fake_topic opts ''thing/event/+/post_reply'']"

definition inform_payload :: "fake_options \<Rightarrow> string" where
  "inform_payload opts = marshal (jmap [(''id'', JStr ''2''), (''params'', jmap [(''version'', JStr (f_version opts))])])"

definition inform_version :: "fake_options \<Rightarrow> bytes" where
  "inform_version opts =
     encode_publish (''/ota/device/inform/'' @ f_product_key opts @ ''/'' @ f_device_name opts)
       (bytes_of (inform_payload opts))"

definition full_params :: "fake_bulb \<Rightarrow> (string \<times> json) list" where
  "full_params b =
     sort_key fst
       [(''LightType'', jint 1), (''LightSwitch'', jint (if f_power b then 1 else 0)), (''WorkMode'', jint 0),
        (''LightMode'', jint 0), (''ColorTemperature'', jint (uint (f_temp b))), (''Brightness'', jint (uint (f_bright b)))]"

definition post_full_state :: "fake_bulb \<Rightarrow> string \<times> fake_bulb" where
  "post_full_state b =
     (let b' = b\<lparr>f_post_id := f_post_id b + 1\<rparr>
      in (marshal (report_json (itoa (f_post_id b')) (full_params b)), b'))"

definition byte_of_float :: "rat \<Rightarrow> byte" where
  "byte_of_float n = of_int (if n < 0 then - \<lfloor>- n\<rfloor> else \<lfloor>n\<rfloor>)"

definition apply_prop :: "fake_bulb \<Rightarrow> string \<times> json \<Rightarrow> fake_bulb" where
  "apply_prop b p =
     (case to_float (snd p) of
        None \<Rightarrow> b
      | Some n \<Rightarrow>
          if fst p = ''LightSwitch'' then b\<lparr>f_power := n \<noteq> 0\<rparr>
          else if fst p = ''Brightness'' then b\<lparr>f_bright := byte_of_float n\<rparr>
          else if fst p = ''ColorTemperature'' then b\<lparr>f_temp := byte_of_float n\<rparr>
          else b)"

definition apply_locked :: "fake_bulb \<Rightarrow> (string \<times> json) list \<Rightarrow> fake_bulb" where
  "apply_locked b props = foldl apply_prop b props"

definition change_params :: "(string \<times> json) list \<Rightarrow> string \<Rightarrow> int \<Rightarrow> (string \<times> json) list" where
  "change_params props sq now =
     sort_key fst
       (let params = foldl (\<lambda>m (name, v). aset name (wrapped (jint now) v) m) [] props
        in if sq \<noteq> [] then aset ''CommonServiceResponse'' (wrapped (jint now) (jmap [(''seq'', JStr sq)])) params
           else params)"

definition post_change :: "fake_bulb \<Rightarrow> (string \<times> json) list \<Rightarrow> string \<Rightarrow> time \<Rightarrow> string \<times> fake_bulb" where
  "post_change b props sq now =
     (let b' = apply_locked (b\<lparr>f_post_id := f_post_id b + 1\<rparr>) props
      in (marshal (report_json (itoa (f_post_id b')) (change_params props sq (unix_milli now))), b'))"

definition set_power :: "fake_bulb \<Rightarrow> bool \<Rightarrow> time \<Rightarrow> string \<times> fake_bulb" where
  "set_power b on now = post_change b [(''LightSwitch'', jint (if on then 1 else 0))] [] now"

text \<open>\<open>decodeCommand\<close>: the envelope, then the properties inside its string.\<close>

record command_message =
  cm_id :: string
  cm_params :: string
  cm_seq :: string

definition dec_command_message :: "command_message dec" where
  "dec_command_message =
     dec_struct
       [(''id'', field cm_id (\<lambda>x r. r\<lparr>cm_id := x\<rparr>) dec_string),
        (''params'', dec_struct
           [(''params'', field cm_params (\<lambda>x r. r\<lparr>cm_params := x\<rparr>) dec_string),
            (''seq'', field cm_seq (\<lambda>x r. r\<lparr>cm_seq := x\<rparr>) dec_string)])]"

definition decode_props :: "string \<Rightarrow> (string \<times> json) list" where
  "decode_props text' =
     (case json_parse text' of
        Some (JObj kvs) \<Rightarrow> foldl (\<lambda>m (k, v). aset k v m) [] (map (\<lambda>p. (fst p, any_of (snd p))) kvs)
      | _ \<Rightarrow> [])"

definition decode_command :: "string \<Rightarrow> string \<times> (string \<times> json) list \<times> string" where
  "decode_command payload =
     (case unmarshal dec_command_message \<lparr>cm_id = [], cm_params = [], cm_seq = []\<rparr> payload of
        None \<Rightarrow> ([], [], [])
      | Some m \<Rightarrow> (cm_id m, decode_props (cm_params m), cm_seq m))"

definition service_reply_payload :: "string \<Rightarrow> string" where
  "service_reply_payload i = marshal (jmap [(''id'', JStr i), (''code'', jint 200), (''data'', jmap [])])"

text \<open>
  One command of \<open>readLoop\<close>: the payloads of the reply and of the report, where the bulb sends them.
\<close>

definition on_command :: "fake_options \<Rightarrow> fake_bulb \<Rightarrow> string \<Rightarrow> time \<Rightarrow> string option \<times> string option \<times> fake_bulb" where
  "on_command opts b payload now =
     (let (i, props, sq) = decode_command payload
      in if f_silent opts then (None, None, b)
         else if length props \<noteq> 1 then (None, None, b)
         else
           (let (report, b') = post_change b props sq now
            in (if f_no_ack opts then None else Some (service_reply_payload i), Some report, b')))"

text \<open>
  One packet: everything but a publish on the command topic is ignored.
\<close>

definition fake_packet :: "fake_options \<Rightarrow> fake_bulb \<Rightarrow> packet \<Rightarrow> time \<Rightarrow> bytes list \<times> fake_bulb" where
  "fake_packet opts b pkt now =
     (if ptype pkt \<noteq> type_publish then ([], b)
      else
        (case decode_publish (pbody pkt) (packet_qos pkt) of
           Inl _ \<Rightarrow> ([], b)
         | Inr pub \<Rightarrow>
             if \<not> has_suffix (topic pub) ''/thing/service/CommonService'' then ([], b)
             else
               (let (reply, report, b') = on_command opts b (str_of (content pub)) now;
                    send = (\<lambda>suffix p. map (\<lambda>x. encode_publish (fake_topic opts suffix) (bytes_of x)) (case p of None \<Rightarrow> [] | Some x \<Rightarrow> [x]))
                in (send ''thing/service/CommonService_reply'' reply @ send ''thing/event/property/post'' report, b'))))"

text \<open>What the bulb sends once the server has answered its CONNECT.\<close>

definition fake_handshake :: "fake_options \<Rightarrow> fake_bulb \<Rightarrow> packet \<Rightarrow> (bytes list \<times> fake_bulb) option" where
  "fake_handshake opts b pkt =
     (if ptype pkt \<noteq> type_connack then None
      else
        (case decode_connack (pbody pkt) of
           Inl _ \<Rightarrow> None
         | Inr (_, c) \<Rightarrow>
             if c \<noteq> 0 then None
             else if f_malformed opts then Some ([[0x30, 0xff, 0xff, 0xff, 0xff, 0xff]], b)
             else
               (let (report, b') = post_full_state b
                in Some ([fake_subscribe opts] @ (if f_version opts \<noteq> [] then [inform_version opts] else []) @
                     [encode_publish (fake_topic opts ''thing/event/property/post'') (bytes_of report)], b'))))"

section \<open>Integers as float64 text\<close>

lemma nat_str_shift: "0 < m \<Longrightarrow> nat_str (m * 10 ^ p) = nat_str m @ replicate p CHR ''0''"
proof (induction p)
  case (Suc p)
  have "nat_str (m * 10 ^ p * 10) = nat_str (m * 10 ^ p) @ [digit 0]"
    using Suc.prems by (subst nat_str.simps) simp
  moreover have "digit 0 = CHR ''0''" by code_simp
  ultimately show ?case
    using Suc by (simp add: mult.assoc replicate_append_same [symmetric] mult.commute [of 10] del: replicate_append_same)
qed simp

lemma nat_str_bounds: "0 < n \<Longrightarrow> 10 ^ (length (nat_str n) - 1) \<le> n \<and> n < 10 ^ length (nat_str n)"
proof (induction n rule: less_induct)
  case (less n)
  show ?case
  proof (cases "n < 10")
    case True
    then show ?thesis using less.prems by (simp add: nat_str.simps [of n])
  next
    case False
    then have "10 ^ (length (nat_str (n div 10)) - 1) \<le> n div 10 \<and> n div 10 < 10 ^ length (nat_str (n div 10))"
      by (intro less.IH) auto
    moreover obtain k where k: "length (nat_str (n div 10)) = Suc k"
      by (cases "length (nat_str (n div 10))") auto
    moreover have "nat_str n = nat_str (n div 10) @ [digit (n mod 10)]"
      using False by (simp add: nat_str.simps [of n])
    ultimately show ?thesis by simp linarith
  qed
qed

lemma floor_log10_nat:
  assumes "0 < n"
  shows "floor_log10 (of_nat n) = int (length (nat_str n)) - 1"
proof -
  have q: "quotient_of (rat_of_nat n) = (int n, 1)"
    using quotient_of_int [of "int n"] by (simp add: Rat.of_int_def)
  have len: "length (nat_str n) = Suc (length (nat_str n) - 1)" by simp
  have "length (nat_str (Suc 0)) = Suc 0" by (simp add: nat_str.simps [of "Suc 0"])
  moreover have "pow10 (int (length (nat_str n)) - 1) \<le> of_nat n"
  proof -
    have "pow10 (int (length (nat_str n)) - 1) = of_nat (10 ^ (length (nat_str n) - 1))"
      by (subst len) (simp add: pow10_def)
    then show ?thesis using nat_str_bounds [OF assms] of_nat_le_iff by metis
  qed
  ultimately show ?thesis by (simp add: floor_log10_def q)
qed


lemma round_even_bounds:
  assumes "0 \<le> x" "x \<le> of_int N"
  shows "0 \<le> round_even x \<and> round_even x \<le> N"
proof -
  have "0 \<le> \<lfloor>x\<rfloor>" using assms by simp
  moreover have "\<lfloor>x\<rfloor> = N \<Longrightarrow> x = of_int N" using assms by linarith
  moreover have "\<lfloor>x\<rfloor> \<le> N" using assms by linarith
  ultimately show ?thesis
    by (cases "\<lfloor>x\<rfloor> = N") (auto simp: round_even_def Let_def)
qed

lemma float_digits_nat:
  assumes "0 < n" "n < 10 ^ 15" "1 \<le> k" "k \<le> length (nat_str n)"
  shows "\<exists>m p. float_digits (of_nat n) (int (length (nat_str n)) - 1) [k..<18] = (nat_str m, int p) \<and> m * 10 ^ p = n \<and> 0 < m"
  using assms(3,4)
proof (induction "length (nat_str n) - k" arbitrary: k rule: less_induct)
  case (less k)
  let ?L = "length (nat_str n)"
  note bnd = nat_str_bounds [OF assms(1)]
  have "(10 :: nat) ^ (?L - 1) < 10 ^ 15" using bnd assms(2) by linarith
  then have "?L - 1 < 15" using power_less_imp_less_exp [of "10 :: nat" "?L - 1" 15] by linarith
  then have L: "?L \<le> 15" by linarith
  define p where "p = ?L - k"
  have place: "int ?L - 1 - int k + 1 = int p" using less.prems by (simp add: p_def)
  have pow: "pow10 (int p) = of_nat (10 ^ p)" by (simp add: pow10_def)
  define m where "m = round_even (of_nat n / pow10 (int p))"
  have split: "(10 :: nat) ^ ?L = 10 ^ k * 10 ^ p" using less.prems by (simp add: p_def flip: power_add)
  have "rat_of_nat n \<le> of_nat (10 ^ k * 10 ^ p)" using bnd split of_nat_le_iff by (metis less_imp_le_nat)
  then have "rat_of_nat n / of_nat (10 ^ p) \<le> of_int (10 ^ k)" by (simp add: divide_le_eq)
  then have m: "0 \<le> m" "m \<le> 10 ^ k"
    using round_even_bounds [of "rat_of_nat n / of_nat (10 ^ p)" "10 ^ k"] by (simp_all add: m_def pow)
  define j where "j = nat m"
  have mj: "m = int j" using m by (simp add: j_def)
  have "j \<le> 10 ^ k" using m(2) by (simp add: j_def nat_le_iff)
  then have "j * 10 ^ p \<le> 10 ^ ?L" using split by simp
  also have "(10 :: nat) ^ ?L \<le> 10 ^ 15" using L by (rule power_increasing) simp
  also have "\<dots> < 2 ^ 53" by simp
  finally have exact: "round_f64 (of_nat (j * 10 ^ p)) = Some (of_nat (j * 10 ^ p))"
    by (rule round_f64_nat)
  have cand: "of_int m * pow10 (int p) = rat_of_nat (j * 10 ^ p)" by (simp add: mj pow)
  have up: "[k..<18] = k # [Suc k..<18]" "[Suc k..<18] \<noteq> []" using less.prems L by (simp_all add: upt_conv_Cons)
  show ?case
  proof (cases "j * 10 ^ p = n")
    case True
    then have "0 < j" using assms(1) by (cases j) auto
    moreover have "float_digits (of_nat n) (int ?L - 1) [k..<18] = (nat_str j, int p)"
      using True exact cand by (simp add: up place Let_def flip: m_def) (simp add: j_def)
    ultimately show ?thesis using True by blast
  next
    case False
    have "k \<noteq> ?L"
    proof
      assume "k = ?L"
      then have "p = 0" by (simp add: p_def)
      then have "m = int n" using round_even_int [of "int n"] by (simp add: m_def pow10_def)
      with False \<open>p = 0\<close> show False by (simp add: j_def)
    qed
    then have "\<exists>m p. float_digits (of_nat n) (int ?L - 1) [Suc k..<18] = (nat_str m, int p) \<and> m * 10 ^ p = n \<and> 0 < m"
      using less.prems by (intro less.hyps) auto
    moreover have "float_digits (of_nat n) (int ?L - 1) [k..<18] = float_digits (of_nat n) (int ?L - 1) [Suc k..<18]"
      using False exact cand up(2) of_nat_eq_iff [where 'a = rat, of "j * 10 ^ p" n]
      by (simp add: up(1) place Let_def flip: m_def)
    ultimately show ?thesis by simp
  qed
qed

lemma fmt_float_nat:
  assumes "n < 10 ^ 15"
  shows "fmt_float (of_nat n) = nat_str n"
proof (cases "n = 0")
  case True
  have "nat_str 0 = ''0''" by code_simp
  with True show ?thesis by (simp add: fmt_float_def)
next
  case False
  have "1 \<le> length (nat_str n)" by (simp add: Suc_le_eq)
  then obtain m p where d: "float_digits (of_nat n) (int (length (nat_str n)) - 1) [1..<18] = (nat_str m, int p)"
      "m * 10 ^ p = n" "0 < m"
    using float_digits_nat [of n 1] False assms by auto
  have "\<not> rat_of_nat n < pow10 (- 6)" using False by (simp add: pow10_def)
  moreover have "rat_of_nat n < of_nat (10 ^ 21)" using assms of_nat_less_iff [of n "10 ^ 21", where 'a = rat] by simp
  then have "\<not> pow10 21 \<le> rat_of_nat n" by (simp add: pow10_def)
  ultimately show ?thesis
    using False d(1,3) nat_str_shift [OF d(3), of p]
    by (simp add: fmt_float_def floor_log10_nat Let_def d(2))
qed

lemma any_of_jint: "0 \<le> n \<Longrightarrow> n < 10 ^ 15 \<Longrightarrow> any_of (jint n) = jint n"
  using fmt_float_nat [of "nat n"] round_f64_nat [of "nat n"]
  by (simp add: jint_def lit_value_itoa) (simp add: itoa_def)

lemma to_float_jint: "0 \<le> n \<Longrightarrow> n < 2 ^ 53 \<Longrightarrow> to_float (jint n) = Some (of_int n)"
  using round_f64_nat [of "nat n"] by (simp add: to_float_def jint_def lit_value_itoa)

section \<open>The server and the bulb understand each other\<close>

text \<open>The state of the bulb as the server sees it.\<close>

definition fake_view :: "fake_bulb \<Rightarrow> time \<Rightarrow> light_state" where
  "fake_view b t = \<lparr>power = f_power b, brightness = f_bright b, color_temp = f_temp b,
     light_mode = mode_white, reported_at = t\<rparr>"

text \<open>The properties \<open>ChangedProps\<close> can ask for, with the values the hardware takes.\<close>

definition settable :: "property \<Rightarrow> bool" where
  "settable p \<longleftrightarrow> 0 \<le> prop_value p \<and> prop_value p \<le> 100 \<and>
     prop_name p \<in> {prop_switch, prop_brightness, prop_color_temp}"

definition set_light :: "light_state \<Rightarrow> property \<Rightarrow> light_state" where
  "set_light s p =
     (if prop_name p = prop_switch then s\<lparr>power := prop_value p \<noteq> 0\<rparr>
      else if prop_name p = prop_brightness then s\<lparr>brightness := of_int (prop_value p)\<rparr>
      else if prop_name p = prop_color_temp then s\<lparr>color_temp := of_int (prop_value p)\<rparr>
      else s)"

lemma valid_utf8_inner:
  assumes "settable p"
  shows "valid_utf8 (marshal (jmap (property_map p)))" "valid_utf8 (prop_name p)"
proof -
  have q: "valid_utf8 (quote n @ s) = valid_utf8 s" "valid_utf8 n" if "n \<in> {prop_switch, prop_brightness, prop_color_temp}" for n s
  proof -
    have "valid_utf8 (quote prop_switch) \<and> valid_utf8 (quote prop_brightness) \<and> valid_utf8 (quote prop_color_temp)"
      "valid_utf8 prop_switch \<and> valid_utf8 prop_brightness \<and> valid_utf8 prop_color_temp"
      by code_simp+
    with that show "valid_utf8 (quote n @ s) = valid_utf8 s" "valid_utf8 n" by (auto simp: valid_utf8_append)
  qed
  show "valid_utf8 (prop_name p)" using assms q by (auto simp: settable_def)
  show "valid_utf8 (marshal (jmap (property_map p)))"
    using assms q(1) [of "prop_name p"]
    by (simp add: settable_def jmap_def property_map_def jint_def valid_utf8_append)
qed


lemma valid_utf8_seq: "valid_utf8 (command_seq now)"
proof -
  have "valid_utf8 ''10000@''" by code_simp
  from valid_utf8_append [OF this, of "itoa (unix_milli now)"] show ?thesis
    by (simp add: command_seq_def)
qed

text \<open>The id \<open>EncodeCommand\<close> gives a command.\<close>

definition command_id :: "time \<Rightarrow> string" where
  "command_id now = itoa (go_mod (unix_milli now) 1000000000)"

definition command_json :: "(string \<times> json) list \<Rightarrow> time \<Rightarrow> json" where
  "command_json props now =
     JObj [(''id'', JStr (command_id now)), (''method'', JStr ''thing.service.CommonService''),
       (''params'', JObj [(''flag'', jint 0), (''method'', jint 0),
          (''params'', JStr (marshal (jmap props))), (''seq'', JStr (command_seq now))]),
       (''version'', JStr ''1.0.0'')]"

lemma encode_command_eq: "encode_command props now = (marshal (command_json props now), command_seq now)"
  by (simp add: encode_command_def Let_def command_json_def command_id_def jmap_def)

lemma find_command_fields:
  "find_field [(''id'', d1), (''params'', d2)] ''id'' = Some d1"
  "find_field [(''id'', d1), (''params'', d2)] ''params'' = Some d2"
  "find_field [(''params'', d1), (''seq'', d2)] ''params'' = Some d1"
  "find_field [(''params'', d1), (''seq'', d2)] ''seq'' = Some d2"
  "find_field [(''params'', d1), (''seq'', d2)] ''flag'' = None"
  "find_field [(''params'', d1), (''seq'', d2)] ''method'' = None"
proof -
  have "\<not> equal_fold ''params'' ''flag'' \<and> \<not> equal_fold ''seq'' ''flag'' \<and>
      \<not> equal_fold ''params'' ''method'' \<and> \<not> equal_fold ''seq'' ''method''"
    by code_simp
  then show "find_field [(''params'', d1), (''seq'', d2)] ''flag'' = None"
    "find_field [(''params'', d1), (''seq'', d2)] ''method'' = None"
    by (simp_all add: find_field_none)
qed (simp_all add: find_field_exact)

lemma decode_command_eq:
  assumes "settable p"
  shows "decode_command (fst (encode_command (property_map p) now)) =
    (command_id now, [(prop_name p, jint (prop_value p))], command_seq now)"
proof -
  let ?props = "property_map p" and ?z = "\<lparr>cm_id = [], cm_params = [], cm_seq = []\<rparr>"
  have ok: "json_ok (command_json ?props now)" "json_depth (command_json ?props now) \<le> max_nesting"
    using valid_utf8_inner [OF assms] valid_utf8_seq
    by (simp_all add: command_json_def command_id_def jint_def valid_utf8_ascii max_nesting_def)
  have "unmarshal dec_command_message ?z (marshal (command_json ?props now)) =
      (let (x, ok) = dec_command_message (command_json ?props now) ?z in if ok then Some x else None)"
    using ok by (rule unmarshal_marshal)
  then have msg: "unmarshal dec_command_message ?z (marshal (command_json ?props now)) =
      Some \<lparr>cm_id = command_id now, cm_params = marshal (jmap ?props), cm_seq = command_seq now\<rparr>"
    by (simp add: dec_command_message_def command_json_def dec_struct_def find_command_fields find_post_fields field_def)
  have "json_parse (marshal (jmap ?props)) = Some (jmap ?props)"
    using valid_utf8_inner [OF assms]
    by (intro json_parse_marshal) (simp_all add: jmap_def property_map_def jint_def max_nesting_def)
  moreover have "any_of (jint (prop_value p)) = jint (prop_value p)"
    using assms by (intro any_of_jint) (simp_all add: settable_def)
  ultimately show ?thesis
    by (simp add: decode_command_def encode_command_eq msg decode_props_def) (simp add: jmap_def property_map_def)
qed

lemma decode_service_reply_eq:
  "decode_service_reply (service_reply_payload (itoa n)) = Some \<lparr>reply_id = itoa n, reply_code = 200\<rparr>"
proof -
  let ?j = "JObj [(''code'', jint 200), (''data'', JObj []), (''id'', JStr (itoa n))]"
  have eq: "service_reply_payload (itoa n) = marshal ?j"
    by (simp add: service_reply_payload_def jmap_def)
  have f: "find_field [(''id'', d1), (''code'', d2)] ''id'' = Some d1"
    "find_field [(''id'', d1), (''code'', d2)] ''code'' = Some d2"
    "find_field [(''id'', d1), (''code'', d2)] ''data'' = None" for d1 d2 :: "service_reply dec"
  proof -
    have "\<not> equal_fold ''id'' ''data'' \<and> \<not> equal_fold ''code'' ''data''" by code_simp
    then show "find_field [(''id'', d1), (''code'', d2)] ''data'' = None" by (simp add: find_field_none)
  qed (simp_all add: find_field_exact)
  have u: "unmarshal d z (marshal ?j) = (let (x, ok) = d ?j z in if ok then Some x else None)"
      for d :: "service_reply dec" and z
    by (rule unmarshal_marshal) (simp_all add: valid_utf8_ascii jint_def max_nesting_def)
  show ?thesis
    unfolding decode_service_reply_def eq u
    by (simp add: dec_struct_def f field_def int64_range_def)
qed

lemma distinct_sort_fst: "distinct (map fst xs) \<Longrightarrow> distinct (map fst (sort_key fst xs))"
  by (simp add: distinct_map)

lemma change_params_eq:
  assumes "settable p" "sq \<noteq> []"
  shows "distinct (map fst (change_params [(prop_name p, v)] sq now))"
    "set (change_params [(prop_name p, v)] sq now) =
      {(prop_name p, wrapped (jint now) v), (prop_response, wrapped (jint now) (JObj [(''seq'', JStr sq)]))}"
proof -
  have name: "prop_name p \<noteq> ''CommonServiceResponse''"
    using assms(1) by (auto simp: settable_def prop_names)
  have eq: "change_params [(prop_name p, v)] sq now = sort_key fst
      [(prop_name p, wrapped (jint now) v), (''CommonServiceResponse'', wrapped (jint now) (JObj [(''seq'', JStr sq)]))]"
    unfolding change_params_def
    by (rule arg_cong [where f = "sort_key fst"]) (use assms(2) name in \<open>simp add: jmap_def\<close>)
  show "distinct (map fst (change_params [(prop_name p, v)] sq now))"
    unfolding eq by (rule distinct_sort_fst) (use name in simp)
  show "set (change_params [(prop_name p, v)] sq now) =
      {(prop_name p, wrapped (jint now) v), (prop_response, wrapped (jint now) (JObj [(''seq'', JStr sq)]))}"
    unfolding eq set_sort by (simp add: prop_response_def)
qed

lemma decode_change:
  assumes "settable p" "sq \<noteq> []" "valid_utf8 sq"
  shows "\<exists>post. decode_property_post (marshal (report_json (itoa i) (change_params [(prop_name p, jint (prop_value p))] sq now))) = Some post \<and>
    post_id post = itoa i \<and> post_seq post = sq \<and>
    post_power post = (if prop_name p = prop_switch then Some (prop_value p \<noteq> 0) else None) \<and>
    post_brightness post = (if prop_name p = prop_brightness then Some (of_int (prop_value p)) else None) \<and>
    post_color_temp post = (if prop_name p = prop_color_temp then Some (of_int (prop_value p)) else None) \<and>
    post_mode post = None"
proof -
  define kvs where "kvs = change_params [(prop_name p, jint (prop_value p))] sq now"
  note cp = change_params_eq [OF assms(1,2), of "jint (prop_value p)" now, folded kvs_def]
  have name: "prop_name p \<noteq> prop_response" using assms(1) by (auto simp: settable_def)
  have "valid_utf8 prop_response" by code_simp
  then have ok: "json_ok (JObj kvs)"
    using valid_utf8_inner(2) [OF assms(1)] assms(3) cp(2)
    by (auto simp: list_all_iff wrapped_eq jint_def valid_utf8_ascii)
  have depth: "json_depth (snd kv) \<le> 2" if "kv \<in> set kvs" for kv
  proof -
    from that have "kv = (prop_name p, wrapped (jint now) (jint (prop_value p))) \<or>
        kv = (prop_response, wrapped (jint now) (JObj [(''seq'', JStr sq)]))"
      unfolding cp(2) by (simp only: insert_iff empty_iff simp_thms)
    then show ?thesis by (elim disjE) (simp_all add: wrapped_eq jint_def)
  qed
  then have "foldr (\<lambda>kv n. max (json_depth (snd kv)) n) kvs 0 \<le> 2"
    by (induction kvs) auto
  then have "json_depth (JObj kvs) < max_nesting" by (simp add: max_nesting_def)
  from decode_report_eq [OF valid_utf8_itoa ok this cp(1)]
  have dec: "decode_property_post (marshal (report_json (itoa i) kvs)) = Some (post_of (itoa i) kvs)" .
  have lookup: "map_of kvs k = (if k = prop_name p then Some (wrapped (jint now) (jint (prop_value p)))
      else if k = prop_response then Some (wrapped (jint now) (JObj [(''seq'', JStr sq)])) else None)" for k
  proof -
    have "map_of kvs k = Some v \<longleftrightarrow> (k, v) \<in> set kvs" for v using cp(1) by simp
    moreover have "map_of kvs k = None \<longleftrightarrow> k \<notin> fst ` set kvs" by (rule map_of_eq_None_iff)
    ultimately show ?thesis using cp(2) name by auto
  qed
  have num: "alink_number (wrapped (jint now) (jint (prop_value p))) = Some (of_int (prop_value p))"
    using assms(1) by (intro alink_number_wrapped) (simp_all add: settable_def)
  have "post_of (itoa i) kvs =
    \<lparr>post_id = itoa i, post_power = (if prop_name p = prop_switch then Some (prop_value p \<noteq> 0) else None),
     post_brightness = (if prop_name p = prop_brightness then Some (of_int (prop_value p)) else None),
     post_color_temp = (if prop_name p = prop_color_temp then Some (of_int (prop_value p)) else None),
     post_mode = None, post_seq = sq\<rparr>"
    using assms(1) name
    by (auto simp: post_of_def report_number_def lookup num clamp_percent_int alink_seq_wrapped settable_def)
  then show ?thesis using dec by (simp add: kvs_def)
qed

lemma apply_locked_view:
  assumes "settable p"
  shows "fake_view (apply_locked b [(prop_name p, jint (prop_value p))]) t = set_light (fake_view b t) p"
proof -
  have num: "to_float (jint (prop_value p)) = Some (of_int (prop_value p))"
    using assms by (intro to_float_jint) (simp_all add: settable_def)
  have "prop_name p = prop_switch \<or> prop_name p = prop_brightness \<or> prop_name p = prop_color_temp"
    using assms by (auto simp: settable_def)
  then show ?thesis
    using assms num
    by (elim disjE)
      (simp_all add: apply_locked_def apply_prop_def set_light_def fake_view_def byte_of_float_def settable_def
        prop_switch_def prop_brightness_def prop_color_temp_def)
qed

lemma apply_post_settable:
  assumes "settable p" "post_mode post = None"
    "post_power post = (if prop_name p = prop_switch then Some (prop_value p \<noteq> 0) else None)"
    "post_brightness post = (if prop_name p = prop_brightness then Some (of_int (prop_value p)) else None)"
    "post_color_temp post = (if prop_name p = prop_color_temp then Some (of_int (prop_value p)) else None)"
  shows "apply_post post s t = (set_light s p)\<lparr>reported_at := t\<rparr>"
  using assms by (auto simp: apply_post_def set_light_def settable_def)

lemma on_command_eq:
  assumes "settable p"
  shows "on_command opts b (fst (encode_command (property_map p) now)) t =
    (if f_silent opts then (None, None, b)
     else
       (let b' = apply_locked (b\<lparr>f_post_id := f_post_id b + 1\<rparr>) [(prop_name p, jint (prop_value p))]
        in (if f_no_ack opts then None else Some (service_reply_payload (command_id now)),
            Some (marshal (report_json (itoa (f_post_id b'))
              (change_params [(prop_name p, jint (prop_value p))] (command_seq now) (unix_milli t)))), b')))"
  by (simp add: on_command_def decode_command_eq [OF assms] post_change_def Let_def)

lemma fake_view_post_id [simp]: "fake_view (b\<lparr>f_post_id := i\<rparr>) t = fake_view b t"
  by (simp add: fake_view_def)

lemma command_step:
  assumes "settable p" "\<not> f_silent opts"
  shows "\<exists>report post b'. on_command opts b (fst (encode_command (property_map p) now)) t' =
      (if f_no_ack opts then None else Some (service_reply_payload (command_id now)), Some report, b') \<and>
    decode_property_post report = Some post \<and> post_seq post = command_seq now \<and>
    fake_view b' t = set_light (fake_view b t) p \<and>
    (\<forall>s. apply_post post s t = (set_light s p)\<lparr>reported_at := t\<rparr>)"
proof -
  let ?b = "apply_locked (b\<lparr>f_post_id := f_post_id b + 1\<rparr>) [(prop_name p, jint (prop_value p))]"
  have "command_seq now \<noteq> []" by (simp add: command_seq_def)
  from decode_change [OF assms(1) this valid_utf8_seq, of "f_post_id ?b" "unix_milli t'"]
  obtain post where post: "decode_property_post (marshal (report_json (itoa (f_post_id ?b))
        (change_params [(prop_name p, jint (prop_value p))] (command_seq now) (unix_milli t')))) = Some post"
    "post_seq post = command_seq now"
    and fields: "post_mode post = None"
      "post_power post = (if prop_name p = prop_switch then Some (prop_value p \<noteq> 0) else None)"
      "post_brightness post = (if prop_name p = prop_brightness then Some (of_int (prop_value p)) else None)"
      "post_color_temp post = (if prop_name p = prop_color_temp then Some (of_int (prop_value p)) else None)"
    by blast
  show ?thesis
    using post assms(2) apply_post_settable [OF assms(1) fields]
    by (simp add: on_command_eq [OF assms(1)] Let_def apply_locked_view [OF assms(1)])
qed

section \<open>Reaching a state\<close>

lemma changed_props_settable:
  "uint (brightness want) \<le> 100 \<Longrightarrow> uint (color_temp want) \<le> 100 \<Longrightarrow>
    list_all settable (changed_props current want caps)"
  by (simp add: changed_props_def settable_def)

text \<open>The state a bulb is meant to be in after all of \<open>ChangedProps\<close>.\<close>

definition reached :: "light_state \<Rightarrow> light_state \<Rightarrow> capabilities \<Rightarrow> light_state" where
  "reached current want caps =
     (if power want then
        current\<lparr>power := True,
          brightness := if brightness want = 0 then brightness current else brightness want,
          color_temp := if supports_color_temp caps then color_temp want else color_temp current\<rparr>
      else current\<lparr>power := False\<rparr>)"

lemma foldl_set_light: "foldl set_light current (changed_props current want caps) = reached current want caps"
proof -
  have pos: "0 < w \<longleftrightarrow> w \<noteq> 0" for w :: byte by (simp add: word_gt_0)
  show ?thesis
    by (auto simp: changed_props_def reached_def set_light_def pos)
qed

text \<open>The commands sent one after the other, each at its own time.\<close>

fun drive :: "fake_options \<Rightarrow> fake_bulb \<Rightarrow> property list \<Rightarrow> time \<Rightarrow> fake_bulb" where
  "drive opts b [] now = b"
| "drive opts b (p # ps) now =
     (let (_, _, b') = on_command opts b (fst (encode_command (property_map p) now)) now
      in drive opts b' ps (now + second))"

lemma drive_view:
  "\<not> f_silent opts \<Longrightarrow> list_all settable ps \<Longrightarrow> fake_view (drive opts b ps now) t = foldl set_light (fake_view b t) ps"
proof (induction ps arbitrary: b now)
  case (Cons p ps)
  then obtain r s b' where "on_command opts b (fst (encode_command (property_map p) now)) now = (r, s, b')"
      "fake_view b' t = set_light (fake_view b t) p"
    using command_step [of p opts b now now t] by (auto split: if_splits)
  with Cons show ?case by simp
qed simp

section \<open>Full reports\<close>

lemma distinct_full_params: "distinct (map fst (full_params b))"
  unfolding full_params_def by (rule distinct_sort_fst) simp

lemma set_full_params:
  "set (full_params b) = {(''LightType'', jint 1), (''LightSwitch'', jint (if f_power b then 1 else 0)), (''WorkMode'', jint 0),
        (''LightMode'', jint 0), (''ColorTemperature'', jint (uint (f_temp b))), (''Brightness'', jint (uint (f_bright b)))}"
  unfolding full_params_def set_sort by simp

lemma clamp_percent_byte: "uint w \<le> 100 \<Longrightarrow> clamp_percent (unsigned w) = w"
  using clamp_percent_int [of "uint w"] by simp

lemma full_report:
  assumes "uint (f_bright b) \<le> 100" "uint (f_temp b) \<le> 100"
  shows "decode_property_post (fst (post_full_state b)) =
    Some \<lparr>post_id = itoa (f_post_id b + 1), post_power = Some (f_power b), post_brightness = Some (f_bright b),
      post_color_temp = Some (f_temp b), post_mode = Some mode_white, post_seq = []\<rparr>"
proof -
  let ?i = "itoa (f_post_id b + 1)" and ?kvs = "full_params (b\<lparr>f_post_id := f_post_id b + 1\<rparr>)"
  have kvs: "?kvs = full_params b" by (simp add: full_params_def)
  have leaf: "json_ok (snd kv) \<and> json_depth (snd kv) = 0 \<and> valid_utf8 (fst kv)" if "kv \<in> set (full_params b)" for kv
    using that unfolding set_full_params by (elim insertE emptyE) (simp_all add: jint_def valid_utf8_ascii)
  have "foldr (\<lambda>kv n. max (json_depth (snd kv)) n) xs 0 = 0" if "\<forall>kv\<in>set xs. json_depth (snd kv) = 0"
      for xs :: "(string \<times> json) list"
    using that by (induction xs) auto
  then have "foldr (\<lambda>kv n. max (json_depth (snd kv)) n) (full_params b) 0 = 0" using leaf by blast
  moreover have "json_ok (JObj (full_params b))" using leaf by (simp add: list_all_iff)
  ultimately have dec: "decode_property_post (marshal (report_json ?i (full_params b))) = Some (post_of ?i (full_params b))"
    by (intro decode_report_eq distinct_full_params) (simp_all add: max_nesting_def)
  have look: "map_of (full_params b) k = Some v \<longleftrightarrow> (k, v) \<in> set (full_params b)" for k v
    by (simp add: distinct_full_params)
  have "map_of (full_params b) prop_response = None"
    unfolding map_of_eq_None_iff set_full_params prop_response_def by simp
  moreover have "map_of (full_params b) prop_switch = Some (jint (if f_power b then 1 else 0))"
    "map_of (full_params b) prop_brightness = Some (jint (uint (f_bright b)))"
    "map_of (full_params b) prop_color_temp = Some (jint (uint (f_temp b)))"
    "map_of (full_params b) prop_light_mode = Some (jint 0)"
    unfolding look set_full_params prop_names by simp_all
  ultimately have "post_of ?i (full_params b) =
    \<lparr>post_id = ?i, post_power = Some (f_power b), post_brightness = Some (f_bright b),
      post_color_temp = Some (f_temp b), post_mode = Some mode_white, post_seq = []\<rparr>"
    using assms by (simp add: post_of_def report_number_def alink_number_bare clamp_percent_byte)
  with dec show ?thesis by (simp add: post_full_state_def Let_def kvs)
qed

section \<open>Properties\<close>

text \<open>
  C18: the command loop closes. What \<open>EncodeCommand\<close> builds for one property (any property and value
  \<open>ChangedProps\<close> can ask for) is executed by the bulb, and the report the bulb answers with decodes
  to a post that carries the command's sequence number and folds exactly that one property onto
  whatever state the server held; the bulb's own state has moved the same way.
\<close>

theorem command_loop_closes:
  assumes "settable p" "\<not> f_silent opts"
  shows "\<exists>report post b'. on_command opts b (fst (encode_command (property_map p) now)) t' =
      (if f_no_ack opts then None else Some (service_reply_payload (command_id now)), Some report, b') \<and>
    decode_property_post report = Some post \<and> post_seq post = snd (encode_command (property_map p) now) \<and>
    decode_service_reply (service_reply_payload (command_id now)) = Some \<lparr>reply_id = command_id now, reply_code = 200\<rparr> \<and>
    fake_view b' t = set_light (fake_view b t) p \<and>
    (\<forall>s. apply_post post s t = (set_light s p)\<lparr>reported_at := t\<rparr>)"
  using command_step [OF assms, of b now t' t] decode_service_reply_eq [of "go_mod (unix_milli now) 1000000000"]
  by (simp add: encode_command_eq command_id_def)

theorem command_loop_closes_witness:
  "\<exists>report b'. on_command \<lparr>f_product_key = ''pk'', f_device_name = ''dn'', f_version = [], f_keep_alive = 120,
        f_malformed = False, f_silent = False, f_no_ack = True\<rparr> fake_init
      (fst (encode_command (property_map \<lparr>prop_name = ''Brightness'', prop_value = 80\<rparr>) 1700000000000000000)) 1700000001000000000 =
      (None, Some report, b') \<and> fake_view b' 5 = \<lparr>power = True, brightness = 80, color_temp = 2, light_mode = 0, reported_at = 5\<rparr>"
  using command_loop_closes [of "\<lparr>prop_name = ''Brightness'', prop_value = 80\<rparr>"
      "\<lparr>f_product_key = ''pk'', f_device_name = ''dn'', f_version = [], f_keep_alive = 120,
        f_malformed = False, f_silent = False, f_no_ack = True\<rparr>" fake_init 1700000000000000000 1700000001000000000 5]
  by (auto simp: settable_def prop_names set_light_def fake_view_def fake_init_def mode_white_def)

text \<open>
  Sending all of \<open>ChangedProps\<close>, one command after the other, takes a bulb from the state the
  server believes it is in to the state wanted: switched on with the wanted brightness (unless that
  is zero) and colour temperature (if it has one), or switched off and otherwise untouched.
\<close>

theorem drive_reaches_want:
  assumes "\<not> f_silent opts" "uint (brightness want) \<le> 100" "uint (color_temp want) \<le> 100"
  shows "fake_view (drive opts b (changed_props (fake_view b t) want caps) now) t = reached (fake_view b t) want caps"
  using assms by (simp add: drive_view changed_props_settable foldl_set_light)

theorem drive_reaches_want_witness:
  "fake_view (drive \<lparr>f_product_key = ''pk'', f_device_name = ''dn'', f_version = [], f_keep_alive = 120,
        f_malformed = False, f_silent = False, f_no_ack = False\<rparr> fake_init
      (changed_props (fake_view fake_init 0) \<lparr>power = True, brightness = 75, color_temp = 40, light_mode = 0, reported_at = 0\<rparr> no_caps) 0) 0 =
    reached (fake_view fake_init 0) \<lparr>power = True, brightness = 75, color_temp = 40, light_mode = 0, reported_at = 0\<rparr> no_caps"
  by (rule drive_reaches_want) simp_all

text \<open>
  The full report of a bulb on power-up, every value bare, decodes to its whole state: folded onto
  anything the server held before, it leaves exactly the bulb's state.
\<close>

theorem full_report_is_state:
  assumes "uint (f_bright b) \<le> 100" "uint (f_temp b) \<le> 100"
  shows "\<exists>post. decode_property_post (fst (post_full_state b)) = Some post \<and> post_seq post = [] \<and>
    apply_post post prev t = fake_view b t"
  using full_report [OF assms] by (simp add: fake_view_def)

theorem full_report_is_state_witness:
  "\<exists>post. decode_property_post (fst (post_full_state fake_init)) = Some post \<and> apply_post post zero_state 9 = fake_view fake_init 9"
  using full_report_is_state [of fake_init zero_state 9] by (auto simp: fake_init_def)

end
