(* ===== verification/Server.thy ===== *)
theory Server
  imports Fakebulb Lights
begin

text \<open>
  The bulb server, \<open>internal/server\<close> (server.go, session.go): admission, connection takeover, the
  packets a bulb sends, and commands waiting for their confirmation. All state the goroutines share
  is one record, \<open>world\<close>: the registry, the sessions, the commands in flight, the takeover and
  rejection records, the events published and the bytes sent. Handlers are functions on it;
  the life of a connection, with every other goroutine in between, is a step relation at the end.
  Wording that comes from the Go library (I/O and JSON errors) is the parameter \<open>wording\<close>.
\<close>

section \<open>State\<close>

record pending_command =
  cmd_id :: string
  cmd_seq :: string
  cmd_done :: "string option option"

datatype phase = Handshaking | Admitted | Upserted bool | Serving | Ending | Gone

record session =
  ses_identity :: identity
  ses_remote :: string
  ses_closed :: bool
  ses_up :: bool
  ses_keep_alive :: duration
  ses_reported :: bool
  ses_pending :: "string \<rightharpoonup> nat"
  ses_pending_seq :: "string \<rightharpoonup> nat"
  ses_phase :: phase

definition new_session :: "string \<Rightarrow> session" where
  "new_session addr =
     \<lparr>ses_identity = \<lparr>device_name = [], product_key = []\<rparr>, ses_remote = addr, ses_closed = False, ses_up = True,
      ses_keep_alive = 0, ses_reported = False, ses_pending = Map.empty, ses_pending_seq = Map.empty,
      ses_phase = Handshaking\<rparr>"

record rejection =
  rej_reported_at :: time
  rej_first_at :: time
  rej_suppressed :: nat

record world =
  w_reg :: registry
  w_sessions :: "nat \<rightharpoonup> session"
  w_commands :: "nat \<rightharpoonup> pending_command"
  w_next :: nat
  w_takeovers :: "string \<rightharpoonup> time list"
  w_rejects :: "string \<rightharpoonup> rejection"
  w_events :: "event list"
  w_sent :: "(nat \<times> bytes) list"

datatype session_error =
    SMqtt mqtt_error
  | SWrongType byte
  | SIdentity
  | SNotConfigured
  | SWrite
  | SPost
  | SReply
  | SEof
  | SNotRegistered string

section \<open>Takeovers and rejections\<close>

definition takeover_window :: duration where
  "takeover_window = 60 * second"

definition takeover_threshold :: nat where
  "takeover_threshold = 3"

definition note_takeover :: "string \<Rightarrow> time \<Rightarrow> 'a world_scheme \<Rightarrow> bool \<times> 'a world_scheme" where
  "note_takeover i now w =
     (let kept = filter (\<lambda>t. now - t < takeover_window) (case w_takeovers w i of None \<Rightarrow> [] | Some ts \<Rightarrow> ts) @ [now]
      in (takeover_threshold \<le> length kept, w\<lparr>w_takeovers := (w_takeovers w)(i \<mapsto> kept)\<rparr>))"

definition rejection_window :: duration where
  "rejection_window = 300 * second"

definition note_rejection :: "string \<Rightarrow> time \<Rightarrow> 'a world_scheme \<Rightarrow> (bool \<times> nat \<times> time) \<times> 'a world_scheme" where
  "note_rejection i now w =
     (let put = (\<lambda>r. w\<lparr>w_rejects := (w_rejects w)(i \<mapsto> r)\<rparr>)
      in case w_rejects w i of
           None \<Rightarrow>
             ((True, 0, zero_time), put \<lparr>rej_reported_at = now, rej_first_at = zero_time, rej_suppressed = 0\<rparr>)
         | Some r \<Rightarrow>
             if now - rej_reported_at r < rejection_window then
               (let r1 = (if rej_suppressed r = 0 then r\<lparr>rej_first_at := now\<rparr> else r)
                in ((False, 0, zero_time), put (r1\<lparr>rej_suppressed := rej_suppressed r1 + 1\<rparr>)))
             else
               ((True, rej_suppressed r, rej_first_at r),
                put \<lparr>rej_reported_at = now, rej_first_at = zero_time, rej_suppressed = 0\<rparr>))"

definition is_psk_suite :: "16 word \<Rightarrow> bool" where
  "is_psk_suite i \<longleftrightarrow>
     0x008A \<le> i \<and> i \<le> 0x008D \<or> 0x00A8 \<le> i \<and> i \<le> 0x00AF \<or> 0xC0A4 \<le> i \<and> i \<le> 0xC0B5 \<or>
     0xC033 \<le> i \<and> i \<le> 0xC03B \<or> i = 0xCCAB \<or> i = 0xCCAC \<or> 0xD001 \<le> i \<and> i \<le> 0xD005"

definition command_id_of :: "string \<Rightarrow> string option" where
  "command_id_of payload = unmarshal (dec_struct [(''id'', field id (\<lambda>x _. x) dec_string)]) [] payload"

section \<open>Session primitives\<close>

definition upd_session :: "nat \<Rightarrow> (session \<Rightarrow> session) \<Rightarrow> 'a world_scheme \<Rightarrow> 'a world_scheme" where
  "upd_session d f w = w\<lparr>w_sessions := (w_sessions w)(d := map_option f (w_sessions w d))\<rparr>"

definition session_of :: "nat \<Rightarrow> 'a world_scheme \<Rightarrow> session" where
  "session_of d w = (case w_sessions w d of Some s \<Rightarrow> s | None \<Rightarrow> new_session [])"

definition ses_device :: "nat \<Rightarrow> 'a world_scheme \<Rightarrow> string" where
  "ses_device d w = identity_device_id (ses_identity (session_of d w))"

definition on_reg :: "(registry \<Rightarrow> registry) \<Rightarrow> 'a world_scheme \<Rightarrow> 'a world_scheme" where
  "on_reg f w = w\<lparr>w_reg := f (w_reg w)\<rparr>"

definition emit :: "event \<Rightarrow> 'a world_scheme \<Rightarrow> 'a world_scheme" where
  "emit e w = w\<lparr>w_events := w_events w @ [e]\<rparr>"

text \<open>\<open>write\<close>: fails once the connection is closed or broken.\<close>

definition ses_write :: "nat \<Rightarrow> bytes \<Rightarrow> 'a world_scheme \<Rightarrow> session_error option \<times> 'a world_scheme" where
  "ses_write d p w =
     (if ses_up (session_of d w) then (None, w\<lparr>w_sent := w_sent w @ [(d, p)]\<rparr>) else (Some SWrite, w))"

definition ses_close :: "nat \<Rightarrow> 'a world_scheme \<Rightarrow> 'a world_scheme" where
  "ses_close d w =
     (if ses_closed (session_of d w) then w else upd_session d (\<lambda>s. s\<lparr>ses_closed := True, ses_up := False\<rparr>) w)"

definition session_event :: "nat \<Rightarrow> kind \<Rightarrow> string \<Rightarrow> time \<Rightarrow> 'a world_scheme \<Rightarrow> event" where
  "session_event d k detail now w =
     (let (b, ok) = view (ses_device d w) (w_reg w)
      in \<lparr>ev_at = now, ev_kind = k, ev_device = ses_device d w, ev_name = (if ok then bulb_name b else []),
          ev_changed = [], ev_detail = detail\<rparr>)"

text \<open>\<open>deliver\<close>: a channel of one, so the second confirmation is dropped.\<close>

definition deliver :: "nat \<Rightarrow> string option \<Rightarrow> 'a world_scheme \<Rightarrow> 'a world_scheme" where
  "deliver c err w =
     (case w_commands w c of
        None \<Rightarrow> w
      | Some p \<Rightarrow>
          if cmd_done p = None then w\<lparr>w_commands := (w_commands w)(c \<mapsto> p\<lparr>cmd_done := Some err\<rparr>)\<rparr> else w)"

definition complete_command :: "nat \<Rightarrow> service_reply \<Rightarrow> 'a world_scheme \<Rightarrow> 'a world_scheme" where
  "complete_command d reply w =
     (case ses_pending (session_of d w) (reply_id reply) of
        None \<Rightarrow> w
      | Some c \<Rightarrow>
          deliver c (if reply_code reply \<noteq> 200
                     then Some (''bulb rejected the command with code '' @ itoa (reply_code reply)) else None) w)"

definition complete_by_seq :: "nat \<Rightarrow> string \<Rightarrow> 'a world_scheme \<Rightarrow> 'a world_scheme" where
  "complete_by_seq d sq w =
     (if sq = [] then w
      else case ses_pending_seq (session_of d w) sq of None \<Rightarrow> w | Some c \<Rightarrow> deliver c None w)"

definition idle_timeout :: "session \<Rightarrow> duration" where
  "idle_timeout s = (let ka = (if ses_keep_alive s \<le> 0 then 120 * second else ses_keep_alive s) in ka + ka div 2)"

section \<open>Handshake and registration\<close>

text \<open>
  What \<open>handshake\<close> does with the first packet. \<open>admit\<close> is \<open>None\<close> where everything is admitted.
\<close>

definition handshake ::
  "(string \<Rightarrow> bool) option \<Rightarrow> nat \<Rightarrow> packet \<Rightarrow> 'a world_scheme \<Rightarrow> session_error option \<times> 'a world_scheme" where
  "handshake admit d pkt w =
     (if ptype pkt \<noteq> type_connect then (Some (SWrongType (ptype pkt)), w)
      else
        (case decode_connect (pbody pkt) of
           Inl e \<Rightarrow> (Some (SMqtt e), w)
         | Inr c \<Rightarrow>
             (case identity_from_connect c of
                None \<Rightarrow> (Some SIdentity, w)
              | Some i \<Rightarrow>
                  (let w1 = upd_session d (\<lambda>s. s\<lparr>ses_identity := i,
                          ses_keep_alive := if 0 < keep_alive c then uint (keep_alive c) * second else ses_keep_alive s\<rparr>) w
                   in if (case admit of None \<Rightarrow> False | Some ok \<Rightarrow> \<not> ok (device_name i))
                      then (Some SNotConfigured, snd (ses_write d connack_refused_not_authorized w1))
                      else ses_write d connack_accepted w1))))"

definition report_rejection :: "(time \<Rightarrow> string) \<Rightarrow> nat \<Rightarrow> time \<Rightarrow> 'a world_scheme \<Rightarrow> 'a world_scheme" where
  "report_rejection clock d now w =
     (let ((report, suppressed, since), w1) = note_rejection (ses_device d w) now w
      in if \<not> report then w1
         else
           (let addr = ses_remote (session_of d w);
                detail = (if 0 < suppressed
                  then addr @ '' ('' @ nat_str suppressed @ '' attempts since '' @ clock since @ '')'' else addr)
            in emit \<lparr>ev_at = now, ev_kind = Rejected, ev_device = ses_device d w, ev_name = [], ev_changed = [],
                     ev_detail = detail\<rparr> w1))"

text \<open>\<open>register\<close> in the two parts its locks allow: the registry entry, then the driver and the event.\<close>

definition register_entry :: "nat \<Rightarrow> time \<Rightarrow> 'a world_scheme \<Rightarrow> bool \<times> 'a world_scheme" where
  "register_entry d now w =
     (let ((b, new), r) = upsert (ses_device d w) (ses_remote (session_of d w)) (capabilities_from_version []) now (w_reg w)
      in (new, w\<lparr>w_reg := r\<rparr>))"

definition register_driver :: "nat \<Rightarrow> bool \<Rightarrow> time \<Rightarrow> 'a world_scheme \<Rightarrow> driver_id option \<times> 'a world_scheme" where
  "register_driver d new now w =
     (let (prev, r) = set_driver (ses_device d w) (Some d) (w_reg w);
          w1 = w\<lparr>w_reg := r\<rparr>;
          (displaced, w2) =
            (if prev \<noteq> None \<and> prev \<noteq> Some d
             then (let (warn, w') = note_takeover (ses_device d w) now w1
                   in (prev, if warn then emit (session_event d DuplicateID (ses_remote (session_of d w)) now w') w' else w'))
             else (None, w1))
      in (displaced, emit (session_event d (if new then KDiscovered else KConnected) [] now w2) w2))"

section \<open>Packets\<close>

definition handle_property_post :: "nat \<Rightarrow> publish \<Rightarrow> time \<Rightarrow> 'a world_scheme \<Rightarrow> session_error option \<times> 'a world_scheme" where
  "handle_property_post d pub now w =
     (case decode_property_post (str_of (content pub)) of
        None \<Rightarrow> (Some SPost, w)
      | Some post \<Rightarrow>
          (let (current, ok) = view (ses_device d w) (w_reg w)
           in if \<not> ok then (Some (SNotRegistered (ses_device d w)), w)
              else
               (let i = ses_device d w;
                    r1 = snd (set_capabilities i (refine_from_report (bulb_caps current) post) (w_reg w));
                    next = apply_post post (light current) now;
                    (changes, r2) = set_state i next now r1;
                    w1 = w\<lparr>w_reg := r2\<rparr>;
                    first = (\<not> ses_reported (session_of d w));
                    w2 = upd_session d (\<lambda>s. s\<lparr>ses_reported := True\<rparr>) w1;
                    w3 = (if changes \<noteq> [] \<or> first
                          then emit ((session_event d StateChanged [] now w2)\<lparr>ev_changed := changes\<rparr>) w2 else w2);
                    w4 = complete_by_seq d (post_seq post) w3
                in if post_id post \<noteq> []
                   then ses_write d (encode_publish (property_post_reply (ses_identity (session_of d w4)))
                          (bytes_of (encode_property_post_reply (post_id post)))) w4
                   else (None, w4))))"

definition handle_publish :: "nat \<Rightarrow> publish \<Rightarrow> time \<Rightarrow> 'a world_scheme \<Rightarrow> session_error option \<times> 'a world_scheme" where
  "handle_publish d pub now w =
     (if has_suffix (topic pub) suffix_property_post then handle_property_post d pub now w
      else if has_suffix (topic pub) suffix_service_reply then
        (case decode_service_reply (str_of (content pub)) of
           None \<Rightarrow> (Some SReply, w)
         | Some reply \<Rightarrow> (None, complete_command d reply w))
      else if contains (topic pub) suffix_ota_inform then
        (let version = decode_ota_version (str_of (content pub))
         in (None,
             if version \<noteq> []
             then on_reg (\<lambda>r. snd (set_capabilities (ses_device d w) (capabilities_from_version version)
                    (set_firmware (ses_device d w) version r))) w
             else w))
      else if contains (topic pub) ''/ext/ntp/'' \<and> has_suffix (topic pub) suffix_ntp_request then
        ses_write d (encode_publish (ntp_response (ses_identity (session_of d w)))
          (bytes_of (encode_ntp_response (decode_ntp_request (str_of (content pub))) now))) w
      else (None, w))"

definition handle :: "nat \<Rightarrow> packet \<Rightarrow> time \<Rightarrow> 'a world_scheme \<Rightarrow> session_error option \<times> 'a world_scheme" where
  "handle d pkt now w =
     (let w1 = on_reg (touch (ses_device d w) now) w
      in if ptype pkt = type_pingreq then ses_write d pingresp w1
         else if ptype pkt = type_subscribe then
           (case decode_subscribe (pbody pkt) of
              Inl e \<Rightarrow> (Some (SMqtt e), w1)
            | Inr (i, topics) \<Rightarrow> ses_write d (encode_suback i (length topics)) w1)
         else if ptype pkt = type_disconnect then (Some SEof, w1)
         else if ptype pkt = type_publish then
           (case decode_publish (pbody pkt) (packet_qos pkt) of
              Inl e \<Rightarrow> (Some (SMqtt e), w1)
            | Inr pub \<Rightarrow>
                if packet_qos pkt = 1 then
                  (let (err, w2) = ses_write d (encode_puback (packet_id pub)) w1
                   in if err \<noteq> None then (err, w2) else handle_publish d pub now w2)
                else handle_publish d pub now w1)
         else (None, w1))"

datatype read_error = REof | RClosed | RTimeout | ROther string

definition report_disconnect :: "(duration \<Rightarrow> string) \<Rightarrow> nat \<Rightarrow> read_error \<Rightarrow> time \<Rightarrow> 'a world_scheme \<Rightarrow> 'a world_scheme" where
  "report_disconnect show_span d err now w =
     (if driver_of (ses_device d w) (w_reg w) \<noteq> Some d then w
      else
        (let detail =
           (case err of
              REof \<Rightarrow> ''closed by bulb''
            | RClosed \<Rightarrow> ''server shutting down''
            | RTimeout \<Rightarrow> ''no keep-alive for '' @ show_span (idle_timeout (session_of d w))
            | ROther s \<Rightarrow> s)
         in emit (session_event d KDisconnected detail now w) w))"

text \<open>One turn of the read loop. The flag says whether the loop goes on.\<close>

definition serve_packet ::
  "(session_error \<Rightarrow> string) \<Rightarrow> nat \<Rightarrow> packet \<Rightarrow> time \<Rightarrow> 'a world_scheme \<Rightarrow> bool \<times> 'a world_scheme" where
  "serve_packet wording d pkt now w =
     (case handle d pkt now w of
        (None, w1) \<Rightarrow> (True, w1)
      | (Some e, w1) \<Rightarrow> (False, emit (session_event d ProtocolError (wording e) now w1) w1))"

section \<open>Commands\<close>

datatype command_result = CmdOk | CmdUnconfirmed | CmdFailed string

definition forget_command :: "nat \<Rightarrow> string \<Rightarrow> string \<Rightarrow> 'a world_scheme \<Rightarrow> 'a world_scheme" where
  "forget_command d i sq w =
     upd_session d (\<lambda>s. s\<lparr>ses_pending := (ses_pending s)(i := None), ses_pending_seq := (ses_pending_seq s)(sq := None)\<rparr>) w"

text \<open>
  \<open>applyOne\<close> up to the wait: the command is made known under its id and its sequence number before it
  is written.
\<close>

definition send_command :: "nat \<Rightarrow> string \<Rightarrow> property \<Rightarrow> time \<Rightarrow> 'a world_scheme \<Rightarrow> (string + nat \<times> string \<times> string) \<times> 'a world_scheme" where
  "send_command d name prop now w =
     (let (payload, sq) = encode_command (property_map prop) now
      in case command_id_of payload of
           None \<Rightarrow> (Inl ''reading back command id'', w)
         | Some i \<Rightarrow>
             if ses_closed (session_of d w)
             then (Inl (''bulb '' @ name @ '' disconnected before the command was sent''), w)
             else
               (let c = w_next w;
                    w1 = w\<lparr>w_next := c + 1,
                           w_commands := (w_commands w)(c \<mapsto> \<lparr>cmd_id = i, cmd_seq = sq, cmd_done = None\<rparr>)\<rparr>;
                    w2 = upd_session d (\<lambda>s. s\<lparr>ses_pending := (ses_pending s)(i \<mapsto> c), ses_pending_seq := (ses_pending_seq s)(sq \<mapsto> c)\<rparr>) w1
                in case ses_write d (encode_publish (common_service (ses_identity (session_of d w2))) (bytes_of payload)) w2 of
                     (Some e, w3) \<Rightarrow> (Inl (''sending '' @ prop_name prop @ '' to '' @ name), forget_command d i sq w3)
                   | (None, w3) \<Rightarrow> (Inr (c, i, sq), w3)))"

text \<open>
  \<open>applyOne\<close>: \<open>env\<close> is everything the other goroutines do between the write and the moment the wait
  ends, by a confirmation or by the context.
\<close>

definition apply_one ::
  "('a world_scheme \<Rightarrow> 'a world_scheme) \<Rightarrow> nat \<Rightarrow> string \<Rightarrow> property \<Rightarrow> time \<Rightarrow> 'a world_scheme \<Rightarrow> command_result \<times> 'a world_scheme" where
  "apply_one env d name prop now w =
     (case send_command d name prop now w of
        (Inl e, w1) \<Rightarrow> (CmdFailed e, w1)
      | (Inr (c, i, sq), w1) \<Rightarrow>
          (let w2 = env w1;
               res = (case w_commands w2 c of
                        None \<Rightarrow> CmdUnconfirmed
                      | Some p \<Rightarrow>
                          (case cmd_done p of
                             None \<Rightarrow> CmdUnconfirmed
                           | Some None \<Rightarrow> CmdOk
                           | Some (Some e) \<Rightarrow> CmdFailed e))
           in (res, forget_command d i sq w2)))"

fun apply_props ::
  "('a world_scheme \<Rightarrow> 'a world_scheme) \<Rightarrow> (nat \<Rightarrow> time) \<Rightarrow> nat \<Rightarrow> string \<Rightarrow> property list \<Rightarrow> string list \<Rightarrow> 'a world_scheme \<Rightarrow>
    driver_result \<times> 'a world_scheme" where
  "apply_props env clock d name [] unconfirmed w =
     (if unconfirmed \<noteq> [] then StillUnconfirmed unconfirmed else Done, w)"
| "apply_props env clock d name (p # ps) unconfirmed w =
     (case apply_one env d name p (clock (w_next w)) w of
        (CmdOk, w1) \<Rightarrow> apply_props env clock d name ps unconfirmed w1
      | (CmdUnconfirmed, w1) \<Rightarrow> apply_props env clock d name ps (unconfirmed @ [prop_name p]) w1
      | (CmdFailed e, w1) \<Rightarrow> (Failed e, w1))"

text \<open>\<open>session.Apply\<close>. The n-th command is encoded at the instant \<open>clock n\<close>.\<close>

definition session_apply ::
  "('a world_scheme \<Rightarrow> 'a world_scheme) \<Rightarrow> (nat \<Rightarrow> time) \<Rightarrow> nat \<Rightarrow> light_state \<Rightarrow> 'a world_scheme \<Rightarrow> driver_result \<times> 'a world_scheme" where
  "session_apply env clock d want w =
     (let (b, ok) = view (ses_device d w) (w_reg w)
      in if \<not> ok then (Failed (''bulb '' @ ses_device d w @ '' is no longer registered''), w)
         else apply_props env clock d (bulb_name b) (changed_props (light b) want (bulb_caps b)) [] w)"

text \<open>The server's state is a host of the lamp service.\<close>

interpretation server_host: lamp_host w_reg "\<lambda>r w. w\<lparr>w_reg := r\<rparr>" emit
  by unfold_locales (simp_all add: emit_def)

section \<open>The life of a connection\<close>

definition set_phase :: "nat \<Rightarrow> phase \<Rightarrow> 'a world_scheme \<Rightarrow> 'a world_scheme" where
  "set_phase d p w = upd_session d (\<lambda>s. s\<lparr>ses_phase := p\<rparr>) w"

text \<open>
  \<open>serve\<close> cut where other goroutines may run in between: the handshake, the two parts of \<open>register\<close>,
  each packet, the report of a read error, and the deferred \<open>Disconnect\<close>. A session may be closed at
  any time (shutdown, or a takeover) or break, the operator may rename, and commands come and go. A
  connection that ends before its CONNECT is \<open>unread\<close>; one on which no deadline can be set any more is
  left without a report (\<open>undeadlined\<close>). A
  packet handler is one step here; the theory \<open>Races\<close> takes it apart.
\<close>

inductive srv_step :: "(string \<Rightarrow> bool) option \<Rightarrow> world \<Rightarrow> world \<Rightarrow> bool" for admit :: "(string \<Rightarrow> bool) option" where
  accept: "w_sessions w d = None \<Longrightarrow> srv_step admit w (w\<lparr>w_sessions := (w_sessions w)(d \<mapsto> new_session addr)\<rparr>)"
| greet: "w_sessions w d = Some s \<Longrightarrow> ses_phase s = Handshaking \<Longrightarrow> handshake admit d pkt w = (None, w1) \<Longrightarrow>
    srv_step admit w (set_phase d Admitted w1)"
| refuse: "w_sessions w d = Some s \<Longrightarrow> ses_phase s = Handshaking \<Longrightarrow> handshake admit d pkt w = (Some SNotConfigured, w1) \<Longrightarrow>
    srv_step admit w (set_phase d Gone (report_rejection clock d now w1))"
| reject: "w_sessions w d = Some s \<Longrightarrow> ses_phase s = Handshaking \<Longrightarrow> handshake admit d pkt w = (Some e, w1) \<Longrightarrow> e \<noteq> SNotConfigured \<Longrightarrow>
    srv_step admit w (set_phase d Gone (emit \<lparr>ev_at = now, ev_kind = ProtocolError, ev_device = [], ev_name = [], ev_changed = [], ev_detail = detail\<rparr> w1))"
| unread: "w_sessions w d = Some s \<Longrightarrow> ses_phase s = Handshaking \<Longrightarrow>
    srv_step admit w (set_phase d Gone (emit \<lparr>ev_at = now, ev_kind = ProtocolError, ev_device = [], ev_name = [], ev_changed = [], ev_detail = detail\<rparr> w))"
| enrol: "w_sessions w d = Some s \<Longrightarrow> ses_phase s = Admitted \<Longrightarrow> register_entry d now w = (new, w1) \<Longrightarrow>
    srv_step admit w (set_phase d (Upserted new) w1)"
| attach: "w_sessions w d = Some s \<Longrightarrow> ses_phase s = Upserted new \<Longrightarrow> register_driver d new now w = (displaced, w1) \<Longrightarrow>
    srv_step admit w (set_phase d Serving w1)"
| packet: "w_sessions w d = Some s \<Longrightarrow> ses_phase s = Serving \<Longrightarrow> serve_packet wording d pkt now w = (go_on, w1) \<Longrightarrow>
    srv_step admit w (if go_on then w1 else set_phase d Ending w1)"
| read_error: "w_sessions w d = Some s \<Longrightarrow> ses_phase s = Serving \<Longrightarrow>
    srv_step admit w (set_phase d Ending (report_disconnect show_span d err now w))"
| undeadlined: "w_sessions w d = Some s \<Longrightarrow> ses_phase s = Serving \<Longrightarrow> \<not> ses_up s \<Longrightarrow> srv_step admit w (set_phase d Ending w)"
| teardown: "w_sessions w d = Some s \<Longrightarrow> ses_phase s = Ending \<Longrightarrow>
    srv_step admit w (set_phase d Gone (upd_session d (\<lambda>s. s\<lparr>ses_up := False\<rparr>) (on_reg (disconnect (ses_device d w) (Some d)) w)))"
| closing: "srv_step admit w (ses_close d w)"
| breaking: "srv_step admit w (upd_session d (\<lambda>s. s\<lparr>ses_up := False\<rparr>) w)"
| renaming: "rename_lamp i name now (w_reg w) = Inr (adopted', e, r') \<Longrightarrow> srv_step admit w (emit e (w\<lparr>w_reg := r'\<rparr>))"
| desiring: "srv_step admit w (on_reg (set_desired i want) w)"
| sending: "send_command d name prop now w = (res, w1) \<Longrightarrow> srv_step admit w w1"
| forgetting: "srv_step admit w (forget_command d i sq w)"

inductive_cases srv_stepE: "srv_step admit w w'"

end
