(* ===== verification/Delivery.thy ===== *)
theory Delivery
  imports Server
begin

text \<open>
  A command all the way: \<open>session.Apply\<close> of the server (session.go) against the bulb of
  \<open>fakebulb.go\<close>, byte by byte on the connection between them. While a command waits, the bulb reads
  it, answers, and the server's read loop takes the answers in; what the service is told, what the
  registry shows and what the bulb is are then compared.
\<close>

section \<open>How long a command can be\<close>

text \<open>An upper bound on the text of a tree; a string can grow six times by escaping.\<close>

fun json_bound :: "json \<Rightarrow> nat" where
  "json_bound JNull = 4"
| "json_bound (JBool b) = 5"
| "json_bound (JNum s) = length s"
| "json_bound (JStr s) = 6 * length s + 2"
| "json_bound (JArr js) = 2 + sum_list (map (\<lambda>j. Suc (json_bound j)) js)"
| "json_bound (JObj kvs) = 2 + sum_list (map (\<lambda>(k, v). 6 * length k + 4 + json_bound v) kvs)"

lemma quote_ascii_length: "length (quote_ascii c) \<le> 6"
  by (simp add: quote_ascii_def)

lemma quote_body_length: "length (quote_body s) \<le> 6 * length s"
proof (induction s rule: quote_body.induct)
  case (1 s)
  show ?case
  proof (cases "s = []")
    case False
    then obtain c cs where s: "s = c # cs" by (cases s) auto
    have le: "utf8_len s \<le> length s" by (rule utf8_len_le)
    show ?thesis
      using 1 False quote_ascii_length [of c] le
      by (subst quote_body.simps) (auto simp: s split: if_splits)
  qed (simp add: quote_body.simps)
qed

lemma length_join: "length (join [c] ws) \<le> sum_list (map (\<lambda>w. Suc (length w)) ws)"
  by (induction "[c]" ws rule: join.induct) auto

lemma marshal_length: "length (marshal j) \<le> json_bound j"
proof (induction j rule: marshal.induct)
  case (4 s)
  then show ?case using quote_body_length [of s] by (simp add: quote_def)
next
  case (5 js)
  have "sum_list (map (\<lambda>w. Suc (length w)) (map marshal js)) \<le> sum_list (map (\<lambda>j. Suc (json_bound j)) js)"
    using 5 by (auto simp: comp_def intro!: sum_list_mono)
  then show ?case using length_join [of "CHR '',''" "map marshal js"] by simp
next
  case (6 kvs)
  let ?w = "\<lambda>(k, v). quote k @ CHR '':'' # marshal v"
  have "Suc (length (?w p)) \<le> (\<lambda>(k, v). 6 * length k + 4 + json_bound v) p" if "p \<in> set kvs" for p
    using 6 [of p] that quote_body_length [of "fst p"] by (cases p) (simp add: quote_def)
  then have "sum_list (map (\<lambda>w. Suc (length w)) (map ?w kvs)) \<le> sum_list (map (\<lambda>(k, v). 6 * length k + 4 + json_bound v) kvs)"
    unfolding map_map comp_def by (intro sum_list_mono) auto
  then show ?case using length_join [of "CHR '',''" "map ?w kvs"] by simp
qed simp_all

lemma length_nat_str: "n < 10 ^ k \<Longrightarrow> 0 < k \<Longrightarrow> length (nat_str n) \<le> k"
proof (cases "n = 0")
  case False
  assume n: "n < 10 ^ k"
  have "10 ^ (length (nat_str n) - 1) \<le> n" using nat_str_bounds False by simp
  then have "(10 :: nat) ^ (length (nat_str n) - 1) < 10 ^ k" using n by linarith
  then show ?thesis using power_less_imp_less_exp [of "10 :: nat" "length (nat_str n) - 1" k] by linarith
qed (simp add: nat_str.simps)

lemma length_itoa: "\<bar>n\<bar> < 10 ^ k \<Longrightarrow> 0 < k \<Longrightarrow> length (itoa n) \<le> Suc k"
  using length_nat_str [of "nat \<bar>n\<bar>" k] by (auto simp: itoa_def nat_less_iff intro: le_SucI)

lemma settable_short:
  assumes "settable p"
  shows "length (prop_name p) \<le> 16" "length (itoa (prop_value p)) \<le> 4"
proof -
  show "length (prop_name p) \<le> 16" using assms by (auto simp: settable_def prop_names)
  have "\<bar>prop_value p\<bar> < 10 ^ 3" using assms by (simp add: settable_def)
  from length_itoa [OF this] show "length (itoa (prop_value p)) \<le> 4" by simp
qed

lemma milli_short:
  assumes "\<bar>now\<bar> < 10 ^ 20"
  shows "\<bar>unix_milli now\<bar> < 10 ^ 19"
  using assms by (auto simp: unix_milli_def abs_if split: if_splits)

lemma go_mod_short:
  assumes "0 < m"
  shows "\<bar>go_mod n m\<bar> < m"
proof -
  have "\<bar>n\<bar> - m * (\<bar>n\<bar> div m) = \<bar>n\<bar> mod m" by (simp add: minus_mult_div_eq_mod)
  moreover have "0 \<le> \<bar>n\<bar> mod m" "\<bar>n\<bar> mod m < m" using assms by simp_all
  moreover have "go_mod n m = sgn n * (\<bar>n\<bar> - m * (\<bar>n\<bar> div m))"
    using assms by (simp add: go_mod_def go_div_def right_diff_distrib sgn_mult_abs mult.left_commute)
  ultimately show ?thesis using assms by (simp add: abs_mult abs_sgn_eq)
qed

lemma command_id_short: "length (command_id now) \<le> 10"
proof -
  have "\<bar>go_mod (unix_milli now) 1000000000\<bar> < 10 ^ 9" using go_mod_short [of "10 ^ 9"] by simp
  from length_itoa [OF this] show ?thesis by (simp add: command_id_def)
qed

lemma command_seq_short: "\<bar>now\<bar> < 10 ^ 20 \<Longrightarrow> length (command_seq now) \<le> 26"
  using length_itoa [OF milli_short, of now] by (simp add: command_seq_def)

lemma command_short:
  assumes "settable p" "\<bar>now\<bar> < 10 ^ 20"
  shows "length (fst (encode_command (property_map p) now)) \<le> 2000"
proof -
  have z: "length (itoa 0) = 1" by (simp add: itoa_def nat_str.simps)
  have "length (marshal (jmap (property_map p))) \<le> 106"
    using marshal_length [of "jmap (property_map p)"] settable_short [OF assms(1)]
    by (simp add: jmap_def property_map_def jint_def)
  then show ?thesis
    using marshal_length [of "command_json (property_map p) now"] command_id_short [of now] command_seq_short [OF assms(2)]
    by (simp add: encode_command_eq command_json_def jint_def z)
qed

lemma reply_short: "length (service_reply_payload (command_id now)) \<le> 200"
proof -
  have z: "length (itoa 200) = 3" by code_simp
  show ?thesis
    using marshal_length [of "jmap [(''id'', JStr (command_id now)), (''code'', jint 200), (''data'', jmap [])]"] command_id_short [of now]
    by (simp add: service_reply_payload_def jmap_def jint_def z)
qed

lemma report_short:
  assumes "settable p" "\<bar>now\<bar> < 10 ^ 20" "\<bar>t\<bar> < 10 ^ 20" "\<bar>i\<bar> < 10 ^ 19"
  shows "length (marshal (report_json (itoa i) (change_params [(prop_name p, jint (prop_value p))] (command_seq now) (unix_milli t)))) \<le> 2000"
proof -
  let ?kvs = "change_params [(prop_name p, jint (prop_value p))] (command_seq now) (unix_milli t)"
  let ?f = "\<lambda>(k, v). 6 * length k + 4 + json_bound v"
  have "command_seq now \<noteq> []" by (simp add: command_seq_def)
  note cp = change_params_eq [OF assms(1) this, of "jint (prop_value p)" "unix_milli t"]
  have sq: "length (command_seq now) \<le> 26" and t: "length (itoa (unix_milli t)) \<le> 20" and i: "length (itoa i) \<le> 20"
    using command_seq_short [OF assms(2)] length_itoa [OF milli_short [OF assms(3)]] length_itoa [OF assms(4)] by simp_all
  have "sum_list (map ?f ?kvs) = sum ?f (set ?kvs)"
    using cp(1) by (simp add: sum_list_distinct_conv_sum_set distinct_map)
  also have "\<dots> \<le> (\<Sum>kv\<in>{(prop_name p, wrapped (jint (unix_milli t)) (jint (prop_value p)))}. ?f kv) +
      (\<Sum>kv\<in>{(prop_response, wrapped (jint (unix_milli t)) (JObj [(''seq'', JStr (command_seq now))]))}. ?f kv)"
    unfolding cp(2) by (simp add: sum.insert_if)
  also have "\<dots> \<le> 800"
    using settable_short [OF assms(1)] sq t by (simp add: wrapped_eq jint_def prop_response_def)
  finally have "sum_list (map ?f ?kvs) \<le> 800" .
  then show ?thesis
    using marshal_length [of "report_json (itoa i) ?kvs"] i by (simp add: report_json_def jmap_def)
qed

section \<open>The connection\<close>

text \<open>What the server's read loop does with the packets that arrive; the flag says whether it goes on.\<close>

fun session_reads ::
  "(session_error \<Rightarrow> string) \<Rightarrow> nat \<Rightarrow> time \<Rightarrow> bytes list \<Rightarrow> 'a world_scheme \<Rightarrow> bool \<times> 'a world_scheme" where
  "session_reads wording d t [] w = (True, w)"
| "session_reads wording d t (p # ps) w =
     (case read_packet p of
        Inl _ \<Rightarrow> (False, w)
      | Inr (pkt, _) \<Rightarrow>
          (case serve_packet wording d pkt t w of
             (True, w1) \<Rightarrow> session_reads wording d t ps w1
           | (False, w1) \<Rightarrow> (False, w1)))"

text \<open>The server with a bulb at the other end of one of its connections.\<close>

record lab = world +
  lab_bulb :: fake_bulb

text \<open>
  What happens while a command waits: the bulb reads what was written last, acts and answers, and the
  server reads the answers.
\<close>

definition lamp_turn :: "fake_options \<Rightarrow> (session_error \<Rightarrow> string) \<Rightarrow> nat \<Rightarrow> time \<Rightarrow> lab \<Rightarrow> lab" where
  "lamp_turn opts wording d t w =
     (case read_packet (snd (last (w_sent w))) of
        Inl _ \<Rightarrow> w
      | Inr (pkt, _) \<Rightarrow>
          (let (answers, b') = fake_packet opts (lab_bulb w) pkt t
           in snd (session_reads wording d t answers (w\<lparr>lab_bulb := b'\<rparr>))))"

definition moved :: "property \<Rightarrow> fake_bulb \<Rightarrow> fake_bulb" where
  "moved p b = apply_locked (b\<lparr>f_post_id := f_post_id b + 1\<rparr>) [(prop_name p, jint (prop_value p))]"

definition report_text :: "property \<Rightarrow> time \<Rightarrow> time \<Rightarrow> int \<Rightarrow> string" where
  "report_text p now t i =
     marshal (report_json (itoa i) (change_params [(prop_name p, jint (prop_value p))] (command_seq now) (unix_milli t)))"

lemma read_one_publish:
  assumes "length t < 2 ^ 16" "length p \<le> 2000"
  shows "read_packet (encode_publish t p) = Inr (\<lparr>ptype = type_publish, pflags = 0, pbody = wire_string t @ p\<rparr>, [])"
  using read_encode [of type_publish 0 "wire_string t @ p" "[]"] assms
  by (simp add: encode_publish_def append_string_eq type_publish_def length_wire_string max_packet_size_def)

lemma moved_post_id: "f_post_id (moved p b) = f_post_id b + 1"
  by (simp add: moved_def apply_locked_def apply_prop_def split: option.split)

lemma bulb_answers:
  assumes "settable p" "\<not> f_silent opts" "length (f_product_key opts) + length (f_device_name opts) < 2 ^ 15"
  shows "fake_packet opts b \<lparr>ptype = type_publish, pflags = 0,
      pbody = wire_string (common_service \<lparr>device_name = f_device_name opts, product_key = f_product_key opts\<rparr>) @
        bytes_of (fst (encode_command (property_map p) now))\<rparr> t =
    ((if f_no_ack opts then []
      else [encode_publish (fake_topic opts ''thing/service/CommonService_reply'') (bytes_of (service_reply_payload (command_id now)))]) @
     [encode_publish (fake_topic opts ''thing/event/property/post'') (bytes_of (report_text p now t (f_post_id b + 1)))], moved p b)"
proof -
  let ?c = "common_service \<lparr>device_name = f_device_name opts, product_key = f_product_key opts\<rparr>"
  have len: "length ?c < 2 ^ 16" using assms(3) by (simp add: common_service_def)
  have suf: "has_suffix ?c ''/thing/service/CommonService''"
    by (simp add: common_service_def has_suffix_iff)
  show ?thesis
    using moved_post_id [of p b] assms(2)
    by (simp add: fake_packet_def packet_qos_def decode_publish_qos0 [OF len] suf on_command_eq [OF assms(1)] Let_def
        report_text_def flip: moved_def)
qed

section \<open>The server's side\<close>

lemma topic_ends:
  "has_suffix (fake_topic opts ''thing/event/property/post'') suffix_property_post"
  "has_suffix (fake_topic opts ''thing/service/CommonService_reply'') suffix_service_reply"
  "\<not> has_suffix (fake_topic opts ''thing/service/CommonService_reply'') suffix_property_post"
proof -
  show "has_suffix (fake_topic opts ''thing/event/property/post'') suffix_property_post"
    "has_suffix (fake_topic opts ''thing/service/CommonService_reply'') suffix_service_reply"
    by (simp_all add: fake_topic_def suffix_property_post_def suffix_service_reply_def has_suffix_iff)
  have "last (fake_topic opts ''thing/service/CommonService_reply'') \<noteq> last (r @ suffix_property_post)" for r
    by (simp add: fake_topic_def suffix_property_post_def)
  then show "\<not> has_suffix (fake_topic opts ''thing/service/CommonService_reply'') suffix_property_post"
    unfolding has_suffix_iff by metis
qed

lemma serve_publish:
  assumes "length t < 2 ^ 16"
  shows "serve_packet wording d \<lparr>ptype = type_publish, pflags = 0, pbody = wire_string t @ p\<rparr> now w =
    (case handle_publish d \<lparr>topic = t, packet_id = 0, content = p\<rparr> now (on_reg (touch (ses_device d w) now) w) of
       (None, w1) \<Rightarrow> (True, w1)
     | (Some e, w1) \<Rightarrow> (False, emit (session_event d ProtocolError (wording e) now w1) w1))"
  by (simp add: serve_packet_def handle_def Let_def packet_qos_def decode_publish_qos0 [OF assms] type_publish_def
      type_pingreq_def type_subscribe_def type_disconnect_def)

lemma touch_session [simp]:
  "session_of d (on_reg f w) = session_of d w" "ses_device d (on_reg f w) = ses_device d w"
  by (simp_all add: session_of_def ses_device_def on_reg_def)

text \<open>The acknowledgement of a command completes it.\<close>

lemma serve_reply:
  assumes "length (f_product_key opts) + length (f_device_name opts) < 2 ^ 15"
    "ses_pending (session_of d w) (command_id now) = Some c"
  shows "serve_packet wording d \<lparr>ptype = type_publish, pflags = 0,
      pbody = wire_string (fake_topic opts ''thing/service/CommonService_reply'') @ bytes_of (service_reply_payload (command_id now))\<rparr> t w =
    (True, deliver c None (on_reg (touch (ses_device d w) t) w))"
proof -
  have len: "length (fake_topic opts ''thing/service/CommonService_reply'') < 2 ^ 16" using assms(1) by (simp add: fake_topic_def)
  show ?thesis
    using assms(2) decode_service_reply_eq [of "go_mod (unix_milli now) 1000000000"]
    by (simp add: serve_publish [OF len] handle_publish_def topic_ends complete_command_def command_id_def)
qed

lemma deliver_fields [simp]:
  "w_sessions (deliver c e w) = w_sessions w" "w_reg (deliver c e w) = w_reg w" "w_next (deliver c e w) = w_next w"
  "world.more (deliver c e w) = world.more w" "session_of d (deliver c e w) = session_of d w"
  "w_events (deliver c e w) = w_events w"
  by (simp_all add: deliver_def session_of_def split: option.split)

lemma deliver_commands: "w_commands w = w_commands w' \<Longrightarrow> w_commands (deliver c e w) = w_commands (deliver c e w')"
  by (simp add: deliver_def split: option.split)

lemma emit_fields [simp]:
  "w_sessions (emit e w) = w_sessions w" "w_reg (emit e w) = w_reg w" "w_next (emit e w) = w_next w"
  "w_commands (emit e w) = w_commands w" "world.more (emit e w) = world.more w" "session_of d (emit e w) = session_of d w"
  by (simp_all add: emit_def session_of_def)

text \<open>
  From one state to another the events have only grown, and a change of a lamp's light was told as one.
\<close>

definition tells :: "string \<Rightarrow> 'a world_scheme \<Rightarrow> 'a world_scheme \<Rightarrow> bool" where
  "tells i w w' \<longleftrightarrow>
     (\<exists>es. w_events w' = w_events w @ es \<and>
       (\<forall>b. lookup_bulb (w_reg w) i = Some b \<longrightarrow>
         (\<exists>b'. lookup_bulb (w_reg w') i = Some b' \<and> device_id b' = device_id b \<and>
           (same_light (light b) (light b') \<or> (\<exists>e\<in>set es. ev_kind e = StateChanged \<and> ev_device e = i)))))"

lemma same_light_trans: "same_light a b \<Longrightarrow> same_light b c \<Longrightarrow> same_light a c"
  by (simp add: same_light_def)

lemma tells_trans:
  assumes "tells i w w1" "tells i w1 w2"
  shows "tells i w w2"
proof -
  obtain es where 1: "w_events w1 = w_events w @ es"
    "\<And>b. lookup_bulb (w_reg w) i = Some b \<Longrightarrow> \<exists>b'. lookup_bulb (w_reg w1) i = Some b' \<and> device_id b' = device_id b \<and>
      (same_light (light b) (light b') \<or> (\<exists>e\<in>set es. ev_kind e = StateChanged \<and> ev_device e = i))"
    using assms(1) unfolding tells_def by blast
  obtain fs where 2: "w_events w2 = w_events w1 @ fs"
    "\<And>b. lookup_bulb (w_reg w1) i = Some b \<Longrightarrow> \<exists>b'. lookup_bulb (w_reg w2) i = Some b' \<and> device_id b' = device_id b \<and>
      (same_light (light b) (light b') \<or> (\<exists>e\<in>set fs. ev_kind e = StateChanged \<and> ev_device e = i))"
    using assms(2) unfolding tells_def by blast
  show ?thesis
    unfolding tells_def
  proof (intro exI [of _ "es @ fs"] conjI allI impI)
    show "w_events w2 = w_events w @ es @ fs" by (simp add: 1(1) 2(1))
    fix b assume "lookup_bulb (w_reg w) i = Some b"
    from 1(2) [OF this] obtain b1 where b1: "lookup_bulb (w_reg w1) i = Some b1" "device_id b1 = device_id b"
      "same_light (light b) (light b1) \<or> (\<exists>e\<in>set es. ev_kind e = StateChanged \<and> ev_device e = i)" by blast
    from 2(2) [OF b1(1)] obtain b2 where b2: "lookup_bulb (w_reg w2) i = Some b2" "device_id b2 = device_id b1"
      "same_light (light b1) (light b2) \<or> (\<exists>e\<in>set fs. ev_kind e = StateChanged \<and> ev_device e = i)" by blast
    show "\<exists>b'. lookup_bulb (w_reg w2) i = Some b' \<and> device_id b' = device_id b \<and>
        (same_light (light b) (light b') \<or> (\<exists>e\<in>set (es @ fs). ev_kind e = StateChanged \<and> ev_device e = i))"
      using b1(2,3) b2 same_light_trans by (intro exI [of _ b2]) auto
  qed
qed

lemma tells_quiet:
  assumes "w_events w' = w_events w" "\<And>b. lookup_bulb (w_reg w) i = Some b \<Longrightarrow> \<exists>b'. lookup_bulb (w_reg w') i = Some b' \<and> device_id b' = device_id b \<and> light b' = light b"
  shows "tells i w w'"
  using assms unfolding tells_def by (intro exI [of _ "[]"]) (fastforce simp: same_light_def)

lemma report_in_registry:
  assumes "lookup_bulb r i = Some b" "set_state i next t (snd (set_capabilities i caps (touch i t r))) = (changes, r2)"
  shows "map_option light (lookup_bulb r2 i) = Some next" "j \<noteq> i \<Longrightarrow> lookup_bulb r2 j = lookup_bulb r j"
    "changes = [] \<Longrightarrow> same_light (light b) next" "map_option device_id (lookup_bulb r2 i) = Some (device_id b)"
  using assms by (auto simp: set_state_def set_capabilities_def touch_def reg_simps Let_def diff_state_Nil_iff split: if_splits)

text \<open>
  A report that carries the sequence number of a command: the registry takes it in, the command is
  complete, and the bulb gets its answer.
\<close>

lemma serve_report:
  assumes "length (f_product_key opts) + length (f_device_name opts) < 2 ^ 15"
    "w_sessions w d = Some s" "ses_up s" "device_name (ses_identity s) = i"
    "lookup_bulb (w_reg w) i = Some b"
    "decode_property_post text' = Some post" "post_id post \<noteq> []" "post_seq post = sq" "sq \<noteq> []"
    "ses_pending_seq s sq = Some c"
  shows "\<exists>w1. serve_packet wording d \<lparr>ptype = type_publish, pflags = 0,
      pbody = wire_string (fake_topic opts ''thing/event/property/post'') @ bytes_of text'\<rparr> t w = (True, w1) \<and>
    w_sessions w1 = (w_sessions w)(d \<mapsto> s\<lparr>ses_reported := True\<rparr>) \<and>
    w_commands w1 = w_commands (deliver c None w) \<and> w_next w1 = w_next w \<and> world.more w1 = world.more w \<and>
    map_option light (lookup_bulb (w_reg w1) i) = Some (apply_post post (light b) t) \<and>
    (\<forall>j. j \<noteq> i \<longrightarrow> lookup_bulb (w_reg w1) j = lookup_bulb (w_reg w) j) \<and> tells i w w1"
proof -
  have len: "length (fake_topic opts ''thing/event/property/post'') < 2 ^ 16" using assms(1) by (simp add: fake_topic_def)
  have i: "ses_device d w = i" using assms(2,4) by (simp add: ses_device_def session_of_def identity_device_id_def)
  let ?w = "on_reg (touch i t) w" and ?r = "touch i t (w_reg w)"
  obtain bt where bt: "lookup_bulb ?r i = Some bt" "light bt = light b"
    using assms(5) by (simp add: touch_def reg_simps)
  let ?caps = "refine_from_report (bulb_caps bt) post"
  obtain changes r2 where st: "set_state i (apply_post post (light b) t) t (snd (set_capabilities i ?caps ?r)) = (changes, r2)"
    by fastforce
  note reg = report_in_registry [OF assms(5) st]
  define w2 where "w2 = upd_session d (\<lambda>s. s\<lparr>ses_reported := True\<rparr>) (?w\<lparr>w_reg := r2\<rparr>)"
  define w3 where "w3 = (if changes = [] \<longrightarrow> \<not> ses_reported s
    then emit ((session_event d StateChanged [] t w2)\<lparr>ev_changed := changes\<rparr>) w2 else w2)"
  have w3: "w_sessions w3 = (w_sessions w)(d \<mapsto> s\<lparr>ses_reported := True\<rparr>)" "w_commands w3 = w_commands w" "w_next w3 = w_next w"
    "world.more w3 = world.more w" "w_reg w3 = r2" "session_of d w3 = s\<lparr>ses_reported := True\<rparr>"
    using assms(2) by (auto simp: w3_def w2_def upd_session_def on_reg_def session_of_def emit_def)
  have dev2: "ses_device d w2 = i"
    using assms(2,4) by (simp add: w2_def upd_session_def on_reg_def ses_device_def session_of_def identity_device_id_def)
  let ?es = "if changes = [] \<longrightarrow> \<not> ses_reported s then [(session_event d StateChanged [] t w2)\<lparr>ev_changed := changes\<rparr>] else []"
  have "tells i w w3"
    unfolding tells_def
  proof (intro exI [of _ ?es] conjI allI impI)
    show "w_events w3 = w_events w @ ?es"
      using assms(2) by (auto simp: w3_def w2_def upd_session_def on_reg_def emit_def)
    fix b0 assume "lookup_bulb (w_reg w) i = Some b0"
    then have "b0 = b" using assms(5) by simp
    moreover obtain b' where "lookup_bulb r2 i = Some b'" "light b' = apply_post post (light b) t" "device_id b' = device_id b"
      using reg(1,4) by auto
    ultimately show "\<exists>b'. lookup_bulb (w_reg w3) i = Some b' \<and> device_id b' = device_id b0 \<and> (same_light (light b0) (light b') \<or>
        (\<exists>e\<in>set ?es.
          ev_kind e = StateChanged \<and> ev_device e = i))"
      using reg(3) dev2 by (cases "changes = []") (auto simp: w3(5) session_event_def case_prod_beta Let_def)
  qed
  then have tell: "tells i w ((deliver c None w3)\<lparr>w_sent := x\<rparr>)" for x by (rule tells_trans) (rule tells_quiet, simp_all)
  have seq: "complete_by_seq d sq w3 = deliver c None w3"
    using assms(9,10) by (simp add: complete_by_seq_def w3(6))
  have up: "ses_write d p (deliver c None w3) = (None, (deliver c None w3)\<lparr>w_sent := w_sent (deliver c None w3) @ [(d, p)]\<rparr>)" for p
    using assms(3) by (simp add: ses_write_def w3(6))
  have s: "session_of d w = s" using assms(2) by (simp add: session_of_def)
  have v: "view (ses_device d ?w) (w_reg ?w) = (bt, True)" "ses_device d ?w = i" "session_of d ?w = s"
    using bt i s by (simp_all add: view_def on_reg_def ses_device_def session_of_def)
  have reg': "w_reg ?w = ?r" by (simp add: on_reg_def)
  have "handle_property_post d \<lparr>topic = fake_topic opts ''thing/event/property/post'', packet_id = 0, content = bytes_of text'\<rparr> t ?w =
      ses_write d (encode_publish (property_post_reply (ses_identity (s\<lparr>ses_reported := True\<rparr>)))
        (bytes_of (encode_property_post_reply (post_id post)))) (deliver c None w3)"
    by (simp add: handle_property_post_def assms(6-8) v(1) [unfolded reg' v(2)] reg' v(2,3) bt(2) st Let_def seq w3(6)
        w2_def [symmetric] w3_def [symmetric] del: touch_session split del: if_split cong del: if_weak_cong)
  then show ?thesis
    using w3 reg tell deliver_commands [OF w3(2), of c None]
    by (simp add: serve_publish [OF len] i handle_publish_def topic_ends up)
qed

section \<open>One command\<close>

lemma command_id_of_command:
  assumes "settable p"
  shows "command_id_of (fst (encode_command (property_map p) now)) = Some (command_id now)"
proof -
  let ?j = "command_json (property_map p) now"
  have f: "find_field [(''id'', d1)] ''id'' = Some d1" "find_field [(''id'', d1)] ''method'' = None"
    "find_field [(''id'', d1)] ''params'' = None" "find_field [(''id'', d1)] ''version'' = None" for d1 :: "string dec"
  proof -
    have "\<not> equal_fold ''id'' ''method'' \<and> \<not> equal_fold ''id'' ''params'' \<and> \<not> equal_fold ''id'' ''version''" by code_simp
    then show "find_field [(''id'', d1)] ''method'' = None" "find_field [(''id'', d1)] ''params'' = None"
      "find_field [(''id'', d1)] ''version'' = None"
      by (simp_all add: find_field_none)
  qed (simp add: find_field_exact)
  have ok: "json_ok ?j" "json_depth ?j \<le> max_nesting"
    using valid_utf8_inner [OF assms] valid_utf8_seq
    by (simp_all add: command_json_def command_id_def jint_def valid_utf8_ascii max_nesting_def)
  have u: "unmarshal d z (marshal ?j) = (let (x, ok) = d ?j z in if ok then Some x else None)" for d :: "string dec" and z
    using ok by (rule unmarshal_marshal)
  show ?thesis
    unfolding command_id_of_def encode_command_eq fst_conv u
    by (simp add: dec_struct_def command_json_def f field_def)
qed

definition agrees :: "light_state \<Rightarrow> fake_bulb \<Rightarrow> bool" where
  "agrees s b \<longleftrightarrow> power s = f_power b \<and> brightness s = f_bright b \<and> color_temp s = f_temp b"

definition own_identity :: "fake_options \<Rightarrow> identity" where
  "own_identity opts = \<lparr>device_name = f_device_name opts, product_key = f_product_key opts\<rparr>"

text \<open>The session of the bulb is being served, and the registry shows the bulb as it is.\<close>

definition ready :: "fake_options \<Rightarrow> nat \<Rightarrow> light_state \<Rightarrow> lab \<Rightarrow> bool" where
  "ready opts d st w \<longleftrightarrow>
     (\<exists>s. w_sessions w d = Some s \<and> ses_up s \<and> \<not> ses_closed s \<and> ses_identity s = own_identity opts) \<and>
     (\<exists>b. lookup_bulb (w_reg w) (f_device_name opts) = Some b \<and> light b = st) \<and> agrees st (lab_bulb w)"

lemma send_ok:
  fixes w :: lab
  assumes "settable p" "w_sessions w d = Some s" "ses_up s" "\<not> ses_closed s" "ses_identity s = own_identity opts"
  shows "\<exists>w1. send_command d name p now w = (Inr (w_next w, command_id now, command_seq now), w1) \<and>
    w_sessions w1 = (w_sessions w)(d \<mapsto> s\<lparr>ses_pending := (ses_pending s)(command_id now \<mapsto> w_next w),
      ses_pending_seq := (ses_pending_seq s)(command_seq now \<mapsto> w_next w)\<rparr>) \<and>
    w_commands w1 = (w_commands w)(w_next w \<mapsto> \<lparr>cmd_id = command_id now, cmd_seq = command_seq now, cmd_done = None\<rparr>) \<and>
    w_next w1 = w_next w + 1 \<and> w_reg w1 = w_reg w \<and> lab_bulb w1 = lab_bulb w \<and> w_events w1 = w_events w \<and>
    w_sent w1 = w_sent w @ [(d, encode_publish (common_service (own_identity opts)) (bytes_of (fst (encode_command (property_map p) now))))]"
proof -
  have s: "session_of d w = s" using assms(2) by (simp add: session_of_def)
  have e: "encode_command (property_map p) now = (fst (encode_command (property_map p) now), command_seq now)"
    by (simp add: encode_command_eq)
  show ?thesis
    unfolding send_command_def
    by (subst (1) e)
      (simp add: command_id_of_command [OF assms(1)] s assms(2-5) Let_def ses_write_def upd_session_def session_of_def)
qed

lemma agrees_moved:
  assumes "settable p" "agrees s b"
  shows "agrees ((set_light s p)\<lparr>reported_at := t\<rparr>) (moved p b)"
proof -
  have "fake_view (moved p b) 0 = set_light (fake_view b 0) p"
    using apply_locked_view [OF assms(1), of "b\<lparr>f_post_id := f_post_id b + 1\<rparr>" 0] by (simp add: moved_def)
  then show ?thesis
    using assms(2) by (simp add: agrees_def fake_view_def set_light_def split: if_splits)
qed

lemma deliver_done:
  "w_commands w c = Some pc \<Longrightarrow> cmd_done pc = None \<Longrightarrow> w_commands (deliver c None w) c = Some (pc\<lparr>cmd_done := Some None\<rparr>)"
  "w_commands w c = Some pc \<Longrightarrow> cmd_done pc \<noteq> None \<Longrightarrow> deliver c e w = w"
  by (auto simp: deliver_def)

text \<open>The sizes and instants a connection can carry.\<close>

definition fits :: "fake_options \<Rightarrow> time \<Rightarrow> time \<Rightarrow> int \<Rightarrow> bool" where
  "fits opts now t i \<longleftrightarrow> length (f_product_key opts) + length (f_device_name opts) < 2 ^ 15 \<and>
     \<bar>now\<bar> < 10 ^ 20 \<and> \<bar>t\<bar> < 10 ^ 20 \<and> \<bar>i\<bar> < 10 ^ 19"

text \<open>The reports and replies of the bulb as they are read from the connection.\<close>

lemma read_answers:
  assumes "settable p" "fits opts now t i"
  shows "read_packet (encode_publish (fake_topic opts ''thing/service/CommonService_reply'') (bytes_of (service_reply_payload (command_id now)))) =
      Inr (\<lparr>ptype = type_publish, pflags = 0, pbody = wire_string (fake_topic opts ''thing/service/CommonService_reply'') @
        bytes_of (service_reply_payload (command_id now))\<rparr>, [])"
    "read_packet (encode_publish (fake_topic opts ''thing/event/property/post'') (bytes_of (report_text p now t i))) =
      Inr (\<lparr>ptype = type_publish, pflags = 0, pbody = wire_string (fake_topic opts ''thing/event/property/post'') @
        bytes_of (report_text p now t i)\<rparr>, [])"
    "read_packet (encode_publish (common_service (own_identity opts)) (bytes_of (fst (encode_command (property_map p) now)))) =
      Inr (\<lparr>ptype = type_publish, pflags = 0, pbody = wire_string (common_service (own_identity opts)) @
        bytes_of (fst (encode_command (property_map p) now))\<rparr>, [])"
proof -
  note b = assms(2) [unfolded fits_def]
  have l: "length (service_reply_payload (command_id now)) \<le> 2000" using reply_short [of now] by linarith
  show "read_packet (encode_publish (fake_topic opts ''thing/service/CommonService_reply'') (bytes_of (service_reply_payload (command_id now)))) =
      Inr (\<lparr>ptype = type_publish, pflags = 0, pbody = wire_string (fake_topic opts ''thing/service/CommonService_reply'') @
        bytes_of (service_reply_payload (command_id now))\<rparr>, [])"
    by (rule read_one_publish) (use b l in \<open>simp_all add: fake_topic_def\<close>)
  show "read_packet (encode_publish (fake_topic opts ''thing/event/property/post'') (bytes_of (report_text p now t i))) =
      Inr (\<lparr>ptype = type_publish, pflags = 0, pbody = wire_string (fake_topic opts ''thing/event/property/post'') @
        bytes_of (report_text p now t i)\<rparr>, [])"
    by (rule read_one_publish) (use b report_short [OF assms(1), of now t i] in \<open>simp_all add: fake_topic_def report_text_def\<close>)
  show "read_packet (encode_publish (common_service (own_identity opts)) (bytes_of (fst (encode_command (property_map p) now)))) =
      Inr (\<lparr>ptype = type_publish, pflags = 0, pbody = wire_string (common_service (own_identity opts)) @
        bytes_of (fst (encode_command (property_map p) now))\<rparr>, [])"
    by (rule read_one_publish) (use b command_short [OF assms(1), of now] in \<open>simp_all add: common_service_def own_identity_def\<close>)
qed

lemma report_reads:
  assumes "settable p"
  obtains post where "decode_property_post (report_text p now t i) = Some post" "post_id post \<noteq> []" "post_seq post = command_seq now"
    "\<And>s. apply_post post s u = (set_light s p)\<lparr>reported_at := u\<rparr>"
proof -
  have "command_seq now \<noteq> []" by (simp add: command_seq_def)
  from decode_change [OF assms this valid_utf8_seq, of i "unix_milli t"] obtain post where
    post: "decode_property_post (report_text p now t i) = Some post" "post_id post = itoa i" "post_seq post = command_seq now"
    and f: "post_mode post = None" "post_power post = (if prop_name p = prop_switch then Some (prop_value p \<noteq> 0) else None)"
      "post_brightness post = (if prop_name p = prop_brightness then Some (of_int (prop_value p)) else None)"
      "post_color_temp post = (if prop_name p = prop_color_temp then Some (of_int (prop_value p)) else None)"
    unfolding report_text_def by blast
  show thesis by (rule that [OF post(1) _ post(3) apply_post_settable [OF assms f]]) (simp add: post(2) itoa_nonempty)
qed

lemma same_more: "world.more w = world.more w' \<Longrightarrow> lab_bulb w = lab_bulb w'"
  by (cases w; cases w') simp

text \<open>The wait: the bulb acts, the answers come in, and the command is complete.\<close>

lemma turn_ok:
  assumes p: "settable p" "\<not> f_silent opts" "fits opts now t (f_post_id (lab_bulb w) + 1)"
    and s: "w_sessions w d = Some s" "ses_up s" "ses_identity s = own_identity opts"
      "ses_pending s (command_id now) = Some c" "ses_pending_seq s (command_seq now) = Some c"
    and c: "w_commands w c = Some pc" "cmd_done pc = None"
    and sent: "snd (last (w_sent w)) =
      encode_publish (common_service (own_identity opts)) (bytes_of (fst (encode_command (property_map p) now)))"
    and b: "lookup_bulb (w_reg w) (f_device_name opts) = Some b"
  shows "let w2 = lamp_turn opts wording d t w in
    w_sessions w2 = (w_sessions w)(d \<mapsto> s\<lparr>ses_reported := True\<rparr>) \<and>
    w_commands w2 c = Some (pc\<lparr>cmd_done := Some None\<rparr>) \<and> w_next w2 = w_next w \<and> lab_bulb w2 = moved p (lab_bulb w) \<and>
    map_option light (lookup_bulb (w_reg w2) (f_device_name opts)) = Some ((set_light (light b) p)\<lparr>reported_at := t\<rparr>) \<and>
    (\<forall>j. j \<noteq> f_device_name opts \<longrightarrow> lookup_bulb (w_reg w2) j = lookup_bulb (w_reg w) j) \<and> tells (f_device_name opts) w w2"
proof -
  let ?i = "f_device_name opts" and ?n = "f_post_id (lab_bulb w) + 1"
  have len: "length (f_product_key opts) + length ?i < 2 ^ 15" using p(3) by (simp add: fits_def)
  define w0 where "w0 = w\<lparr>lab_bulb := moved p (lab_bulb w)\<rparr>"
  define wa where "wa = (if f_no_ack opts then w0 else deliver c None (on_reg (touch ?i t) w0))"
  have dev: "ses_device d w0 = ?i" "session_of d w0 = s"
    using s(1,3) by (simp_all add: w0_def ses_device_def session_of_def own_identity_def identity_device_id_def)
  have reply: "serve_packet wording d \<lparr>ptype = type_publish, pflags = 0,
      pbody = wire_string (fake_topic opts ''thing/service/CommonService_reply'') @ bytes_of (service_reply_payload (command_id now))\<rparr> t w0 =
    (True, deliver c None (on_reg (touch ?i t) w0))"
    using serve_reply [OF len, of d w0 now c wording t] s(4) by (simp add: dev)
  obtain post where post: "decode_property_post (report_text p now t ?n) = Some post" "post_id post \<noteq> []"
      "post_seq post = command_seq now" "\<And>s. apply_post post s t = (set_light s p)\<lparr>reported_at := t\<rparr>"
    using report_reads [OF p(1)] by metis
  have wa: "w_sessions wa = w_sessions w" "world.more wa = world.more w0" "w_next wa = w_next w"
    "w_commands wa = (if f_no_ack opts then w_commands w else w_commands (deliver c None w))"
    using deliver_commands [of "on_reg (touch ?i t) w0" w] by (simp_all add: wa_def w0_def on_reg_def)
  obtain ba where ba: "lookup_bulb (w_reg wa) ?i = Some ba" "light ba = light b"
    using b by (cases "f_no_ack opts") (simp_all add: wa_def w0_def on_reg_def touch_def reg_simps)
  have others: "j \<noteq> ?i \<Longrightarrow> lookup_bulb (w_reg wa) j = lookup_bulb (w_reg w) j" for j
    using b by (cases "f_no_ack opts") (simp_all add: wa_def w0_def on_reg_def touch_def reg_simps)
  have ne: "command_seq now \<noteq> []" by (simp add: command_seq_def)
  have "tells ?i w wa"
    by (rule tells_quiet) (simp_all add: wa_def w0_def on_reg_def touch_def reg_simps split: option.split)
  obtain w1 where w1: "serve_packet wording d \<lparr>ptype = type_publish, pflags = 0,
      pbody = wire_string (fake_topic opts ''thing/event/property/post'') @ bytes_of (report_text p now t ?n)\<rparr> t wa = (True, w1)"
    "w_sessions w1 = (w_sessions w)(d \<mapsto> s\<lparr>ses_reported := True\<rparr>)" "w_commands w1 = w_commands (deliver c None wa)"
    "w_next w1 = w_next w" "world.more w1 = world.more w0"
    "map_option light (lookup_bulb (w_reg w1) ?i) = Some ((set_light (light b) p)\<lparr>reported_at := t\<rparr>)"
    "\<forall>j. j \<noteq> ?i \<longrightarrow> lookup_bulb (w_reg w1) j = lookup_bulb (w_reg w) j" "tells ?i wa w1"
    using serve_report [OF len, of wa d s ?i ba "report_text p now t ?n" post "command_seq now" c wording t]
      s ba post ne wa others by (auto simp: own_identity_def)
  have fin: "w_commands w1 c = Some (pc\<lparr>cmd_done := Some None\<rparr>)"
  proof (cases "f_no_ack opts")
    case True
    then show ?thesis using w1(3) deliver_done(1) [of wa c pc] wa(4) c by simp
  next
    case False
    then have a: "w_commands wa c = Some (pc\<lparr>cmd_done := Some None\<rparr>)" using wa(4) deliver_done(1) [OF c] by simp
    then have "deliver c None wa = wa" by (rule deliver_done(2)) (cases pc, simp)
    then show ?thesis using w1(3) a by simp
  qed
  have "lamp_turn opts wording d t w = w1"
    using bulb_answers [OF p(1,2) len, where now = now and b = "lab_bulb w" and t = t] reply w1(1)
    by (simp add: lamp_turn_def sent read_answers [OF p(1,3)] own_identity_def [symmetric] wa_def
        flip: w0_def split: if_splits)
  moreover have "lab_bulb w1 = moved p (lab_bulb w)"
    using same_more [OF w1(5)] by (simp add: w0_def)
  ultimately show ?thesis using w1 fin tells_trans [OF \<open>tells ?i w wa\<close> w1(8)] by simp
qed

lemma apply_one_ok:
  assumes "ready opts d st w" "settable p" "\<not> f_silent opts" "fits opts now (arrives (w_next w + 1)) (f_post_id (lab_bulb w) + 1)"
  shows "\<exists>w'. apply_one (\<lambda>w. lamp_turn opts wording d (arrives (w_next w)) w) d name p now w = (CmdOk, w') \<and>
    ready opts d ((set_light st p)\<lparr>reported_at := arrives (w_next w + 1)\<rparr>) w' \<and> w_next w' = w_next w + 1 \<and>
    f_post_id (lab_bulb w') = f_post_id (lab_bulb w) + 1 \<and>
    (\<forall>j. j \<noteq> f_device_name opts \<longrightarrow> lookup_bulb (w_reg w') j = lookup_bulb (w_reg w) j) \<and> tells (f_device_name opts) w w'"
proof -
  let ?t = "arrives (w_next w + 1)" and ?i = "f_device_name opts"
  from assms(1) obtain s b where s: "w_sessions w d = Some s" "ses_up s" "\<not> ses_closed s" "ses_identity s = own_identity opts"
    and b: "lookup_bulb (w_reg w) ?i = Some b" "light b = st" and ag: "agrees st (lab_bulb w)"
    by (auto simp: ready_def)
  from send_ok [OF assms(2) s, of name now] obtain w1 where
    send: "send_command d name p now w = (Inr (w_next w, command_id now, command_seq now), w1)"
    and w1: "w_sessions w1 = (w_sessions w)(d \<mapsto> s\<lparr>ses_pending := (ses_pending s)(command_id now \<mapsto> w_next w),
        ses_pending_seq := (ses_pending_seq s)(command_seq now \<mapsto> w_next w)\<rparr>)"
      "w_commands w1 = (w_commands w)(w_next w \<mapsto> \<lparr>cmd_id = command_id now, cmd_seq = command_seq now, cmd_done = None\<rparr>)"
      "w_next w1 = w_next w + 1" "w_reg w1 = w_reg w" "lab_bulb w1 = lab_bulb w" "w_events w1 = w_events w"
    and sent: "w_sent w1 = w_sent w @
      [(d, encode_publish (common_service (own_identity opts)) (bytes_of (fst (encode_command (property_map p) now))))]"
    by blast
  let ?s1 = "s\<lparr>ses_pending := (ses_pending s)(command_id now \<mapsto> w_next w),
        ses_pending_seq := (ses_pending_seq s)(command_seq now \<mapsto> w_next w)\<rparr>"
  define w2 where "w2 = lamp_turn opts wording d ?t w1"
  have w2: "w_sessions w2 = (w_sessions w1)(d \<mapsto> ?s1\<lparr>ses_reported := True\<rparr>)"
    "map_option cmd_done (w_commands w2 (w_next w)) = Some (Some None)" "w_next w2 = w_next w + 1" "lab_bulb w2 = moved p (lab_bulb w)"
    "map_option light (lookup_bulb (w_reg w2) ?i) = Some ((set_light st p)\<lparr>reported_at := ?t\<rparr>)"
    "\<forall>j. j \<noteq> ?i \<longrightarrow> lookup_bulb (w_reg w2) j = lookup_bulb (w_reg w) j" "tells ?i w1 w2"
    using turn_ok [of p opts now ?t w1 d ?s1 "w_next w" _ b wording] assms(2-4) s b w1 sent
    by (simp_all add: Let_def w2_def)
  then obtain pc where pc: "w_commands w2 (w_next w) = Some pc" "cmd_done pc = Some None" by auto
  let ?w' = "forget_command d (command_id now) (command_seq now) w2"
  have "apply_one (\<lambda>w. lamp_turn opts wording d (arrives (w_next w)) w) d name p now w = (CmdOk, ?w')"
    using pc by (simp add: apply_one_def send w1(3) Let_def w2_def)
  moreover have "ready opts d ((set_light st p)\<lparr>reported_at := ?t\<rparr>) ?w'"
    using w2 s agrees_moved [OF assms(2) ag] by (auto simp: ready_def forget_command_def upd_session_def)
  moreover have "w_next ?w' = w_next w + 1" "lab_bulb ?w' = lab_bulb w2" "w_reg ?w' = w_reg w2" "w_events ?w' = w_events w2"
    using w2(3) by (simp_all add: forget_command_def upd_session_def)
  moreover have "tells ?i w w1" "tells ?i w2 ?w'" using w1 calculation(5,6) by (auto intro: tells_quiet)
  ultimately show ?thesis
    using w2 moved_post_id [of p "lab_bulb w"] tells_trans [OF tells_trans [OF _ w2(7)], of w ?w'] by auto
qed

lemma same_light_set:
  "same_light s s' \<Longrightarrow> same_light ((set_light s p)\<lparr>reported_at := t\<rparr>) (set_light s' p)"
  by (simp add: same_light_def set_light_def)

lemma apply_props_ok:
  assumes "list_all settable ps" "\<not> f_silent opts" "ready opts d st w" "same_light st goal"
    "\<forall>n. fits opts (clock n) (arrives n) (f_post_id (lab_bulb w) + int (length ps))" "0 \<le> f_post_id (lab_bulb w)"
  shows "\<exists>w' st'. apply_props (\<lambda>w. lamp_turn opts wording d (arrives (w_next w)) w) clock d name ps [] w = (Done, w') \<and>
    ready opts d st' w' \<and> same_light st' (foldl set_light goal ps) \<and>
    (\<forall>j. j \<noteq> f_device_name opts \<longrightarrow> lookup_bulb (w_reg w') j = lookup_bulb (w_reg w) j) \<and> tells (f_device_name opts) w w'"
  using assms
proof (induction ps arbitrary: w st goal)
  case (Cons p ps)
  let ?st = "(set_light st p)\<lparr>reported_at := arrives (w_next w + 1)\<rparr>"
  have f: "fits opts (clock (w_next w)) (arrives (w_next w + 1)) (f_post_id (lab_bulb w) + 1)"
    using Cons.prems(5,6) by (auto simp: fits_def)
  from apply_one_ok [where arrives = arrives and wording = wording and name = name, OF Cons.prems(3) _ Cons.prems(2) f] Cons.prems(1)
  obtain w1 where w1: "apply_one (\<lambda>w. lamp_turn opts wording d (arrives (w_next w)) w) d name p (clock (w_next w)) w = (CmdOk, w1)"
    "ready opts d ?st w1" "f_post_id (lab_bulb w1) = f_post_id (lab_bulb w) + 1"
    "\<forall>j. j \<noteq> f_device_name opts \<longrightarrow> lookup_bulb (w_reg w1) j = lookup_bulb (w_reg w) j" "tells (f_device_name opts) w w1"
    by auto
  have "\<forall>n. fits opts (clock n) (arrives n) (f_post_id (lab_bulb w1) + int (length ps))"
    using Cons.prems(5) w1(3) by (auto simp: fits_def)
  with Cons.IH [OF _ Cons.prems(2) w1(2) same_light_set [OF Cons.prems(4)]] Cons.prems(1,6) w1 tells_trans [OF w1(5)]
  show ?case by auto
qed (auto intro: tells_quiet)

lemma changed_props_few: "length (changed_props current want caps) \<le> 3"
  by (simp add: changed_props_def)

lemma session_apply_ok:
  assumes "ready opts d (light b) w" "lookup_bulb (w_reg w) (f_device_name opts) = Some b" "\<not> f_silent opts"
    "uint (brightness want) \<le> 100" "uint (color_temp want) \<le> 100"
    "\<forall>n. fits opts (clock n) (arrives n) (f_post_id (lab_bulb w) + 3)" "0 \<le> f_post_id (lab_bulb w)"
  shows "\<exists>w' st'. session_apply (\<lambda>w. lamp_turn opts wording d (arrives (w_next w)) w) clock d want w = (Done, w') \<and>
    ready opts d st' w' \<and> same_light st' (reached (light b) want (bulb_caps b)) \<and>
    (\<forall>j. j \<noteq> f_device_name opts \<longrightarrow> lookup_bulb (w_reg w') j = lookup_bulb (w_reg w) j) \<and> tells (f_device_name opts) w w'"
proof -
  let ?ps = "changed_props (light b) want (bulb_caps b)"
  have dev: "ses_device d w = f_device_name opts"
    using assms(1) by (auto simp: ready_def ses_device_def session_of_def own_identity_def identity_device_id_def)
  have "\<forall>n. fits opts (clock n) (arrives n) (f_post_id (lab_bulb w) + int (length ?ps))"
    using assms(6,7) changed_props_few [of "light b" want "bulb_caps b"] by (auto simp: fits_def)
  moreover have "same_light (light b) (light b)" by (simp add: same_light_def)
  ultimately show ?thesis
    using apply_props_ok [OF changed_props_settable [OF assms(4,5)] assms(3,1) _ _ assms(7), of "light b"] dev assms(2)
    by (simp add: session_apply_def view_def flip: foldl_set_light)
qed

section \<open>A lamp that does not answer\<close>

lemma silent_turn:
  assumes "f_silent opts" "settable p" "fits opts now t i"
    "snd (last (w_sent w)) = encode_publish (common_service (own_identity opts)) (bytes_of (fst (encode_command (property_map p) now)))"
  shows "lamp_turn opts wording d t w = w"
proof -
  have len: "length (common_service (own_identity opts)) < 2 ^ 16"
    using assms(3) by (simp add: fits_def common_service_def own_identity_def)
  show ?thesis
    using assms(1)
    by (simp add: lamp_turn_def assms(4) read_answers(3) [OF assms(2,3)] fake_packet_def packet_qos_def
        decode_publish_qos0 [OF len] on_command_eq [OF assms(2)])
qed

lemma apply_one_silent:
  assumes "ready opts d st w" "settable p" "f_silent opts" "fits opts now (arrives (w_next w + 1)) i"
  shows "\<exists>w'. apply_one (\<lambda>w. lamp_turn opts wording d (arrives (w_next w)) w) d name p now w = (CmdUnconfirmed, w') \<and>
    ready opts d st w' \<and> w_reg w' = w_reg w \<and> lab_bulb w' = lab_bulb w"
proof -
  from assms(1) obtain s b where s: "w_sessions w d = Some s" "ses_up s" "\<not> ses_closed s" "ses_identity s = own_identity opts"
    and b: "lookup_bulb (w_reg w) (f_device_name opts) = Some b" "light b = st" and ag: "agrees st (lab_bulb w)"
    by (auto simp: ready_def)
  from send_ok [OF assms(2) s, of name now] obtain w1 where
    send: "send_command d name p now w = (Inr (w_next w, command_id now, command_seq now), w1)"
    and w1: "w_sessions w1 = (w_sessions w)(d \<mapsto> s\<lparr>ses_pending := (ses_pending s)(command_id now \<mapsto> w_next w),
        ses_pending_seq := (ses_pending_seq s)(command_seq now \<mapsto> w_next w)\<rparr>)"
      "w_commands w1 = (w_commands w)(w_next w \<mapsto> \<lparr>cmd_id = command_id now, cmd_seq = command_seq now, cmd_done = None\<rparr>)"
      "w_next w1 = w_next w + 1" "w_reg w1 = w_reg w" "lab_bulb w1 = lab_bulb w" "w_events w1 = w_events w"
    and sent: "w_sent w1 = w_sent w @
      [(d, encode_publish (common_service (own_identity opts)) (bytes_of (fst (encode_command (property_map p) now))))]"
    by blast
  have "lamp_turn opts wording d (arrives (w_next w1)) w1 = w1"
    using silent_turn [OF assms(3,2), of now "arrives (w_next w1)" i w1 wording d] assms(4) sent by (simp add: w1(3))
  then show ?thesis
    using w1 s b ag
    by (auto simp: apply_one_def send Let_def ready_def forget_command_def upd_session_def)
qed

lemma apply_props_silent:
  assumes "list_all settable ps" "f_silent opts" "ready opts d st w" "\<forall>n. fits opts (clock n) (arrives n) 0"
  shows "\<exists>w'. apply_props (\<lambda>w. lamp_turn opts wording d (arrives (w_next w)) w) clock d name ps us w =
      (if us @ map prop_name ps = [] then Done else StillUnconfirmed (us @ map prop_name ps), w') \<and>
    w_reg w' = w_reg w \<and> lab_bulb w' = lab_bulb w"
  using assms
proof (induction ps arbitrary: w us)
  case (Cons p ps)
  have f: "fits opts (clock (w_next w)) (arrives (w_next w + 1)) 0" using Cons.prems(4) by (auto simp: fits_def)
  from apply_one_silent [where arrives = arrives and wording = wording and name = name, OF Cons.prems(3) _ Cons.prems(2) f] Cons.prems(1)
  obtain w1 where w1: "apply_one (\<lambda>w. lamp_turn opts wording d (arrives (w_next w)) w) d name p (clock (w_next w)) w = (CmdUnconfirmed, w1)"
    "ready opts d st w1" "w_reg w1 = w_reg w" "lab_bulb w1 = lab_bulb w" by auto
  with Cons.IH [OF _ Cons.prems(2) w1(2) Cons.prems(4), of "us @ [prop_name p]"] Cons.prems(1) show ?case by auto
qed auto

lemma session_apply_silent:
  assumes "ready opts d (light b) w" "lookup_bulb (w_reg w) (f_device_name opts) = Some b" "f_silent opts"
    "uint (brightness want) \<le> 100" "uint (color_temp want) \<le> 100" "\<forall>n. fits opts (clock n) (arrives n) 0"
  shows "\<exists>w'. session_apply (\<lambda>w. lamp_turn opts wording d (arrives (w_next w)) w) clock d want w =
      (let ns = map prop_name (changed_props (light b) want (bulb_caps b)) in if ns = [] then Done else StillUnconfirmed ns, w') \<and>
    w_reg w' = w_reg w \<and> lab_bulb w' = lab_bulb w"
proof -
  have dev: "ses_device d w = f_device_name opts"
    using assms(1) by (auto simp: ready_def ses_device_def session_of_def own_identity_def identity_device_id_def)
  show ?thesis
    using apply_props_silent [where us = "[]" and wording = wording and name = "bulb_name b",
        OF changed_props_settable [OF assms(4,5), of "light b" "bulb_caps b"] assms(3,1,6)] dev assms(2)
    by (auto simp: session_apply_def view_def split: if_splits)
qed

end
