(* ===== verification/Hass.thy ===== *)
theory Hass
  imports Lights Alink
begin

text \<open>
  What the Home Assistant bridge says and understands, \<open>internal/hass\<close>: units (convert.go), colour modes
  (capabilities.go), topics (topics.go), state and discovery payloads (state.go, discovery.go) and
  commands (command.go). The bridge itself is theory Bridge.
\<close>

section \<open>Configuration and topics\<close>

record hass_config =
  discovery_prefix :: string
  own_prefix :: string
  min_kelvin :: int
  max_kelvin :: int

definition default_config :: hass_config where
  "default_config =
     \<lparr>discovery_prefix = ''homeassistant'', own_prefix = ''haigosmart'', min_kelvin = 2700, max_kelvin = 6500\<rparr>"

definition with_defaults :: "hass_config \<Rightarrow> hass_config" where
  "with_defaults c =
     \<lparr>discovery_prefix = (if discovery_prefix c = [] then discovery_prefix default_config else discovery_prefix c),
      own_prefix = (if own_prefix c = [] then own_prefix default_config else own_prefix c),
      min_kelvin = (if min_kelvin c \<le> 0 then min_kelvin default_config else min_kelvin c),
      max_kelvin = (if max_kelvin c \<le> 0 then max_kelvin default_config else max_kelvin c)\<rparr>"

definition config_topic :: "hass_config \<Rightarrow> string \<Rightarrow> string" where
  "config_topic c i =
     (let cfg = with_defaults c in discovery_prefix cfg @ ''/light/'' @ own_prefix cfg @ ''/'' @ i @ ''/config'')"

definition state_topic :: "hass_config \<Rightarrow> string \<Rightarrow> string" where
  "state_topic c i = own_prefix (with_defaults c) @ ''/light/'' @ i @ ''/state''"

definition command_topic :: "hass_config \<Rightarrow> string \<Rightarrow> string" where
  "command_topic c i = own_prefix (with_defaults c) @ ''/light/'' @ i @ ''/set''"

definition availability_topic :: "hass_config \<Rightarrow> string \<Rightarrow> string" where
  "availability_topic c i = own_prefix (with_defaults c) @ ''/light/'' @ i @ ''/availability''"

definition command_filter :: "hass_config \<Rightarrow> string" where
  "command_filter c = own_prefix (with_defaults c) @ ''/light/+/set''"

definition status_topic :: "hass_config \<Rightarrow> string" where
  "status_topic c = own_prefix (with_defaults c) @ ''/status''"

definition unique_id :: "hass_config \<Rightarrow> string \<Rightarrow> string" where
  "unique_id c i = own_prefix (with_defaults c) @ ''_'' @ i"

definition bridge_config_topic :: "hass_config \<Rightarrow> string" where
  "bridge_config_topic c =
     (let cfg = with_defaults c in discovery_prefix cfg @ ''/binary_sensor/'' @ own_prefix cfg @ ''/status/config'')"

definition online :: string where "online = ''online''"
definition offline :: string where "offline = ''offline''"

definition device_of_command_topic :: "hass_config \<Rightarrow> string \<Rightarrow> string option" where
  "device_of_command_topic c t =
     (let p = own_prefix (with_defaults c) @ ''/light/''
      in if \<not> has_prefix t p \<or> \<not> has_suffix t ''/set'' then None
         else
           (let i = trim_suffix (trim_prefix t p) ''/set''
            in if i = [] \<or> contains i ''/'' then None else Some i))"

section \<open>Units\<close>

definition ha_brightness_max :: int where
  "ha_brightness_max = 255"

definition brightness_to_ha :: "byte \<Rightarrow> int" where
  "brightness_to_ha pct = go_div (uint (if 100 < pct then 100 else pct) * ha_brightness_max) 100"

definition brightness_from_ha :: "int \<Rightarrow> byte" where
  "brightness_from_ha v =
     (if v \<le> 0 then 0
      else if ha_brightness_max \<le> v then 100
      else word_of_int (go_div (v * 100 + go_div ha_brightness_max 2) ha_brightness_max))"

definition kelvin_from_percent :: "hass_config \<Rightarrow> byte \<Rightarrow> int" where
  "kelvin_from_percent c pct =
     (let cfg = with_defaults c; span = max_kelvin cfg - min_kelvin cfg
      in min_kelvin cfg + go_div (uint (if 100 < pct then 100 else pct) * span + 50) 100)"

definition percent_from_kelvin :: "hass_config \<Rightarrow> int \<Rightarrow> byte" where
  "percent_from_kelvin c k =
     (let cfg = with_defaults c; span = max_kelvin cfg - min_kelvin cfg
      in if span \<le> 0 then 0
         else if k \<le> min_kelvin cfg then 0
         else if max_kelvin cfg \<le> k then 100
         else word_of_int (go_div ((k - min_kelvin cfg) * 100 + go_div span 2) span))"

section \<open>Capabilities\<close>

definition mode_onoff :: string where "mode_onoff = ''onoff''"
definition mode_brightness :: string where "mode_brightness = ''brightness''"
definition mode_color_temp :: string where "mode_color_temp = ''color_temp''"
definition mode_rgb :: string where "mode_rgb = ''rgb''"

definition color_modes :: "capabilities \<Rightarrow> string list" where
  "color_modes c =
     (if \<not> cap_known c then [mode_brightness]
      else if cap_color c \<and> cap_color_temp c then [mode_color_temp, mode_rgb]
      else if cap_color c then [mode_rgb]
      else if cap_color_temp c then [mode_color_temp]
      else [mode_brightness])"

definition supports_color_temp_entity :: "capabilities \<Rightarrow> bool" where
  "supports_color_temp_entity c \<longleftrightarrow> list_ex (\<lambda>m. m = mode_color_temp) (color_modes c)"

section \<open>State and availability\<close>

text \<open>Members tagged \<open>omitempty\<close> are left out at their zero value.\<close>

definition omit_int :: "string \<Rightarrow> int \<Rightarrow> (string \<times> json) list" where
  "omit_int k n = (if n = 0 then [] else [(k, jint n)])"

definition omit_string :: "string \<Rightarrow> string \<Rightarrow> (string \<times> json) list" where
  "omit_string k s = (if s = [] then [] else [(k, JStr s)])"

definition state_json :: "hass_config \<Rightarrow> bulb \<Rightarrow> json" where
  "state_json c b =
     (let warm = supports_color_temp_entity (bulb_caps b)
      in JObj ([(''state'', JStr (if power (light b) then ''ON'' else ''OFF'')),
          (''brightness'', jint (brightness_to_ha (brightness (light b))))] @
         omit_string ''color_mode'' (if warm then mode_color_temp else []) @
         omit_int ''color_temp_kelvin'' (if warm then kelvin_from_percent (with_defaults c) (color_temp (light b)) else 0)))"

definition state_payload :: "hass_config \<Rightarrow> bulb \<Rightarrow> string" where
  "state_payload c b = marshal (state_json c b)"

definition availability :: "bulb \<Rightarrow> string" where
  "availability b = (if status b = Connected then online else offline)"

section \<open>Commands\<close>

record hass_command =
  hc_state :: "string option"
  hc_brightness :: "int option"
  hc_kelvin :: "int option"
  hc_mired :: "int option"

definition no_hass_command :: hass_command where
  "no_hass_command = \<lparr>hc_state = None, hc_brightness = None, hc_kelvin = None, hc_mired = None\<rparr>"

definition dec_hass_command :: "hass_command dec" where
  "dec_hass_command = dec_struct
     [(''state'', field hc_state (\<lambda>x r. r\<lparr>hc_state := x\<rparr>) (dec_ptr [] dec_string)),
      (''brightness'', field hc_brightness (\<lambda>x r. r\<lparr>hc_brightness := x\<rparr>) (dec_ptr 0 dec_int)),
      (''color_temp_kelvin'', field hc_kelvin (\<lambda>x r. r\<lparr>hc_kelvin := x\<rparr>) (dec_ptr 0 dec_int)),
      (''color_temp'', field hc_mired (\<lambda>x r. r\<lparr>hc_mired := x\<rparr>) (dec_ptr 0 dec_int))]"

datatype command_error = BadJson | AskedForNothing

definition change_of :: "hass_config \<Rightarrow> hass_command \<Rightarrow> change" where
  "change_of c p =
     (let cfg = with_defaults c
      in \<lparr>ch_power = map_option (\<lambda>s. equal_fold s ''ON'') (hc_state p),
          ch_brightness = map_option brightness_from_ha (hc_brightness p),
          ch_color_temp =
            (case hc_kelvin p of
               Some k \<Rightarrow> Some (percent_from_kelvin cfg k)
             | None \<Rightarrow>
                 (case hc_mired p of
                    Some m \<Rightarrow> if 0 < m then Some (percent_from_kelvin cfg (go_div 1000000 m)) else None
                  | None \<Rightarrow> None))\<rparr>)"

definition parse_command :: "hass_config \<Rightarrow> string \<Rightarrow> command_error + change" where
  "parse_command c payload =
     (case unmarshal dec_hass_command no_hass_command payload of
        None \<Rightarrow> Inl BadJson
      | Some p \<Rightarrow>
          (let ch = change_of c p in if is_empty ch then Inl AskedForNothing else Inr ch))"

section \<open>Discovery\<close>

definition model_name :: "bulb \<Rightarrow> string" where
  "model_name b =
     (let family = model b
      in if family = [] then ''Smart Bulb''
         else if contains family ''rgbcct'' \<or> contains family ''rgbw'' then ''Colour and White Smart Bulb''
         else if contains family ''rgb'' then ''Colour Smart Bulb''
         else if contains family ''cct'' then ''Tunable White Smart Bulb''
         else ''Smart Bulb'')"

definition device_json :: "string \<Rightarrow> string \<Rightarrow> string \<Rightarrow> string \<Rightarrow> string \<Rightarrow> string \<Rightarrow> json" where
  "device_json ident name maker mdl version via =
     JObj ([(''identifiers'', JArr [JStr ident]), (''name'', JStr name), (''manufacturer'', JStr maker)] @
       omit_string ''model'' mdl @ omit_string ''sw_version'' version @ omit_string ''via_device'' via)"

definition discovery_json :: "hass_config \<Rightarrow> bulb \<Rightarrow> json" where
  "discovery_json c b =
     (let cfg = with_defaults c; i = device_id b; warm = supports_color_temp_entity (bulb_caps b)
      in JObj ([(''schema'', JStr ''json''),
          (''unique_id'', JStr (unique_id cfg i)),
          (''object_id'', JStr i),
          (''name'', JStr (bulb_name b)),
          (''state_topic'', JStr (state_topic cfg i)),
          (''command_topic'', JStr (command_topic cfg i)),
          (''brightness'', JBool True),
          (''brightness_scale'', jint ha_brightness_max),
          (''supported_color_modes'', JArr (map JStr (color_modes (bulb_caps b))))] @
         omit_int ''min_kelvin'' (if warm then min_kelvin cfg else 0) @
         omit_int ''max_kelvin'' (if warm then max_kelvin cfg else 0) @
         [(''availability_mode'', JStr ''all''),
          (''availability'', JArr [JObj [(''topic'', JStr (status_topic cfg))], JObj [(''topic'', JStr (availability_topic cfg i))]]),
          (''device'', device_json (unique_id cfg i) (bulb_name b) ''Aigo'' (model_name b) (firmware b) (own_prefix cfg))]))"

definition discovery :: "hass_config \<Rightarrow> bulb \<Rightarrow> string" where
  "discovery c b = marshal (discovery_json c b)"

definition bridge_discovery_json :: "hass_config \<Rightarrow> string \<Rightarrow> json" where
  "bridge_discovery_json c version =
     (let cfg = with_defaults c; p = own_prefix cfg
      in JObj [(''name'', JStr ''Status''), (''unique_id'', JStr (p @ ''_bridge_status'')),
          (''object_id'', JStr (p @ ''_status'')), (''state_topic'', JStr (status_topic cfg)),
          (''device_class'', JStr ''connectivity''), (''payload_on'', JStr online), (''payload_off'', JStr offline),
          (''entity_category'', JStr ''diagnostic''),
          (''device'', device_json p ''haigosmart'' ''haigosmart'' ''Bulb Server'' version [])])"

definition bridge_discovery :: "hass_config \<Rightarrow> string \<Rightarrow> string" where
  "bridge_discovery c version = marshal (bridge_discovery_json c version)"

section \<open>Scales\<close>

text \<open>
  Two scales for one quantity: the lamp's percentage and the value shown elsewhere. Reading back a
  value written from a percentage gives the percentage, and every value reads as a percentage. Then
  exchanging values settles at once.
\<close>

locale unit_scale =
  fixes shown :: "byte \<Rightarrow> int" and read_back :: "int \<Rightarrow> byte"
  assumes read_shown: "p \<le> 100 \<Longrightarrow> read_back (shown p) = p"
    and read_range: "read_back v \<le> 100"
begin

lemma settles: "read_back (shown (read_back v)) = read_back v"
  by (rule read_shown) (rule read_range)

lemma stays: "((\<lambda>v. shown (read_back v)) ^^ Suc n) v = shown (read_back v)"
  by (induction n) (simp_all add: settles)

end

lemma uint_word_of_int_byte: "0 \<le> n \<Longrightarrow> n < 256 \<Longrightarrow> uint (word_of_int n :: byte) = n"
  by (simp add: uint_word_of_int)

lemma byte_le_100: "p \<le> (100 :: byte) \<longleftrightarrow> uint p \<le> 100"
  by (simp add: word_le_def)

lemma div_round: "0 \<le> (p::int) \<Longrightarrow> 100 \<le> s \<Longrightarrow> (((p * s + 50) div 100) * 100 + s div 2) div s = p"
proof -
  assume p: "0 \<le> p" and s: "100 \<le> s"
  let ?k = "(p * s + 50) div 100"
  have k: "?k * 100 \<le> p * s + 50" "p * s + 50 < ?k * 100 + 100"
    using div_mult_mod_eq [of "p * s + 50" 100] pos_mod_bound [of 100 "p * s + 50"] pos_mod_sign [of 100 "p * s + 50"] by linarith+
  have h: "s div 2 * 2 \<le> s" "s \<le> s div 2 * 2 + 1" "50 \<le> s div 2" using s by linarith+
  have "p * s \<le> ?k * 100 + s div 2" using k h by linarith
  moreover have "?k * 100 + s div 2 < p * s + s"
  proof (cases "s = 100")
    case True
    then show ?thesis by simp
  next
    case False
    then have "50 + s div 2 < s" using s h by linarith
    then show ?thesis using k by linarith
  qed
  ultimately show ?thesis
    by (intro int_div_pos_eq [where r = "?k * 100 + s div 2 - p * s"]) (auto simp: mult.commute)
qed

lemma div_255: "0 \<le> (n::int) \<Longrightarrow> (n * 255 div 100 * 100 + 127) div 255 = n"
proof -
  let ?k = "n * 255 div 100"
  have "?k * 100 \<le> n * 255" "n * 255 < ?k * 100 + 100"
    using div_mult_mod_eq [of "n * 255" 100] pos_mod_bound [of 100 "n * 255"] pos_mod_sign [of 100 "n * 255"] by linarith+
  then show ?thesis by (intro int_div_pos_eq [where r = "?k * 100 + 127 - n * 255"]) auto
qed

interpretation brightness_scale: unit_scale brightness_to_ha brightness_from_ha
proof
  show "brightness_from_ha (brightness_to_ha p) = p" if "p \<le> 100" for p
  proof -
    have u: "0 \<le> uint p" "uint p \<le> 100" using that by (simp_all add: byte_le_100)
    have sh: "brightness_to_ha p = uint p * 255 div 100"
      using that u by (simp add: brightness_to_ha_def ha_brightness_max_def go_div_nonneg not_less)
    show ?thesis
    proof (cases "uint p = 0 \<or> uint p = 100")
      case True
      then show ?thesis by (auto simp: sh brightness_from_ha_def ha_brightness_max_def word_uint_eq_iff)
    next
      case False
      then have "1 \<le> uint p * 255 div 100" "uint p * 255 div 100 < 255" using u by linarith+
      then show ?thesis
        using u div_255 [of "uint p"]
        by (simp add: sh brightness_from_ha_def ha_brightness_max_def go_div_nonneg)
    qed
  qed
  show "brightness_from_ha v \<le> 100" for v
    by (auto simp: brightness_from_ha_def ha_brightness_max_def go_div_nonneg byte_le_100 uint_word_of_int_byte)
qed

text \<open>Warmth: the configured span must be positive and at least one Kelvin per percent.\<close>

definition wide_span :: "hass_config \<Rightarrow> bool" where
  "wide_span c \<longleftrightarrow> 100 \<le> max_kelvin (with_defaults c) - min_kelvin (with_defaults c)"

lemma with_defaults_idem [simp]: "with_defaults (with_defaults c) = with_defaults c"
  by (simp add: with_defaults_def default_config_def)

lemma percent_range: "percent_from_kelvin c k \<le> 100"
proof -
  have r: "0 \<le> (d * 100 + s div 2) div s \<and> (d * 100 + s div 2) div s < 101" if "0 < s" "0 \<le> d" "d < s" for d s :: int
  proof
    show "0 \<le> (d * 100 + s div 2) div s" using that by (simp add: pos_imp_zdiv_nonneg_iff)
    have "d * 100 + s div 2 < 101 * s" using that by linarith
    then have "d * 100 + s div 2 \<le> 100 * s + (s - 1)" by linarith
    then have "(d * 100 + s div 2) div s \<le> (100 * s + (s - 1)) div s" using that by (intro zdiv_mono1) auto
    also have "\<dots> = 100" using that by (intro int_div_pos_eq [where r = "s - 1"]) auto
    finally show "(d * 100 + s div 2) div s < 101" by simp
  qed
  show ?thesis
    using r [of "max_kelvin (with_defaults c) - min_kelvin (with_defaults c)" "k - min_kelvin (with_defaults c)"]
    by (auto simp: percent_from_kelvin_def Let_def go_div_nonneg byte_le_100 uint_word_of_int_byte not_le)
qed

lemma div_inside:
  assumes "1 * s \<le> (x::int)" "x \<le> 99 * s" "100 \<le> s"
  shows "0 < (x + 50) div 100" "(x + 50) div 100 < s"
  using assms by linarith+

lemma read_kelvin:
  assumes "wide_span c" "p \<le> 100"
  shows "percent_from_kelvin c (kelvin_from_percent c p) = p"
proof -
  let ?lo = "min_kelvin (with_defaults c)" and ?hi = "max_kelvin (with_defaults c)"
  let ?s = "?hi - ?lo" and ?p = "uint p"
  have u: "0 \<le> ?p" "?p \<le> 100" and s: "100 \<le> ?s" using assms by (simp_all add: byte_le_100 wide_span_def)
  have k: "kelvin_from_percent c p = ?lo + (?p * ?s + 50) div 100"
    using assms(2) u s by (simp add: kelvin_from_percent_def Let_def go_div_nonneg not_less)
  consider "?p = 0" | "?p = 100" | "0 < ?p" "?p < 100" using u by linarith
  then show ?thesis
  proof cases
    case 1
    then show ?thesis using s by (simp add: k percent_from_kelvin_def Let_def word_uint_eq_iff)
  next
    case 2
    then have "(?p * ?s + 50) div 100 = ?s" by simp
    then show ?thesis using 2 s by (simp add: k percent_from_kelvin_def Let_def word_uint_eq_iff)
  next
    case 3
    have "1 * ?s \<le> ?p * ?s" "?p * ?s \<le> 99 * ?s" using 3 s by (intro mult_right_mono; simp)+
    then have "0 < (?p * ?s + 50) div 100" "(?p * ?s + 50) div 100 < ?s" using s by (rule div_inside)+
    then show ?thesis
      using div_round [OF u(1) s] s by (simp add: k percent_from_kelvin_def Let_def go_div_nonneg)
  qed
qed

lemma kelvin_scale: "wide_span c \<Longrightarrow> unit_scale (kelvin_from_percent c) (percent_from_kelvin c)"
  by unfold_locales (simp_all add: read_kelvin percent_range)

interpretation lamp_warmth: unit_scale "kelvin_from_percent default_config" "percent_from_kelvin default_config"
  by (rule kelvin_scale) (simp add: wide_span_def with_defaults_def default_config_def)

lemma div_within:
  assumes "0 \<le> (x::int)" "x \<le> 100 * s"
  shows "0 \<le> (x + 50) div 100" "(x + 50) div 100 \<le> s"
  using assms by linarith+

lemma kelvin_range:
  assumes "wide_span c"
  shows "min_kelvin (with_defaults c) \<le> kelvin_from_percent c p \<and> kelvin_from_percent c p \<le> max_kelvin (with_defaults c)"
proof -
  let ?s = "max_kelvin (with_defaults c) - min_kelvin (with_defaults c)"
  let ?p = "uint (if 100 < p then 100 else p)"
  have "0 \<le> ?p" "?p \<le> 100" "0 \<le> ?s" using assms by (auto simp: byte_le_100 [symmetric] wide_span_def not_less)
  then have "0 \<le> ?p * ?s" "?p * ?s \<le> 100 * ?s" using mult_right_mono [of ?p 100 ?s] by simp_all
  then have "0 \<le> (?p * ?s + 50) div 100" "(?p * ?s + 50) div 100 \<le> ?s" by (rule div_within)+
  then show ?thesis using \<open>0 \<le> ?p * ?s\<close> by (simp add: kelvin_from_percent_def Let_def go_div_nonneg)
qed

lemma min_kelvin_pos: "0 < min_kelvin (with_defaults c)"
  by (simp add: with_defaults_def default_config_def)

lemma kelvin_int64:
  assumes "wide_span c" "int64_range (max_kelvin (with_defaults c))"
  shows "int64_range (kelvin_from_percent c p)" "kelvin_from_percent c p \<noteq> 0"
  using kelvin_range [OF assms(1), of p] min_kelvin_pos [of c] assms(2) by (auto simp: int64_range_def)

lemma kelvin_defaults: "kelvin_from_percent (with_defaults c) p = kelvin_from_percent c p"
    "percent_from_kelvin (with_defaults c) k = percent_from_kelvin c k"
  by (simp_all add: kelvin_from_percent_def percent_from_kelvin_def)

lemma find_hass_fields:
  fixes a b c d :: "'r dec"
  defines "fs \<equiv> [(''state'', a), (''brightness'', b), (''color_temp_kelvin'', c), (''color_temp'', d)]"
  shows "find_field fs ''state'' = Some a" "find_field fs ''brightness'' = Some b" "find_field fs ''color_temp_kelvin'' = Some c"
    "find_field fs ''color_temp'' = Some d" "find_field fs ''color_mode'' = None"
proof -
  show "find_field fs ''state'' = Some a" "find_field fs ''brightness'' = Some b" "find_field fs ''color_temp_kelvin'' = Some c"
    "find_field fs ''color_temp'' = Some d"
    by (simp_all add: find_field_exact fs_def)
  have "list_all (\<lambda>k. \<not> equal_fold k ''color_mode'') [''state'', ''brightness'', ''color_temp_kelvin'', ''color_temp'']"
    by code_simp
  then show "find_field fs ''color_mode'' = None" by (simp add: find_field_none fs_def)
qed

lemma equal_fold_on_off: "equal_fold ''ON'' ''ON''" "\<not> equal_fold ''OFF'' ''ON''"
  by code_simp+

lemma brightness_to_ha_range: "int64_range (brightness_to_ha p)"
proof -
  have "0 \<le> uint p" "uint p < 256" using uint_lt2p [of p] by simp_all
  then have "0 \<le> 51 * uint p div 20" "51 * uint p div 20 < 2 ^ 63" by (simp_all add: pos_imp_zdiv_nonneg_iff del: uint_0_iff)
  then show ?thesis by (simp add: brightness_to_ha_def ha_brightness_max_def go_div_nonneg int64_range_def)
qed

lemma dec_ptr_values:
  "dec_ptr [] dec_string (JStr s) v = (Some s, True)"
  "int64_range n \<Longrightarrow> dec_ptr 0 dec_int (jint n) u = (Some n, True)"
  by (simp_all add: dec_ptr_def) (simp add: jint_def dec_int_def atoi_itoa)

definition published_command :: "hass_config \<Rightarrow> bulb \<Rightarrow> hass_command" where
  "published_command c b =
     \<lparr>hc_state = Some (if power (light b) then ''ON'' else ''OFF''),
      hc_brightness = Some (brightness_to_ha (brightness (light b))),
      hc_kelvin = (if supports_color_temp_entity (bulb_caps b) then Some (kelvin_from_percent c (color_temp (light b))) else None),
      hc_mired = None\<rparr>"

lemma unmarshal_state:
  assumes "wide_span c" "int64_range (max_kelvin (with_defaults c))"
  shows "unmarshal dec_hass_command no_hass_command (state_payload c b) = Some (published_command c b)"
proof -
  have ok: "json_ok (state_json c b)" "json_depth (state_json c b) \<le> max_nesting"
    by (simp_all add: state_json_def Let_def omit_string_def omit_int_def mode_color_temp_def valid_utf8_ascii jint_def max_nesting_def)
  have "dec_hass_command (state_json c b) no_hass_command = (published_command c b, True)"
    using kelvin_int64 [OF assms] brightness_to_ha_range
    by (simp add: dec_hass_command_def dec_struct_def state_json_def Let_def omit_string_def omit_int_def mode_color_temp_def
        find_hass_fields field_def dec_ptr_values no_hass_command_def published_command_def kelvin_defaults)
  then show ?thesis unfolding state_payload_def unmarshal_marshal [OF ok] by simp
qed


lemma color_modes_claims:
  "supports_color_temp_entity c \<longleftrightarrow> cap_known c \<and> cap_color_temp c"
  "mode_rgb \<in> set (color_modes c) \<longleftrightarrow> cap_known c \<and> cap_color c"
  by (auto simp: supports_color_temp_entity_def color_modes_def mode_color_temp_def mode_rgb_def mode_brightness_def)

definition lamp_config :: "hass_config" where
  "lamp_config = default_config"

definition demo_lamp :: bulb where
  "demo_lamp = zero_bulb\<lparr>device_id := ''a1'', bulb_name := ''desk'', status := Connected,
     light := zero_state\<lparr>power := True, brightness := 40, color_temp := 30\<rparr>,
     bulb_caps := \<lparr>cap_known = True, cap_color = False, cap_color_temp = True, min_brightness = 0\<rparr>\<rparr>"

section \<open>Properties\<close>

text \<open>
  What is published about a lamp is what the lamp is. Sent back as a command (an automation that
  copies a state, a slider released where it was), the published state asks for exactly the state the
  lamp is in, through JSON, both unit conversions and the service's checks, so nothing is sent to it.
\<close>

theorem state_echo_is_harmless:
  assumes "brightness (light b) \<le> 100" "color_temp (light b) \<le> 100"
    "brightness (light b) = 0 \<or> min_brightness (bulb_caps b) \<le> brightness (light b)"
    "\<not> (power (light b) \<and> brightness (light b) = 0)"
    "wide_span c" "int64_range (max_kelvin (with_defaults c))"
  shows "\<exists>ch. parse_command c (state_payload c b) = Inr ch \<and> resolve_change b ch = Inr (light b) \<and>
    changed_props (light b) (light b) (bulb_caps b) = []"
proof -
  let ?warm = "supports_color_temp_entity (bulb_caps b)"
  let ?ch = "\<lparr>ch_power = Some (power (light b)), ch_brightness = Some (brightness (light b)),
    ch_color_temp = (if ?warm then Some (color_temp (light b)) else None)\<rparr>"
  have ch: "change_of c (published_command c b) = ?ch"
    using assms(1,2) brightness_scale.read_shown read_kelvin [OF assms(5)]
    by (simp add: change_of_def published_command_def equal_fold_on_off kelvin_defaults)
  then have "parse_command c (state_payload c b) = Inr ?ch"
    by (simp add: parse_command_def unmarshal_state [OF assms(5,6)] is_empty_def Let_def)
  moreover have "resolve_change b ?ch = Inr (light b)"
    using assms(1-4) color_modes_claims(1) [of "bulb_caps b"]
    by (auto simp: resolve_change_def resolve_brightness_def resolve_color_temp_def resolve_power_def Let_def
        byte_le_100 word_le_def supports_color_temp_def word_uint_eq_iff)
  moreover have "changed_props (light b) (light b) (bulb_caps b) = []"
    by (simp add: changed_props_def)
  ultimately show ?thesis by blast
qed

theorem state_echo_is_harmless_witness:
  "\<exists>ch. parse_command lamp_config (state_payload lamp_config demo_lamp) = Inr ch \<and> resolve_change demo_lamp ch = Inr (light demo_lamp) \<and>
    changed_props (light demo_lamp) (light demo_lamp) (bulb_caps demo_lamp) = []"
  by (rule state_echo_is_harmless)
    (simp_all add: lamp_config_def demo_lamp_def zero_bulb_def zero_state_def wide_span_def with_defaults_def default_config_def int64_range_def)

text \<open>
  A value that travels between Home Assistant and a lamp settles at once. Whatever Home Assistant
  sends, the percentage it becomes is between 0 and 100, and the value shown for that percentage is
  read back as the same percentage, however often it is exchanged; so for brightness, and for warmth
  over any range of at least a hundred Kelvin.
\<close>

theorem units_settle:
  assumes "wide_span c"
  shows "uint (brightness_from_ha v) \<le> 100 \<and>
    ((\<lambda>x. brightness_to_ha (brightness_from_ha x)) ^^ Suc n) v = brightness_to_ha (brightness_from_ha v) \<and>
    uint (percent_from_kelvin c k) \<le> 100 \<and>
    ((\<lambda>x. kelvin_from_percent c (percent_from_kelvin c x)) ^^ Suc n) k = kelvin_from_percent c (percent_from_kelvin c k)"
  using brightness_scale.read_range brightness_scale.stays unit_scale.read_range [OF kelvin_scale [OF assms]]
    unit_scale.stays [OF kelvin_scale [OF assms]]
  by (simp add: byte_le_100 del: funpow.simps)

theorem units_settle_witness:
  "kelvin_from_percent default_config (percent_from_kelvin default_config (kelvin_from_percent default_config (percent_from_kelvin default_config 4000)))
    = kelvin_from_percent default_config (percent_from_kelvin default_config 4000)"
proof -
  have "wide_span default_config" by (simp add: wide_span_def with_defaults_def default_config_def)
  from units_settle [OF this, of 0 1 4000] show ?thesis by (simp add: numeral_2_eq_2)
qed

text \<open>The two ways a text can end in \<open>/set\<close> behind a prefix that ends in a slash.\<close>

lemma set_suffix:
  assumes "(q @ ''/'') @ rest = r @ ''/set''" "\<not> has_suffix rest ''/set''"
  shows "rest = ''set''"
proof -
  from assms(1) obtain us where "q @ ''/'' = r @ us \<and> us @ rest = ''/set'' \<or> (q @ ''/'') @ us = r \<and> rest = us @ ''/set''"
    unfolding append_eq_append_conv2 by blast
  with assms(2) have us: "q @ ''/'' = r @ us" "us @ rest = ''/set''" by auto
  show ?thesis
  proof (cases us rule: rev_cases)
    case Nil
    then show ?thesis using us(2) assms(2) by (simp add: has_suffix_def)
  next
    case (snoc vs c)
    then have "c = CHR ''/''" using us(1) by simp
    then have "vs @ CHR ''/'' # rest = ''/set''" using us(2) snoc by simp
    then show ?thesis by (cases vs) (auto simp: Cons_eq_append_conv append_eq_Cons_conv)
  qed
qed

lemma device_of_topic_rest:
  fixes c :: hass_config
  defines "p \<equiv> own_prefix (with_defaults c) @ ''/light/''"
  shows "device_of_command_topic c t = Some i \<longleftrightarrow>
    (\<exists>rest. t = p @ rest \<and> has_suffix t ''/set'' \<and> trim_suffix rest ''/set'' = i \<and> i \<noteq> [] \<and> CHR ''/'' \<notin> set i)"
  unfolding device_of_command_topic_def p_def [symmetric] Let_def
  by (auto simp: has_prefix_iff contains_char_iff)

text \<open>
  A command topic names its lamp: the topic of a lamp is taken for that lamp and no other, and an
  empty or composite id for none. The one other topic accepted is the one without an id, which the
  subscribed filter never matches.
\<close>

theorem command_topic_names_lamp:
  "device_of_command_topic c t = Some i \<longleftrightarrow>
    i \<noteq> [] \<and> CHR ''/'' \<notin> set i \<and> t = command_topic c i \<or>
    i = ''set'' \<and> t = own_prefix (with_defaults c) @ ''/light/set''"
proof -
  let ?q = "own_prefix (with_defaults c) @ ''/light''"
  have p: "own_prefix (with_defaults c) @ ''/light/'' @ s = (?q @ ''/'') @ s" for s by simp
  have ct: "command_topic c i = (?q @ ''/'') @ i @ ''/set''" by (simp add: command_topic_def)
  have set: "has_suffix ((?q @ ''/'') @ ''set'') ''/set''" by (simp add: has_suffix_iff)
  show ?thesis
  proof
    assume "device_of_command_topic c t = Some i"
    then obtain rest where t: "t = (?q @ ''/'') @ rest" "has_suffix t ''/set''" "trim_suffix rest ''/set'' = i"
      and i: "i \<noteq> []" "CHR ''/'' \<notin> set i" unfolding device_of_topic_rest by auto
    show "i \<noteq> [] \<and> CHR ''/'' \<notin> set i \<and> t = command_topic c i \<or> i = ''set'' \<and> t = own_prefix (with_defaults c) @ ''/light/set''"
    proof (cases "has_suffix rest ''/set''")
      case True
      then obtain u where "rest = u @ ''/set''" by (auto simp: has_suffix_iff)
      then show ?thesis using t i by (simp add: ct)
    next
      case False
      then have "rest = i" using t(3) by (simp add: trim_suffix_def)
      moreover have "rest = ''set''" using t(1,2) set_suffix [OF _ False] unfolding has_suffix_iff by metis
      ultimately show ?thesis using t(1) by simp
    qed
  next
    assume "i \<noteq> [] \<and> CHR ''/'' \<notin> set i \<and> t = command_topic c i \<or> i = ''set'' \<and> t = own_prefix (with_defaults c) @ ''/light/set''"
    then show "device_of_command_topic c t = Some i"
    proof
      assume "i \<noteq> [] \<and> CHR ''/'' \<notin> set i \<and> t = command_topic c i"
      then show ?thesis unfolding device_of_topic_rest by (auto simp: command_topic_def has_suffix_iff)
    next
      assume "i = ''set'' \<and> t = own_prefix (with_defaults c) @ ''/light/set''"
      then show ?thesis using set unfolding device_of_topic_rest by (auto simp: trim_suffix_def has_suffix_def)
    qed
  qed
qed

end
