(* ===== verification/Mqtt.thy ===== *)
theory Mqtt
  imports Codec
begin

text \<open>
  The client of the household's broker, \<open>internal/mqtt\<close> (client.go): options, connecting, subscriptions
  that outlive a connection, publishing, inbound messages, topic filters, packet ids and the pause
  between attempts. What the socket accepts is the flag \<open>mc_wire_ok\<close>; the bytes written are recorded.
  A handler is a value of any type, and the map of handlers a list in the order Go walks it.
\<close>

section \<open>Topic filters\<close>

fun split_loop :: "string \<Rightarrow> string \<Rightarrow> string list" where
  "split_loop segment [] = [rev segment]"
| "split_loop segment (c # cs) =
     (if c = CHR ''/'' then rev segment # split_loop [] cs else split_loop (c # segment) cs)"

definition split_topic :: "string \<Rightarrow> string list" where
  "split_topic s = split_loop [] s"

fun match_levels :: "string list \<Rightarrow> string list \<Rightarrow> bool" where
  "match_levels [] ts \<longleftrightarrow> ts = []"
| "match_levels (p # ps) ts \<longleftrightarrow>
     p = ''#'' \<or> (case ts of [] \<Rightarrow> False | t # ts' \<Rightarrow> (p = ''+'' \<or> p = t) \<and> match_levels ps ts')"

definition topic_matches :: "string \<Rightarrow> string \<Rightarrow> bool" where
  "topic_matches filt t = match_levels (split_topic filt) (split_topic t)"

section \<open>Options and state\<close>

record mqtt_options =
  mo_client_id :: string
  mo_username :: string
  mo_password :: string
  mo_keep_alive :: duration
  mo_will_topic :: string
  mo_will_payload :: bytes
  mo_will_retain :: bool

definition client_options :: "mqtt_options \<Rightarrow> mqtt_options" where
  "client_options o' =
     (let o1 = (if mo_client_id o' = [] then o'\<lparr>mo_client_id := ''haigosmart''\<rparr> else o')
      in if mo_keep_alive o1 \<le> 0 then o1\<lparr>mo_keep_alive := 30 * second\<rparr> else o1)"

record 'h mqtt_client =
  mc_conn :: "nat option"
  mc_wire_ok :: bool
  mc_handlers :: "(string \<times> 'h) list"
  mc_packet_id :: "16 word"
  mc_connected :: bool
  mc_written :: "(nat \<times> bytes) list"

definition new_client :: "'h mqtt_client" where
  "new_client =
     \<lparr>mc_conn = None, mc_wire_ok = True, mc_handlers = [], mc_packet_id = 0, mc_connected = False, mc_written = []\<rparr>"

datatype client_error = NotConnectedToBroker | WireError

definition write_raw :: "bytes \<Rightarrow> 'h mqtt_client \<Rightarrow> client_error option \<times> 'h mqtt_client" where
  "write_raw p c =
     (case mc_conn c of
        None \<Rightarrow> (Some NotConnectedToBroker, c)
      | Some d \<Rightarrow>
          if mc_wire_ok c then (None, c\<lparr>mc_written := mc_written c @ [(d, p)]\<rparr>) else (Some WireError, c))"

definition next_packet_id :: "16 word \<Rightarrow> 16 word" where
  "next_packet_id p = (let p' = p + 1 in if p' = 0 then 1 else p')"

section \<open>Publishing and subscribing\<close>

definition client_publish :: "string \<Rightarrow> bytes \<Rightarrow> bool \<Rightarrow> 'h mqtt_client \<Rightarrow> client_error option \<times> 'h mqtt_client" where
  "client_publish t p retain c =
     write_raw (if retain then encode_publish_retained t p else encode_publish t p) c"

definition client_publish_qos1 :: "string \<Rightarrow> bytes \<Rightarrow> bool \<Rightarrow> 'h mqtt_client \<Rightarrow> client_error option \<times> 'h mqtt_client" where
  "client_publish_qos1 t p retain c =
     (let i = next_packet_id (mc_packet_id c)
      in write_raw (encode_publish_qos1 t p i retain) (c\<lparr>mc_packet_id := i\<rparr>))"

definition send_subscribe :: "string \<Rightarrow> 'h mqtt_client \<Rightarrow> client_error option \<times> 'h mqtt_client" where
  "send_subscribe filt c =
     (let i = next_packet_id (mc_packet_id c)
      in write_raw (encode_subscribe i 0 [filt]) (c\<lparr>mc_packet_id := i\<rparr>))"

definition client_subscribe :: "string \<Rightarrow> 'h \<Rightarrow> 'h mqtt_client \<Rightarrow> client_error option \<times> 'h mqtt_client" where
  "client_subscribe filt h c =
     (let c1 = c\<lparr>mc_handlers := aset filt h (mc_handlers c)\<rparr>
      in if mc_conn c1 = None then (None, c1) else send_subscribe filt c1)"

section \<open>A connection\<close>

definition client_connect_packet :: "mqtt_options \<Rightarrow> bytes" where
  "client_connect_packet o' =
     encode_connect
       \<lparr>o_client_id = mo_client_id o', o_keep_alive = word_of_int (mo_keep_alive o' div second),
        o_username = mo_username o', o_password = mo_password o', o_will_topic = mo_will_topic o',
        o_will_payload = mo_will_payload o', o_will_retain = mo_will_retain o', o_will_qos = 0, o_clean_session = True\<rparr>"

datatype handshake_error = HsWrongType byte | HsDecode mqtt_error | HsRefused string

text \<open>What the handshake makes of the broker's first packet.\<close>

definition handshake_reply :: "packet \<Rightarrow> handshake_error option" where
  "handshake_reply pkt =
     (if ptype pkt \<noteq> type_connack then Some (HsWrongType (ptype pkt))
      else
        (case decode_connack (pbody pkt) of
           Inl e \<Rightarrow> Some (HsDecode e)
         | Inr (_, rc) \<Rightarrow> if rc \<noteq> 0 then Some (HsRefused (connack_reason rc)) else None))"

fun resubscribe :: "string list \<Rightarrow> 'h mqtt_client \<Rightarrow> client_error option \<times> 'h mqtt_client" where
  "resubscribe [] c = (None, c)"
| "resubscribe (f # fs) c =
     (case send_subscribe f c of
        (Some e, c1) \<Rightarrow> (Some e, c1)
      | (None, c1) \<Rightarrow> resubscribe fs c1)"

text \<open>\<open>session\<close> from an accepted CONNACK on connection \<open>d\<close> to the read loop, and how it ends.\<close>

definition session_up :: "nat \<Rightarrow> 'h mqtt_client \<Rightarrow> client_error option \<times> 'h mqtt_client" where
  "session_up d c =
     (let c1 = c\<lparr>mc_conn := Some d, mc_connected := True\<rparr> in resubscribe (map fst (mc_handlers c1)) c1)"

definition session_down :: "'h mqtt_client \<Rightarrow> 'h mqtt_client" where
  "session_down c = c\<lparr>mc_conn := None, mc_connected := False\<rparr>"

definition dispatch_message :: "string \<Rightarrow> 'h mqtt_client \<Rightarrow> 'h option" where
  "dispatch_message t c = map_option snd (find (\<lambda>(f, h). topic_matches f t) (mc_handlers c))"

text \<open>One packet of the read loop, and the handler it is given to with its topic and payload.\<close>

definition client_packet :: "packet \<Rightarrow> 'h mqtt_client \<Rightarrow> ('h \<times> string \<times> bytes) option \<times> 'h mqtt_client" where
  "client_packet pkt c =
     (if ptype pkt \<noteq> type_publish then (None, c)
      else
        (case decode_publish (pbody pkt) (packet_qos pkt) of
           Inl e \<Rightarrow> (None, c)
         | Inr pub \<Rightarrow>
             (let c1 = (if packet_qos pkt = 1 then snd (write_raw (encode_puback (packet_id pub)) c) else c)
              in (map_option (\<lambda>h. (h, topic pub, content pub)) (dispatch_message (topic pub) c1), c1))))"

definition keep_alive_tick :: "nat \<Rightarrow> 'h mqtt_client \<Rightarrow> bool \<times> 'h mqtt_client" where
  "keep_alive_tick d c =
     (if mc_conn c \<noteq> Some d then (False, c)
      else (case write_raw (encode type_pingreq 0 []) c of (e, c1) \<Rightarrow> (e = None, c1)))"

definition goodbye :: "'h mqtt_client \<Rightarrow> 'h mqtt_client" where
  "goodbye c = snd (write_raw encode_disconnect c)"

section \<open>Attempts\<close>

definition max_backoff :: duration where
  "max_backoff = 30 * second"

definition next_backoff :: "duration \<Rightarrow> duration" where
  "next_backoff b = (if b < max_backoff then min (b * 2) max_backoff else b)"

text \<open>The pause before the n-th new attempt, \<open>jitter\<close> being the random number drawn.\<close>

definition backoff_after :: "nat \<Rightarrow> duration" where
  "backoff_after n = (next_backoff ^^ n) second"

definition pause :: "duration \<Rightarrow> int \<Rightarrow> duration" where
  "pause backoff jitter = backoff + jitter mod (backoff div 2 + 1)"

section \<open>Facts\<close>

lemma split_loop_eq: "split_loop seg s = (case split_at CHR ''/'' s of [] \<Rightarrow> [rev seg] | w # ws \<Rightarrow> (rev seg @ w) # ws)"
proof (induction seg s rule: split_loop.induct)
  case (2 seg c cs)
  then show ?case by (cases "split_at CHR ''/'' cs") auto
qed simp

lemma split_topic_eq: "split_topic s = split_at CHR ''/'' s"
  by (cases "split_at CHR ''/'' s") (simp_all add: split_topic_def split_loop_eq)

text \<open>One level of a filter accepts one level of a topic.\<close>

definition level_ok :: "string \<Rightarrow> string \<Rightarrow> bool" where
  "level_ok p t \<longleftrightarrow> p = ''+'' \<or> p = t"

definition filter_spec :: "string list \<Rightarrow> string list \<Rightarrow> bool" where
  "filter_spec fs ts \<longleftrightarrow>
     (let known = takeWhile (\<lambda>p. p \<noteq> ''#'') fs
      in if known = fs then list_all2 level_ok fs ts
         else length known \<le> length ts \<and> list_all2 level_ok known (take (length known) ts))"

lemma match_levels_spec: "match_levels fs ts \<longleftrightarrow> filter_spec fs ts"
proof (induction fs arbitrary: ts)
  case Nil
  then show ?case by (auto simp: filter_spec_def)
next
  case (Cons p fs)
  then show ?case
    by (cases ts) (auto simp: filter_spec_def level_ok_def Let_def)
qed

lemma unat_next: "unat (next_packet_id p) = (if unat p = 65535 then 1 else unat p + 1)"
proof -
  have u: "unat (p + 1) = (unat p + 1) mod 65536" by (simp add: unat_word_ariths)
  show ?thesis
  proof (cases "unat p = 65535")
    case True
    then have "unat (p + 1) = 0" using u by simp
    then have "p + 1 = 0" by (simp add: unat_eq_zero)
    then show ?thesis using True by (simp add: next_packet_id_def)
  next
    case False
    then have v: "unat (p + 1) = unat p + 1" using u unat_16_lt [of p] by simp
    then have "p + 1 \<noteq> 0" by auto
    then show ?thesis using False v by (simp add: next_packet_id_def Let_def)
  qed
qed

lemma next_backoff_pow: "backoff_after n = min (2 ^ n * second) max_backoff"
proof (induction n)
  case (Suc n)
  have "0 < second" by (simp add: second_def)
  then show ?case
    using Suc by (auto simp: backoff_after_def next_backoff_def max_backoff_def min_def)
qed (simp add: backoff_after_def max_backoff_def second_def)

lemma write_raw_fields [simp]:
  "mc_handlers (snd (write_raw p c)) = mc_handlers c" "mc_conn (snd (write_raw p c)) = mc_conn c"
  "mc_packet_id (snd (write_raw p c)) = mc_packet_id c"
  by (simp_all add: write_raw_def split: option.split)

lemma send_subscribe_fields [simp]:
  "mc_handlers (snd (send_subscribe f c)) = mc_handlers c" "mc_conn (snd (send_subscribe f c)) = mc_conn c"
  by (simp_all add: send_subscribe_def Let_def)

lemma next_nonzero: "next_packet_id p \<noteq> 0"
  using unat_next [of p] by (metis One_nat_def add_is_0 one_neq_zero unat_0 zero_neq_one)

lemma resubscribe_written:
  "resubscribe fs c = (None, c') \<Longrightarrow> mc_conn c = Some d \<Longrightarrow>
    \<exists>ps. mc_written c' = mc_written c @ map (Pair d) ps \<and>
      list_all2 (\<lambda>f p. \<exists>i. i \<noteq> 0 \<and> p = encode_subscribe i 0 [f]) fs ps"
proof (induction fs arbitrary: c)
  case (Cons f fs)
  obtain e c1 where s: "send_subscribe f c = (e, c1)" by fastforce
  then have e: "e = None" "resubscribe fs c1 = (None, c')" using Cons.prems(1) by (cases e; simp)+
  have c1: "mc_conn c1 = Some d" "mc_written c1 = mc_written c @ [(d, encode_subscribe (next_packet_id (mc_packet_id c)) 0 [f])]"
    using s e(1) Cons.prems(2) by (auto simp: send_subscribe_def write_raw_def Let_def split: if_splits)
  from Cons.IH [OF e(2) c1(1)] obtain ps where "mc_written c' = mc_written c1 @ map (Pair d) ps"
    "list_all2 (\<lambda>f p. \<exists>i. i \<noteq> 0 \<and> p = encode_subscribe i 0 [f]) fs ps" by blast
  then show ?case
    using c1(2) next_nonzero
    by (intro exI [of _ "encode_subscribe (next_packet_id (mc_packet_id c)) 0 [f] # ps"]) auto
qed simp

section \<open>Properties\<close>

text \<open>
  Packet ids are never zero, which the protocol forbids, and repeat only after all 65535 others:
  from any start, the ids handed out count up from it and wrap from 65535 to 1.
\<close>

theorem packet_ids_cycle:
  "unat ((next_packet_id ^^ Suc n) p) = (unat p + n) mod 65535 + 1"
proof (induction n)
  case 0
  have "unat p < 65536" by (rule unat_16_lt)
  then have "unat p \<noteq> 65535 \<Longrightarrow> unat p mod 65535 = unat p" by (intro mod_less) linarith
  then show ?case using unat_next [of p] by (cases "unat p = 65535") simp_all
next
  case (Suc n)
  let ?v = "(next_packet_id ^^ Suc n) p"
  have "unat ((next_packet_id ^^ Suc (Suc n)) p) = (if unat ?v = 65535 then 1 else unat ?v + 1)"
    using unat_next [of ?v] by simp
  then show ?case unfolding Suc by (simp add: mod_Suc)
qed

text \<open>
  The pause before an attempt doubles from one second and stays at thirty; with its jitter it is
  never below the back-off nor more than half above it, so attempts go on for ever without spinning.
\<close>

theorem backoff_bounded:
  "backoff_after n = min (2 ^ n * second) (30 * second) \<and>
    backoff_after n \<le> pause (backoff_after n) j \<and> 2 * pause (backoff_after n) j \<le> 3 * backoff_after n \<and>
    second \<le> backoff_after n"
proof -
  have b: "backoff_after n = min (2 ^ n * second) (30 * second)"
    using next_backoff_pow [of n] by (simp add: max_backoff_def)
  have "second \<le> 2 ^ n * second" by (simp add: second_def)
  then have s: "second \<le> backoff_after n" "0 < backoff_after n" unfolding b by (auto simp: second_def)
  have half: "0 \<le> m \<Longrightarrow> m < x div 2 + 1 \<Longrightarrow> x \<le> x + m \<and> 2 * (x + m) \<le> 3 * x" for m x :: int by presburger
  have "0 \<le> j mod (backoff_after n div 2 + 1)" "j mod (backoff_after n div 2 + 1) < backoff_after n div 2 + 1"
    using s by (intro pos_mod_sign pos_mod_bound; simp)+
  then have "backoff_after n \<le> pause (backoff_after n) j \<and> 2 * pause (backoff_after n) j \<le> 3 * backoff_after n"
    unfolding pause_def by (rule half)
  then show ?thesis using b s(1) by blast
qed

text \<open>
  Filter matching is that of the protocol: a topic matches when its levels agree one by one, a plus
  sign agreeing with any one level, up to the first hash sign, which agrees with all that remain.
\<close>

theorem topic_matches_spec:
  "topic_matches f t \<longleftrightarrow> filter_spec (split_at CHR ''/'' f) (split_at CHR ''/'' t)"
  by (simp add: topic_matches_def split_topic_eq match_levels_spec)

text \<open>
  Subscriptions outlive a connection. When a connection is up, a SUBSCRIBE for every filter ever
  subscribed has been written on it, each under an id that is not zero.
\<close>

theorem subscriptions_survive:
  assumes "session_up d c = (None, c')" "f \<in> fst ` set (mc_handlers c)"
  shows "\<exists>i. i \<noteq> 0 \<and> (d, encode_subscribe i 0 [f]) \<in> set (drop (length (mc_written c)) (mc_written c'))"
proof -
  let ?c1 = "c\<lparr>mc_conn := Some d, mc_connected := True\<rparr>"
  have "resubscribe (map fst (mc_handlers c)) ?c1 = (None, c')" using assms(1) by (simp add: session_up_def)
  from resubscribe_written [OF this, of d] obtain ps where
    ps: "mc_written c' = mc_written c @ map (Pair d) ps"
    "list_all2 (\<lambda>f p. \<exists>i. i \<noteq> 0 \<and> p = encode_subscribe i 0 [f]) (map fst (mc_handlers c)) ps" by auto
  from assms(2) have "f \<in> set (map fst (mc_handlers c))" by simp
  then obtain k where "k < length (mc_handlers c)" "map fst (mc_handlers c) ! k = f" by (auto simp: in_set_conv_nth)
  then obtain i where "i \<noteq> 0" "ps ! k = encode_subscribe i 0 [f]" "k < length ps"
    using ps(2) by (auto simp: list_all2_conv_all_nth)
  then have "encode_subscribe i 0 [f] \<in> set ps" by (metis nth_mem)
  then show ?thesis using ps(1) \<open>i \<noteq> 0\<close> by auto
qed

theorem subscriptions_survive_witness:
  "let c = snd (client_subscribe ''a/+'' True new_client)
   in \<exists>i. i \<noteq> 0 \<and> (7, encode_subscribe i 0 [''a/+'']) \<in> set (mc_written (snd (session_up 7 c)))"
proof -
  let ?c = "snd (client_subscribe ''a/+'' True new_client)"
  obtain e c' where s: "session_up 7 ?c = (e, c')" by fastforce
  have "fst (session_up 7 ?c) = None" "map fst (mc_handlers ?c) = [''a/+'']" "mc_written ?c = []" by code_simp+
  then have e: "session_up 7 ?c = (None, c')" and f: "''a/+'' \<in> fst ` set (mc_handlers ?c)" and w: "mc_written ?c = []"
    using s by (simp_all flip: set_map)
  show ?thesis using subscriptions_survive [OF e f] by (simp add: Let_def w e)
qed

end
