(* ===== verification/Bridge.thy ===== *)
theory Bridge
  imports Hass Mqtt Control
begin

text \<open>
  The bridge to Home Assistant, \<open>internal/hass\<close> (bridge.go): what it publishes after a connect and for
  each event, and what it does with a command. Its publications go to a broker that keeps the last
  retained payload of a topic and drops it for an empty one; \<open>b_up\<close> says whether the client can publish
  right now, and everything sent is recorded in order.
\<close>

section \<open>State\<close>

record bridge =
  b_reported :: "string set"
  b_announced :: "string \<rightharpoonup> string"
  b_up :: bool
  b_subscribed :: bool
  b_retained :: "string \<rightharpoonup> string"
  b_sent :: "(string \<times> string) list"

definition new_bridge :: bridge where
  "new_bridge =
     \<lparr>b_reported = {}, b_announced = Map.empty, b_up = False, b_subscribed = False, b_retained = Map.empty, b_sent = []\<rparr>"

definition bridge_version :: string where
  "bridge_version = ''0.2.0''"

section \<open>Publishing\<close>

text \<open>Retained publications; the flag says whether it was sent.\<close>

definition bridge_publish :: "string \<Rightarrow> string \<Rightarrow> bridge \<Rightarrow> bool \<times> bridge" where
  "bridge_publish t p b =
     (if b_up b
      then (True, b\<lparr>b_retained := (b_retained b)(t := if p = [] then None else Some p), b_sent := b_sent b @ [(t, p)]\<rparr>)
      else (False, b))"

definition announce :: "hass_config \<Rightarrow> bulb \<Rightarrow> bridge \<Rightarrow> bridge" where
  "announce c lamp b =
     (if \<not> adopted lamp then b
      else if (case b_announced b (device_id lamp) of None \<Rightarrow> [] | Some n \<Rightarrow> n) = bulb_name lamp then b
      else
        (case bridge_publish (config_topic c (device_id lamp)) (discovery c lamp) b of
           (False, b1) \<Rightarrow> b1
         | (True, b1) \<Rightarrow> b1\<lparr>b_announced := (b_announced b1)(device_id lamp \<mapsto> bulb_name lamp)\<rparr>))"

definition publish_state :: "hass_config \<Rightarrow> bulb \<Rightarrow> bridge \<Rightarrow> bridge" where
  "publish_state c lamp b = snd (bridge_publish (state_topic c (device_id lamp)) (state_payload c lamp) b)"

definition publish_availability :: "hass_config \<Rightarrow> string \<Rightarrow> string \<Rightarrow> bridge \<Rightarrow> bridge" where
  "publish_availability c i v b = snd (bridge_publish (availability_topic c i) v b)"

definition publish_offline :: "hass_config \<Rightarrow> bridge \<Rightarrow> bridge" where
  "publish_offline c b = snd (bridge_publish (status_topic c) offline b)"

definition remove_lamp :: "hass_config \<Rightarrow> string \<Rightarrow> bridge \<Rightarrow> bridge" where
  "remove_lamp c i b =
     (let b1 = snd (bridge_publish (config_topic c i) [] b)
      in b1\<lparr>b_announced := (b_announced b1)(i := None), b_reported := b_reported b1 - {i}\<rparr>)"

text \<open>\<open>OnConnect\<close>; a new subscription to the command filter is made at every connect.\<close>

definition on_connect :: "hass_config \<Rightarrow> registry \<Rightarrow> bridge \<Rightarrow> bridge" where
  "on_connect c r b =
     (let b1 = snd (bridge_publish (bridge_config_topic c) (bridge_discovery c bridge_version) b);
          b2 = snd (bridge_publish (status_topic c) online b1);
          b3 = b2\<lparr>b_subscribed := True\<rparr>
      in fold (announce c) (list_bulbs r) b3)"

section \<open>Events\<close>

definition bridge_handle :: "hass_config \<Rightarrow> registry \<Rightarrow> event \<Rightarrow> bridge \<Rightarrow> bridge" where
  "bridge_handle c r e b =
     (if ev_device e = [] then b
      else
        (case get_lamp (ev_device e) r of
           Inl _ \<Rightarrow> b
         | Inr lamp \<Rightarrow>
             (case ev_kind e of
                KConnected \<Rightarrow> announce c lamp b
              | Renamed \<Rightarrow>
                  (let b1 = announce c lamp b
                   in if ev_device e \<in> b_reported b1 \<or> status lamp = Connected
                      then publish_availability c (device_id lamp) (availability lamp) (publish_state c lamp b1)
                      else b1)
              | KDisconnected \<Rightarrow>
                  publish_availability c (device_id lamp) offline (b\<lparr>b_reported := b_reported b - {ev_device e}\<rparr>)
              | StateChanged \<Rightarrow>
                  (let first = (ev_device e \<notin> b_reported b);
                       b1 = b\<lparr>b_reported := insert (ev_device e) (b_reported b)\<rparr>;
                       b2 = publish_state c lamp (announce c lamp b1)
                   in if first then publish_availability c (device_id lamp) online b2 else b2)
              | _ \<Rightarrow> b)))"

section \<open>Commands\<close>

text \<open>\<open>onCommand\<close> on the host of the lamp service: it publishes nothing itself.\<close>

definition on_hass_command :: "hass_config \<Rightarrow> ('w, 'x) host_scheme \<Rightarrow> string \<Rightarrow> string \<Rightarrow> 'w \<Rightarrow> 'w" where
  "on_hass_command c h t payload w =
     (case device_of_command_topic c t of
        None \<Rightarrow> w
      | Some i \<Rightarrow>
          (case get_lamp i (h_get h w) of
             Inl _ \<Rightarrow> w
           | Inr lamp \<Rightarrow>
               (case parse_command c payload of
                  Inl _ \<Rightarrow> w
                | Inr change \<Rightarrow> snd (service_apply h i change w))))"

section \<open>The life of the bridge\<close>

text \<open>
  Events and connects in the order the bridge sees them, each with the registry as it was read then.
  The connection comes and goes; what a broker does when the bridge is cut off (its last will on the
  status topic) is \<open>lost\<close>.
\<close>

inductive bridge_step :: "hass_config \<Rightarrow> registry \<times> bridge \<Rightarrow> registry \<times> bridge \<Rightarrow> bool" for c :: hass_config where
  world_moves: "reg_ok r' \<Longrightarrow> bridge_step c (r, b) (r', b)"
| connects: "bridge_step c (r, b) (r, on_connect c r (b\<lparr>b_up := True\<rparr>))"
| lost: "bridge_step c (r, b)
    (r, b\<lparr>b_up := False, b_retained := (b_retained b)(status_topic c \<mapsto> offline)\<rparr>)"
| event: "bridge_step c (r, b) (r, bridge_handle c r e b)"
| removes: "bridge_step c (r, b) (r, remove_lamp c i b)"
| stops: "bridge_step c (r, b) (r, publish_offline c b)"

section \<open>Facts\<close>

text \<open>No two things the bridge publishes share a topic.\<close>

lemma topic_last:
  "last (config_topic c i) = CHR ''g''" "last (bridge_config_topic c) = CHR ''g''" "last (state_topic c i) = CHR ''e''"
  "last (availability_topic c i) = CHR ''y''" "last (status_topic c) = CHR ''s''"
  by (simp_all add: config_topic_def bridge_config_topic_def state_topic_def availability_topic_def status_topic_def Let_def)

lemma topics_distinct [simp]:
  "config_topic c i \<noteq> state_topic c j" "state_topic c i \<noteq> config_topic c j"
  "config_topic c i \<noteq> availability_topic c j" "availability_topic c i \<noteq> config_topic c j"
  "config_topic c i \<noteq> status_topic c" "status_topic c \<noteq> config_topic c i"
  "state_topic c i \<noteq> availability_topic c j" "availability_topic c i \<noteq> state_topic c j"
  "state_topic c i \<noteq> status_topic c" "status_topic c \<noteq> state_topic c i"
  "availability_topic c i \<noteq> status_topic c" "status_topic c \<noteq> availability_topic c i"
  "state_topic c i \<noteq> bridge_config_topic c" "bridge_config_topic c \<noteq> state_topic c i"
  "availability_topic c i \<noteq> bridge_config_topic c" "bridge_config_topic c \<noteq> availability_topic c i"
  by (auto simp: topic_last dest: arg_cong [of _ _ last])

lemma config_topics_distinct [simp]:
  "config_topic c i \<noteq> bridge_config_topic c" "bridge_config_topic c \<noteq> config_topic c i"
  by (simp_all add: config_topic_def bridge_config_topic_def Let_def)

lemma topics_inj [simp]:
  "config_topic c i = config_topic c j \<longleftrightarrow> i = j" "state_topic c i = state_topic c j \<longleftrightarrow> i = j"
  "availability_topic c i = availability_topic c j \<longleftrightarrow> i = j"
  by (simp_all add: config_topic_def state_topic_def availability_topic_def Let_def)

lemma payloads_nonempty [simp]:
  "discovery c lamp \<noteq> []" "state_payload c lamp \<noteq> []" "bridge_discovery c v \<noteq> []"
  "online \<noteq> []" "offline \<noteq> []" "availability lamp \<noteq> []"
  by (simp_all add: discovery_def discovery_json_def state_payload_def state_json_def bridge_discovery_def
      bridge_discovery_json_def online_def offline_def availability_def Let_def)

lemma publish_fields [simp]:
  "b_up (snd (bridge_publish t p b)) = b_up b" "b_reported (snd (bridge_publish t p b)) = b_reported b"
  "b_announced (snd (bridge_publish t p b)) = b_announced b" "fst (bridge_publish t p b) = b_up b"
  by (simp_all add: bridge_publish_def)

lemma publish_retained:
  "b_retained (snd (bridge_publish t p b)) =
    (if b_up b then (b_retained b)(t := if p = [] then None else Some p) else b_retained b)"
  by (simp add: bridge_publish_def)

lemma announce_eq:
  "announce c lamp b =
    (if adopted lamp \<and> (case b_announced b (device_id lamp) of None \<Rightarrow> [] | Some n \<Rightarrow> n) \<noteq> bulb_name lamp \<and> b_up b
     then (snd (bridge_publish (config_topic c (device_id lamp)) (discovery c lamp) b))
       \<lparr>b_announced := (b_announced b)(device_id lamp \<mapsto> bulb_name lamp)\<rparr>
     else b)"
  by (simp add: announce_def bridge_publish_def)

lemma announce_up [simp]: "b_up (announce c lamp b) = b_up b" "b_reported (announce c lamp b) = b_reported b"
  by (simp_all add: announce_eq)

section \<open>One lamp in Home Assistant\<close>

text \<open>
  What the bridge and the broker hold of one lamp, and what an event about that lamp does to it while
  the broker can be reached or not. The bridge is such panels side by side.
\<close>

record panel =
  p_spoken :: bool
  p_name :: "string option"
  p_entry :: "string option"
  p_state :: "string option"
  p_avail :: "string option"

definition panel_of :: "hass_config \<Rightarrow> string \<Rightarrow> bridge \<Rightarrow> panel" where
  "panel_of c i b =
     \<lparr>p_spoken = i \<in> b_reported b, p_name = b_announced b i, p_entry = b_retained b (config_topic c i),
      p_state = b_retained b (state_topic c i), p_avail = b_retained b (availability_topic c i)\<rparr>"

definition panel_entry :: "hass_config \<Rightarrow> bulb \<Rightarrow> panel \<Rightarrow> panel" where
  "panel_entry c lamp p =
     (if adopted lamp \<and> (case p_name p of None \<Rightarrow> [] | Some n \<Rightarrow> n) \<noteq> bulb_name lamp
      then p\<lparr>p_name := Some (bulb_name lamp), p_entry := Some (discovery c lamp)\<rparr> else p)"

definition panel_event :: "hass_config \<Rightarrow> bulb \<Rightarrow> kind \<Rightarrow> panel \<Rightarrow> panel" where
  "panel_event c lamp k p =
     (let q = panel_entry c lamp p; shown = q\<lparr>p_state := Some (state_payload c lamp)\<rparr>
      in case k of
           KConnected \<Rightarrow> q
         | Renamed \<Rightarrow>
             if p_spoken p \<or> status lamp = Connected then shown\<lparr>p_avail := Some (availability lamp)\<rparr> else q
         | KDisconnected \<Rightarrow> p\<lparr>p_spoken := False, p_avail := Some offline\<rparr>
         | StateChanged \<Rightarrow> shown\<lparr>p_spoken := True, p_avail := (if p_spoken p then p_avail p else Some online)\<rparr>
         | _ \<Rightarrow> p)"

lemma get_lamp_lookup: "get_lamp i r = (case lookup_bulb r i of None \<Rightarrow> Inl (UnknownBulb i) | Some b \<Rightarrow> Inr b)"
  by (simp add: get_lamp_def view_def split: option.split)

lemma panel_announce:
  "b_up b \<Longrightarrow> panel_of c i (announce c lamp b) =
    (if device_id lamp = i then panel_entry c lamp (panel_of c i b) else panel_of c i b)"
  by (auto simp: panel_of_def panel_entry_def announce_eq publish_retained)

lemma panel_publish [simp]:
  "panel_of c i (publish_state c lamp b) =
    (if b_up b \<and> device_id lamp = i then (panel_of c i b)\<lparr>p_state := Some (state_payload c lamp)\<rparr> else panel_of c i b)"
  "v \<noteq> [] \<Longrightarrow> panel_of c i (publish_availability c j v b) =
    (if b_up b \<and> j = i then (panel_of c i b)\<lparr>p_avail := Some v\<rparr> else panel_of c i b)"
  by (auto simp: panel_of_def publish_state_def publish_availability_def publish_retained)

lemma publish_up [simp]:
  "b_up (publish_state c lamp b) = b_up b" "b_up (publish_availability c j v b) = b_up b"
  "b_reported (publish_state c lamp b) = b_reported b" "b_reported (publish_availability c j v b) = b_reported b"
  by (simp_all add: publish_state_def publish_availability_def)

lemma handle_up [simp]: "b_up (bridge_handle c r e b) = b_up b"
  by (simp add: bridge_handle_def Let_def split: sum.split kind.split)

lemma panel_reported:
  "panel_of c i (b\<lparr>b_reported := s\<rparr>) = (panel_of c i b)\<lparr>p_spoken := i \<in> s\<rparr>"
  by (simp add: panel_of_def)

lemma panel_handle:
  assumes "reg_ok r" "b_up b" "i \<noteq> []"
  shows "panel_of c i (bridge_handle c r e b) =
    (case lookup_bulb r i of
       None \<Rightarrow> panel_of c i b
     | Some lamp \<Rightarrow> if ev_device e = i then panel_event c lamp (ev_kind e) (panel_of c i b) else panel_of c i b)"
proof (cases "ev_device e = [] \<or> lookup_bulb r (ev_device e) = None")
  case True
  then show ?thesis using assms(3) by (auto simp: bridge_handle_def get_lamp_lookup split: option.split)
next
  case False
  then obtain lamp where l: "lookup_bulb r (ev_device e) = Some lamp" by auto
  then have i: "device_id lamp = ev_device e" using reg_ok_lookup [OF assms(1) l] by (simp add: bulb_ok_def)
  have s: "p_spoken (panel_of c i b) \<longleftrightarrow> i \<in> b_reported b" by (simp add: panel_of_def)
  show ?thesis
    using False l i assms(2) s
    by (cases "ev_kind e"; cases "ev_device e = i")
      (auto simp: bridge_handle_def get_lamp_lookup panel_event_def Let_def panel_announce panel_reported panel_entry_def
        split: option.split)
qed

section \<open>Entries\<close>

definition bridge_start :: "registry \<times> bridge \<Rightarrow> bool" where
  "bridge_start s \<longleftrightarrow> reg_ok (fst s) \<and> snd s = new_bridge"

text \<open>
  Every entry kept by the broker is the discovery of an adopted lamp under its own id; a name noted as
  announced belongs to an entry that is there.
\<close>

definition entries_ok :: "hass_config \<Rightarrow> bridge \<Rightarrow> bool" where
  "entries_ok c b \<longleftrightarrow>
     (\<forall>i p. b_retained b (config_topic c i) = Some p \<longrightarrow>
        (\<exists>lamp. adopted lamp \<and> device_id lamp = i \<and> p = discovery c lamp \<and>
          (\<forall>n. b_announced b i = Some n \<longrightarrow> n = bulb_name lamp))) \<and>
     (\<forall>i. b_announced b i \<noteq> None \<longrightarrow> b_retained b (config_topic c i) \<noteq> None)"

lemma entries_ok_frame:
  "entries_ok c b \<Longrightarrow> b_announced b' = b_announced b \<Longrightarrow>
    (\<And>i. b_retained b' (config_topic c i) = b_retained b (config_topic c i)) \<Longrightarrow> entries_ok c b'"
  by (simp add: entries_ok_def)

lemma entries_ok_announce:
  assumes "entries_ok c b"
  shows "entries_ok c (announce c lamp b)"
proof (cases "adopted lamp \<and> (case b_announced b (device_id lamp) of None \<Rightarrow> [] | Some n \<Rightarrow> n) \<noteq> bulb_name lamp \<and> b_up b")
  case True
  then show ?thesis using assms by (auto simp: announce_eq publish_retained entries_ok_def)
next
  case False
  then show ?thesis using assms by (auto simp: announce_eq)
qed

lemma entries_ok_publish:
  "entries_ok c b \<Longrightarrow> entries_ok c (publish_state c lamp b)"
  "entries_ok c b \<Longrightarrow> entries_ok c (publish_availability c i v b)"
  "entries_ok c b \<Longrightarrow> entries_ok c (publish_offline c b)"
  by (erule entries_ok_frame; simp add: publish_state_def publish_availability_def publish_offline_def publish_retained)+

lemma entries_ok_reported: "entries_ok c b \<Longrightarrow> entries_ok c (b\<lparr>b_reported := s\<rparr>)"
  by (erule entries_ok_frame; simp)

lemma entries_ok_fold: "entries_ok c b \<Longrightarrow> entries_ok c (fold (announce c) ls b)"
  by (induction ls arbitrary: b) (auto intro: entries_ok_announce)

lemma entries_ok_connect: "entries_ok c b \<Longrightarrow> entries_ok c (on_connect c r (b\<lparr>b_up := u\<rparr>))"
  unfolding on_connect_def Let_def
  by (rule entries_ok_fold, erule entries_ok_frame) (simp_all add: publish_retained)

lemma entries_ok_lost: "entries_ok c b \<Longrightarrow> entries_ok c (b\<lparr>b_up := u, b_retained := (b_retained b)(status_topic c \<mapsto> v)\<rparr>)"
  by (erule entries_ok_frame) simp_all

lemma entries_ok_handle: "entries_ok c b \<Longrightarrow> entries_ok c (bridge_handle c r e b)"
  by (auto simp: bridge_handle_def Let_def split: sum.split kind.split
      intro!: entries_ok_publish entries_ok_announce entries_ok_reported)

lemma entries_ok_remove: "entries_ok c b \<Longrightarrow> entries_ok c (remove_lamp c i b)"
  by (fastforce simp: remove_lamp_def Let_def publish_retained entries_ok_def)

interpretation entries: invariant_system bridge_start "bridge_step c" "\<lambda>s. reg_ok (fst s) \<and> entries_ok c (snd s)"
proof
  show "bridge_start s \<Longrightarrow> reg_ok (fst s) \<and> entries_ok c (snd s)" for s
    by (simp add: bridge_start_def new_bridge_def entries_ok_def)
  show "reg_ok (fst s) \<and> entries_ok c (snd s) \<Longrightarrow> bridge_step c s t \<Longrightarrow> reg_ok (fst t) \<and> entries_ok c (snd t)" for s t
    by (auto elim!: bridge_step.cases
        intro: entries_ok_connect entries_ok_handle entries_ok_remove entries_ok_publish entries_ok_lost)
qed

section \<open>While the broker is there\<close>

definition bridge_run :: "hass_config \<Rightarrow> (registry \<times> event) list \<Rightarrow> bridge \<Rightarrow> bridge" where
  "bridge_run c res b = fold (\<lambda>(r, e). bridge_handle c r e) res b"

text \<open>No event of a renaming is read with the lamp already gone again.\<close>

definition steady :: "(registry \<times> event) list \<Rightarrow> bool" where
  "steady res \<longleftrightarrow>
     (\<forall>(r, e)\<in>set res. reg_ok r \<and>
        (ev_kind e = Renamed \<longrightarrow> (\<forall>lamp. lookup_bulb r (ev_device e) = Some lamp \<longrightarrow> status lamp = Connected)))"

lemma panel_connect:
  "panel_of c i (on_connect c r (new_bridge\<lparr>b_up := True\<rparr>)) =
    fold (\<lambda>lamp p. if device_id lamp = i then panel_entry c lamp p else p) (list_bulbs r)
      \<lparr>p_spoken = False, p_name = None, p_entry = None, p_state = None, p_avail = None\<rparr>"
  "b_up (on_connect c r (new_bridge\<lparr>b_up := True\<rparr>))"
proof -
  have "panel_of c i (fold (announce c) ls b) =
      fold (\<lambda>lamp p. if device_id lamp = i then panel_entry c lamp p else p) ls (panel_of c i b) \<and>
    b_up (fold (announce c) ls b)" if "b_up b" for ls b
    using that by (induction ls arbitrary: b) (simp_all add: panel_announce)
  then show "panel_of c i (on_connect c r (new_bridge\<lparr>b_up := True\<rparr>)) =
    fold (\<lambda>lamp p. if device_id lamp = i then panel_entry c lamp p else p) (list_bulbs r)
      \<lparr>p_spoken = False, p_name = None, p_entry = None, p_state = None, p_avail = None\<rparr>"
    and "b_up (on_connect c r (new_bridge\<lparr>b_up := True\<rparr>))"
    unfolding on_connect_def Let_def
    by (simp_all add: panel_of_def publish_retained new_bridge_def)
qed

text \<open>A panel on which a lamp that has spoken is available.\<close>

definition panel_ok :: "panel \<Rightarrow> bool" where
  "panel_ok p \<longleftrightarrow> (p_spoken p \<longrightarrow> p_avail p = Some online)"

lemma panel_ok_entry: "panel_ok (panel_entry c lamp p) = panel_ok p"
  by (simp add: panel_ok_def panel_entry_def)

lemma panel_ok_event:
  "panel_ok p \<Longrightarrow> (k = Renamed \<longrightarrow> status lamp = Connected) \<Longrightarrow> panel_ok (panel_event c lamp k p)"
  by (cases k) (auto simp: panel_event_def panel_ok_def panel_entry_def availability_def Let_def)

lemma panel_ok_run:
  "steady res \<Longrightarrow> b_up b \<Longrightarrow> i \<noteq> [] \<Longrightarrow> panel_ok (panel_of c i b) \<Longrightarrow>
    panel_ok (panel_of c i (bridge_run c res b)) \<and> b_up (bridge_run c res b)"
proof (induction res arbitrary: b)
  case (Cons x res)
  obtain r e where x: "x = (r, e)" by (cases x)
  have ok: "reg_ok r" "ev_kind e = Renamed \<longrightarrow> (\<forall>lamp. lookup_bulb r (ev_device e) = Some lamp \<longrightarrow> status lamp = Connected)"
    "steady res" using Cons.prems(1) by (auto simp: steady_def x)
  have "panel_ok (panel_of c i (bridge_handle c r e b))"
    using ok(2) Cons.prems(4) by (auto simp: panel_handle [OF ok(1) Cons.prems(2,3)] split: option.split intro!: panel_ok_event)
  then show ?case
    using Cons.IH [OF ok(3), of "bridge_handle c r e b"] Cons.prems(2,3) by (simp add: bridge_run_def x)
qed (simp add: bridge_run_def)

section \<open>Commands\<close>

lemma match_levels_prefix: "''#'' \<notin> set ps \<Longrightarrow> ''+'' \<notin> set ps \<Longrightarrow>
   match_levels (ps @ qs) ts \<longleftrightarrow> (\<exists>ts'. ts = ps @ ts' \<and> match_levels qs ts')"
  by (induction ps arbitrary: ts) (auto split: list.splits simp: Cons_eq_append_conv)

lemma match_levels_set: "match_levels [''+'', ''set''] ts \<longleftrightarrow> (\<exists>i. ts = [i, ''set''])"
  by (auto split: list.splits)

text \<open>What the command filter lets through, for a prefix without wildcards.\<close>

definition plain_prefix :: "hass_config \<Rightarrow> bool" where
  "plain_prefix c \<longleftrightarrow> (\<forall>w\<in>set (split_at CHR ''/'' (own_prefix (with_defaults c))). w \<noteq> ''+'' \<and> w \<noteq> ''#'')"

lemma split_at_append_all: "split_at c (s @ c # t) = split_at c s @ split_at c t"
  by (induction s) (auto split: list.splits)

lemma command_filter_matches:
  assumes "plain_prefix c"
  shows "topic_matches (command_filter c) t \<longleftrightarrow> (\<exists>i. CHR ''/'' \<notin> set i \<and> t = command_topic c i)"
proof -
  let ?p = "split_at CHR ''/'' (own_prefix (with_defaults c))"
  have f: "split_topic (command_filter c) = (?p @ [''light'']) @ [''+'', ''set'']"
    by (simp add: split_topic_eq command_filter_def split_at_append_all)
  have t: "split_at CHR ''/'' (command_topic c i) = (?p @ [''light'']) @ split_at CHR ''/'' i @ [''set'']" for i
    by (simp add: command_topic_def split_at_append_all)
  have "topic_matches (command_filter c) t \<longleftrightarrow> (\<exists>i. split_at CHR ''/'' t = (?p @ [''light'']) @ [i, ''set''])"
    using assms unfolding topic_matches_def f plain_prefix_def
    by (subst match_levels_prefix) (auto simp: split_topic_eq match_levels_set simp del: match_levels.simps)
  also have "\<dots> \<longleftrightarrow> (\<exists>i. CHR ''/'' \<notin> set i \<and> t = command_topic c i)"
  proof
    assume "\<exists>i. split_at CHR ''/'' t = (?p @ [''light'']) @ [i, ''set'']"
    then obtain i where i: "split_at CHR ''/'' t = (?p @ [''light'']) @ [i, ''set'']" by blast
    then have n: "CHR ''/'' \<notin> set i" using split_at_no_sep [of i "CHR ''/''" t] by simp
    then have "split_at CHR ''/'' t = split_at CHR ''/'' (command_topic c i)" by (simp add: i t split_at_single)
    then have "t = command_topic c i" by (metis join_split_at)
    with n show "\<exists>i. CHR ''/'' \<notin> set i \<and> t = command_topic c i" by blast
  next
    show "\<exists>i. CHR ''/'' \<notin> set i \<and> t = command_topic c i \<Longrightarrow> \<exists>i. split_at CHR ''/'' t = (?p @ [''light'']) @ [i, ''set'']"
      by (auto simp: t split_at_single)
  qed
  finally show ?thesis .
qed

lemma device_of_own_topic: "i \<noteq> [] \<Longrightarrow> CHR ''/'' \<notin> set i \<Longrightarrow> device_of_command_topic c (command_topic c i) = Some i"
  unfolding device_of_topic_rest by (auto simp: command_topic_def has_suffix_iff)

lemma on_command_own_topic:
  assumes "CHR ''/'' \<notin> set i" "i \<noteq> []" "lookup_bulb (h_get h w) i = Some lamp"
  shows "on_hass_command c h (command_topic c i) payload w =
    (case parse_command c payload of Inl _ \<Rightarrow> w | Inr ch \<Rightarrow> snd (service_apply h i ch w))"
  by (simp add: on_hass_command_def device_of_own_topic assms get_lamp_lookup)

text \<open>The payload with which Home Assistant asks for what a command of the terminal asks for.\<close>

definition hass_payload :: "hass_config \<Rightarrow> operator_command \<Rightarrow> string" where
  "hass_payload c cmd =
     marshal (JObj
       [case oc_action cmd of
          ActionOn \<Rightarrow> (''state'', JStr ''ON'')
        | ActionOff \<Rightarrow> (''state'', JStr ''OFF'')
        | ActionBrightness \<Rightarrow> (''brightness'', jint (brightness_to_ha (word_of_int (oc_number cmd))))
        | _ \<Rightarrow> (''color_temp_kelvin'', jint (kelvin_from_percent c (word_of_int (oc_number cmd))))])"

lemma unmarshal_one:
  assumes "find_field fs k = Some f" "valid_utf8 k" "json_ok j" "json_depth j = 0"
  shows "unmarshal (dec_struct fs) r (marshal (JObj [(k, j)])) = (case f j r of (r', ok) \<Rightarrow> if ok then Some r' else None)"
proof -
  have ok: "json_ok (JObj [(k, j)])" "json_depth (JObj [(k, j)]) \<le> max_nesting"
    using assms(2-4) by (simp_all add: max_nesting_def)
  show ?thesis unfolding unmarshal_marshal [OF ok] by (simp add: dec_struct_def assms(1) split: prod.split)
qed

lemma parse_hass_payload:
  assumes "change_for q target cmd = Inr ch" "oc_action cmd \<in> {ActionOn, ActionOff, ActionBrightness, ActionColorTemp}"
    "wide_span c" "int64_range (max_kelvin (with_defaults c))"
  shows "parse_command c (hass_payload c cmd) = Inr ch"
proof -
  have le: "0 \<le> n \<Longrightarrow> n \<le> 100 \<Longrightarrow> word_of_int n \<le> (100 :: byte)" for n by (simp add: byte_le_100 uint_word_of_int_byte)
  have u: "valid_utf8 ''state''" "valid_utf8 ''brightness''" "valid_utf8 ''color_temp_kelvin''" "valid_utf8 ''ON''" "valid_utf8 ''OFF''"
    by (simp_all add: valid_utf8_ascii)
  have j: "json_ok (jint n)" "json_depth (jint n) = 0" for n by (simp_all add: jint_def)
  show ?thesis
    using change_for_Inr [OF assms(1)] assms(2) kelvin_int64 [OF assms(3,4)] brightness_to_ha_range
    by (auto simp: hass_payload_def parse_command_def dec_hass_command_def unmarshal_one find_hass_fields u
        field_def dec_ptr_values change_of_def is_empty_def no_hass_command_def equal_fold_on_off kelvin_defaults
        brightness_scale.read_shown read_kelvin [OF assms(3)] le set_power_change_def set_brightness_change_def
        set_color_temp_change_def no_change_def j simp del: marshal.simps)
qed

lemma service_refuses_warmth:
  assumes "lookup_bulb (h_get h w) i = Some target" "\<not> supports_color_temp (bulb_caps target)"
  shows "snd (service_apply h i (set_color_temp_change p) w) = w"
proof -
  have "\<nexists>x. prepare i (set_color_temp_change p) (h_get h w) = Inr x"
  proof
    assume "\<exists>x. prepare i (set_color_temp_change p) (h_get h w) = Inr x"
    then obtain t d want r' where "prepare i (set_color_temp_change p) (h_get h w) = Inr (t, d, want, r')" by (metis prod_cases4)
    then have "resolve_change target (set_color_temp_change p) = Inr want" using assms(1) by (auto simp: prepare_Inr)
    from resolve_change_Inr [OF this] assms(2) show False by (simp add: set_color_temp_change_def)
  qed
  then show ?thesis by (auto simp: service_apply_def apply_change_def split: sum.split)
qed

section \<open>Properties\<close>

text \<open>
  C10: the terminal and Home Assistant cannot drift apart. Switching, dimming or warming a lamp from the
  terminal and sending Home Assistant's command for the same thing to the lamp's own topic leave the
  whole server in the same state, whether the change is accepted or refused.
\<close>

theorem surfaces_agree:
  assumes "parse line = Inr cmd" "oc_action cmd \<in> {ActionOn, ActionOff, ActionBrightness, ActionColorTemp}"
    "resolve (oc_target cmd) (h_get t w) = Inr target" "reg_ok (h_get t w)"
    "0 \<le> oc_number cmd" "oc_number cmd \<le> 100"
    "CHR ''/'' \<notin> set (device_id target)" "device_id target \<noteq> []"
    "wide_span c" "int64_range (max_kelvin (with_defaults c))"
  shows "on_hass_command c t (command_topic c (device_id target)) (hass_payload c cmd) w = snd (execute t line w)"
proof -
  let ?i = "device_id target"
  have entry: "lookup_bulb (h_get t w) ?i = Some target" using resolve_Inr [OF assms(4,3)] by blast
  have ex: "execute t line w = run_change t target cmd w"
    using assms(1-3) by (auto simp: execute_def run_command_def)
  note own = on_command_own_topic [where h = t and w = w, OF assms(7,8) entry]
  show ?thesis
  proof (cases "change_for (t_quote t) target cmd")
    case (Inr ch)
    then show ?thesis
      unfolding own ex parse_hass_payload [OF Inr assms(2,9,10)]
      by (simp add: run_change_def split: prod.split option.split)
  next
    case (Inl e)
    let ?p = "word_of_int (oc_number cmd) :: byte"
    from Inl have ct: "oc_action cmd = ActionColorTemp" "\<not> supports_color_temp (bulb_caps target)"
      using assms(2,5,6) by (auto simp: change_for_def split: if_splits)
    let ?able = "target\<lparr>bulb_caps := (bulb_caps target)\<lparr>cap_known := False\<rparr>\<rparr>"
    have "change_for (t_quote t) ?able cmd = Inr (set_color_temp_change ?p)"
      using ct(1) assms(5,6) by (simp add: change_for_def supports_color_temp_def)
    from parse_hass_payload [OF this assms(2,9,10)]
    show ?thesis unfolding own ex using service_refuses_warmth [OF entry ct(2), of ?p] by (simp add: run_change_def Inl)
  qed
qed

theorem surfaces_agree_witness:
  "on_hass_command default_config demo_terminal ''haigosmart/light/a1/set''
      (hass_payload default_config \<lparr>oc_action = ActionBrightness, oc_target = ''desk'', oc_number = 40, oc_text = []\<rparr>) demo_registry
    = snd (execute demo_terminal ''bri desk 40'' demo_registry)"
proof -
  let ?c = "\<lparr>oc_action = ActionBrightness, oc_target = ''desk'', oc_number = 40, oc_text = []\<rparr>"
  let ?b = "zero_bulb\<lparr>device_id := ''a1'', bulb_name := ''desk'', status := Connected, driver := Some 3\<rparr>"
  have p: "parse ''bri desk 40'' = Inr ?c" by code_simp
  have r: "resolve (oc_target ?c) (h_get demo_terminal demo_registry) = Inr ?b" by code_simp
  have w: "wide_span default_config" "int64_range (max_kelvin (with_defaults default_config))" by code_simp+
  have "command_topic default_config ''a1'' = ''haigosmart/light/a1/set''" by code_simp
  then show ?thesis
    using surfaces_agree [OF p _ r _ _ _ _ _ w] demo_registry_ok by (simp add: demo_terminal_def zero_bulb_def)
qed

text \<open>
  C31: a message the broker delivers for the subscribed filter changes something only as a well-formed
  command on the topic of a lamp the registry knows, and then exactly as the service applies it to
  that lamp. Anything else (an unknown lamp, an empty id, a payload that is no command) changes nothing.
\<close>

theorem delivered_command_effect:
  assumes "plain_prefix c" "topic_matches (command_filter c) topic'" "on_hass_command c h topic' payload w \<noteq> w"
  shows "\<exists>i lamp ch. i \<noteq> [] \<and> CHR ''/'' \<notin> set i \<and> topic' = command_topic c i \<and> lookup_bulb (h_get h w) i = Some lamp \<and>
    status lamp = Connected \<and> parse_command c payload = Inr ch \<and> \<not> is_empty ch \<and>
    on_hass_command c h topic' payload w = snd (service_apply h i ch w)"
proof -
  from assms(1,2) obtain i where i: "CHR ''/'' \<notin> set i" "topic' = command_topic c i" by (auto simp: command_filter_matches)
  have "i \<noteq> []"
  proof
    assume "i = []"
    then have "device_of_command_topic c topic' \<noteq> Some j" for j
      using i unfolding device_of_topic_rest by (auto simp: command_topic_def trim_suffix_def has_suffix_def)
    then have "device_of_command_topic c topic' = None" by blast
    then show False using assms(3) by (simp add: on_hass_command_def)
  qed
  note own = on_command_own_topic [where c = c and h = h and w = w, OF i(1) this]
  have "lookup_bulb (h_get h w) i \<noteq> None"
    using assms(3) i \<open>i \<noteq> []\<close> by (auto simp: on_hass_command_def device_of_own_topic get_lamp_lookup split: option.splits)
  then obtain lamp where l: "lookup_bulb (h_get h w) i = Some lamp" by blast
  from assms(3) obtain ch where ch: "parse_command c payload = Inr ch"
    by (auto simp: i(2) own [OF l] split: sum.splits)
  then have res: "on_hass_command c h topic' payload w = snd (service_apply h i ch w)" by (simp add: i(2) own [OF l])
  then obtain x where "prepare i ch (h_get h w) = Inr x"
    using assms(3) by (auto simp: service_apply_def apply_change_def split: sum.splits)
  then have "status lamp = Connected" using l by (cases x) (auto simp: prepare_Inr)
  moreover have "\<not> is_empty ch" using ch by (auto simp: parse_command_def Let_def split: option.splits if_splits)
  ultimately show ?thesis using i \<open>i \<noteq> []\<close> l ch res by blast
qed

theorem delivered_command_effect_witness:
  "\<exists>i lamp ch. ''haigosmart/light/a1/set'' = command_topic default_config i \<and> lookup_bulb demo_registry i = Some lamp \<and>
     parse_command default_config (marshal (JObj [(''state'', JStr ''on'')])) = Inr ch"
proof -
  let ?w' = "on_hass_command default_config demo_terminal ''haigosmart/light/a1/set'' (marshal (JObj [(''state'', JStr ''on'')])) demo_registry"
  have "map_option desired (lookup_bulb ?w' ''a1'') \<noteq> map_option desired (lookup_bulb demo_registry ''a1'')" by code_simp
  then have ne: "?w' \<noteq> demo_registry" by force
  have "list_all (\<lambda>w. w \<noteq> ''+'' \<and> w \<noteq> ''#'') (split_at CHR ''/'' (own_prefix (with_defaults default_config)))" by code_simp
  then have pp: "plain_prefix default_config" by (simp add: plain_prefix_def list_all_iff)
  have m: "topic_matches (command_filter default_config) ''haigosmart/light/a1/set''" by code_simp
  from delivered_command_effect [OF pp m ne] show ?thesis by (auto simp: demo_terminal_def)
qed

text \<open>
  Only adopted lamps appear in Home Assistant. Whatever events, reconnects, removals and losses of
  the broker there were, every entry the broker keeps under a lamp's config topic is the discovery of
  an adopted lamp of that id, and a lamp noted as announced has its entry there under that name.
\<close>

theorem only_adopted_announced:
  assumes "reachable bridge_start (bridge_step c) (r, b)"
  shows "(b_retained b (config_topic c i) = Some p \<longrightarrow>
      (\<exists>lamp. adopted lamp \<and> device_id lamp = i \<and> p = discovery c lamp)) \<and>
    (b_announced b i = Some n \<longrightarrow>
      (\<exists>lamp. adopted lamp \<and> device_id lamp = i \<and> bulb_name lamp = n \<and>
        b_retained b (config_topic c i) = Some (discovery c lamp)))"
  using entries.reachable_inv [OF assms] unfolding entries_ok_def by fastforce

theorem only_adopted_announced_witness:
  "\<exists>lamp. adopted lamp \<and> device_id lamp = ''a1'' \<and> bulb_name lamp = ''desk'' \<and>
    b_retained (on_connect default_config demo_registry (new_bridge\<lparr>b_up := True\<rparr>)) (config_topic default_config ''a1'')
      = Some (discovery default_config lamp)"
proof -
  have "reachable bridge_start (bridge_step default_config) (demo_registry, new_bridge)"
    by (rule reach_start) (simp add: bridge_start_def demo_registry_ok)
  then have "reachable bridge_start (bridge_step default_config)
      (demo_registry, on_connect default_config demo_registry (new_bridge\<lparr>b_up := True\<rparr>))"
    by (rule reach_step) (rule connects)
  moreover have "b_announced (on_connect default_config demo_registry (new_bridge\<lparr>b_up := True\<rparr>)) ''a1'' = Some ''desk''"
    by code_simp
  ultimately show ?thesis using only_adopted_announced by fastforce
qed



section \<open>Where the bridge falls short\<close>

text \<open>
  A first report while the broker is away is noted as reported, so availability is not published after
  the next connect either: \<open>OnConnect\<close> republishes entries only. The lamp stays unavailable while it
  goes on reporting.
\<close>

lemma first_report_lost:
  fixes c :: hass_config
  assumes "reg_ok r" "lookup_bulb r i = Some lamp" "i \<noteq> []" "ev_kind e = StateChanged" "ev_device e = i"
  defines "b1 \<equiv> bridge_handle c r e new_bridge"
  shows "b_retained (bridge_handle c r e (on_connect c r (b1\<lparr>b_up := True\<rparr>))) (availability_topic c i) = None"
proof -
  have fold: "panel_of c i (fold (announce c) ls b) =
      fold (\<lambda>lamp p. if device_id lamp = i then panel_entry c lamp p else p) ls (panel_of c i b) \<and>
    b_up (fold (announce c) ls b)" if "b_up b" for ls b
    using that by (induction ls arbitrary: b) (simp_all add: panel_announce)
  have keep: "p_avail (fold (\<lambda>lamp p. if device_id lamp = i then panel_entry c lamp p else p) ls p) = p_avail p \<and>
    p_spoken (fold (\<lambda>lamp p. if device_id lamp = i then panel_entry c lamp p else p) ls p) = p_spoken p" for ls p
    by (induction ls arbitrary: p) (simp_all add: panel_entry_def)
  have b1: "b_reported b1 = {i}" "b_retained b1 = Map.empty" "\<not> b_up b1"
    using assms(2-5) by (simp_all add: b1_def bridge_handle_def get_lamp_lookup new_bridge_def Let_def publish_state_def
        publish_availability_def publish_retained announce_eq)
  let ?b = "on_connect c r (b1\<lparr>b_up := True\<rparr>)"
  have "b_up ?b \<and> p_avail (panel_of c i ?b) = None \<and> p_spoken (panel_of c i ?b)"
    unfolding on_connect_def Let_def
    by (simp add: fold keep) (simp add: panel_of_def publish_retained b1)
  moreover from this have "panel_of c i (bridge_handle c r e ?b) = panel_event c lamp StateChanged (panel_of c i ?b)"
    using panel_handle [OF assms(1) _ assms(3), of ?b c e] assms(2,4,5) by simp
  ultimately have "p_avail (panel_of c i (bridge_handle c r e ?b)) = None"
    by (simp add: panel_event_def panel_entry_def Let_def)
  then show ?thesis by (simp add: panel_of_def)
qed

text \<open>A lamp nobody has adopted: its state and availability are published although its entry is not.\<close>

lemma unadopted_published:
  assumes "reg_ok r" "lookup_bulb r i = Some lamp" "i \<noteq> []" "\<not> adopted lamp" "b_up b" "i \<notin> b_reported b"
    "ev_kind e = StateChanged" "ev_device e = i"
  shows "b_retained (bridge_handle c r e b) (availability_topic c i) = Some online"
  using panel_handle [OF assms(1,5,3), of c e] assms by (simp add: panel_event_def panel_of_def panel_entry_def Let_def)

text \<open>A lamp that has not reported yet: renaming it while connected publishes what the registry remembers.\<close>

lemma remembered_state_published:
  assumes "reg_ok r" "lookup_bulb r i = Some lamp" "i \<noteq> []" "status lamp = Connected" "b_up b" "i \<notin> b_reported b"
    "ev_kind e = Renamed" "ev_device e = i"
  shows "b_retained (bridge_handle c r e b) (state_topic c i) = Some (state_payload c lamp) \<and>
    b_retained (bridge_handle c r e b) (availability_topic c i) = Some online"
  using panel_handle [OF assms(1,5,3), of c e] assms
  by (simp add: panel_event_def panel_of_def panel_entry_def Let_def availability_def split: if_splits)

text \<open>What becomes known of a lamp after it was announced does not reach its entry: only a new name does.\<close>

lemma unchanged_name_skipped:
  "b_announced b (device_id lamp) = Some (bulb_name lamp) \<Longrightarrow> announce c (lamp\<lparr>bulb_caps := caps, firmware := v\<rparr>) b = b"
  by (simp add: announce_def)

text \<open>
  The smallest brightness Home Assistant can ask for is no brightness: one of 255 becomes 0 percent, and
  switching on at 0 percent is made full brightness.
\<close>

lemma dimmest_is_brightest:
  "case parse_command default_config (marshal (JObj [(''state'', JStr ''ON''), (''brightness'', jint 1)])) of
     Inl _ \<Rightarrow> False
   | Inr ch \<Rightarrow> (case resolve_change demo_lamp ch of Inl _ \<Rightarrow> False | Inr want \<Rightarrow> power want \<and> brightness want = 100)"
  by code_simp

text \<open>
  Warming a lamp that is off is confirmed without anything being sent: what differs is only the colour
  temperature, which a lamp that is off is not told.
\<close>

lemma warming_while_off:
  "\<not> power s \<Longrightarrow> changed_props s (s\<lparr>color_temp := t\<rparr>) caps = []"
  by (simp add: changed_props_def)

end
