(* ===== verification/EndToEnd.thy ===== *)
theory EndToEnd
  imports Delivery Bridge
begin

text \<open>
  From the operator's line to the lamp and back: terminal (control), lamp service (lights), the session
  that drives the lamp (server), and the lamp itself (fakebulb), put together as \<open>main.go\<close> does.
\<close>

section \<open>The terminal of a server with a lamp\<close>

text \<open>The service's driver is the session; everything else works on the server's registry and events.\<close>

definition lab_terminal ::
  "fake_options \<Rightarrow> (session_error \<Rightarrow> string) \<Rightarrow> (nat \<Rightarrow> time) \<Rightarrow> (nat \<Rightarrow> time) \<Rightarrow> time \<Rightarrow> (string \<Rightarrow> string) \<Rightarrow> duration \<Rightarrow> lab terminal" where
  "lab_terminal opts wording clock arrives now q zone =
     \<lparr>h_run = (\<lambda>d. session_apply (\<lambda>w. lamp_turn opts wording d (arrives (w_next w)) w) clock d),
      h_get = w_reg, h_put = (\<lambda>r w. w\<lparr>w_reg := r\<rparr>), h_emit = emit, h_now = now, t_quote = q, t_zone = zone\<rparr>"

lemma ready_desired:
  "ready opts d st (w\<lparr>w_reg := set_desired i want (w_reg w)\<rparr>) = ready opts d st w"
  by (auto simp: ready_def set_desired_def reg_simps split: option.split)

lemma percent_resolved:
  assumes "resolve_change target ch = Inr want"
    "uint (brightness (light target)) \<le> 100" "uint (color_temp (light target)) \<le> 100"
  shows "uint (brightness want) \<le> 100" "uint (color_temp want) \<le> 100"
  using resolve_change_Inr [OF assms(1)] assms(2,3)
  by (auto simp: Let_def split: option.splits if_splits)

text \<open>A change that is in order runs the driver, on the lamp's own connection.\<close>

lemma change_runs:
  assumes "parse line = Inr c" "oc_action c \<in> {ActionOn, ActionOff, ActionBrightness, ActionColorTemp}"
    "resolve (oc_target c) (h_get t w) = Inr target" "reg_ok (h_get t w)" "status target = Connected" "driver target = Some d"
    "change_for (t_quote t) target c = Inr ch" "resolve_change target ch = Inr want"
    "h_run t d want (h_put t (set_desired (device_id target) want (h_get t w)) w) = (res, w')"
  shows "res = Done \<Longrightarrow> execute t line w = (ok_result (bulb_name target @ '': '' @ describe c), w')"
    "res = StillUnconfirmed names \<Longrightarrow> execute t line w =
      (info_result (bulb_name target @ '': '' @ describe c @ '' sent '' @ em_dash @
        '' the bulb has not confirmed yet, watch the feed''), w')"
proof -
  have entry: "lookup_bulb (h_get t w) (device_id target) = Some target" using resolve_Inr [OF assms(4,3)] by blast
  have p: "prepare (device_id target) ch (h_get t w) = Inr (target, d, want, set_desired (device_id target) want (h_get t w))"
    using entry assms(5,6,8) by (simp add: prepare_Inr driver_of_def)
  have "execute t line w = run_change t target c w"
    using assms(1-3) by (auto simp: execute_def run_command_def)
  then show "res = Done \<Longrightarrow> execute t line w = (ok_result (bulb_name target @ '': '' @ describe c), w')"
    "res = StillUnconfirmed names \<Longrightarrow> execute t line w =
      (info_result (bulb_name target @ '': '' @ describe c @ '' sent '' @ em_dash @
        '' the bulb has not confirmed yet, watch the feed''), w')"
    by (auto simp: run_change_def assms(7,9) service_apply_def apply_change_def p is_unconfirmed_def)
qed

section \<open>Properties\<close>


definition demo_opts :: fake_options where
  "demo_opts = \<lparr>f_product_key = ''pk'', f_device_name = ''lamp'', f_version = [], f_keep_alive = 120,
     f_malformed = False, f_silent = False, f_no_ack = False\<rparr>"

definition demo_target :: bulb where
  "demo_target = zero_bulb\<lparr>device_id := ''lamp'', bulb_name := ''desk'', status := Connected, driver := Some 0,
     light := \<lparr>power = True, brightness = 30, color_temp = 2, light_mode = 0, reported_at = 0\<rparr>\<rparr>"

definition demo_lab :: lab where
  "demo_lab =
     \<lparr>w_reg = put_bulb ''lamp'' demo_target new_registry,
      w_sessions = [0 \<mapsto> (new_session ''10.0.0.7'')\<lparr>ses_identity := own_identity demo_opts, ses_phase := Serving\<rparr>],
      w_commands = Map.empty, w_next = 0, w_takeovers = Map.empty, w_rejects = Map.empty, w_events = [], w_sent = [],
      lab_bulb = fake_init\<rparr>"

lemma demo_lab_ready:
  "ready (demo_opts\<lparr>f_silent := sil\<rparr>) 0 (light demo_target) demo_lab"
  "reg_ok (w_reg demo_lab)" "resolve ''desk'' (w_reg demo_lab) = Inr demo_target"
  "fits (demo_opts\<lparr>f_silent := sil\<rparr>) 1700000000000000000 1700000000000000000 3"
proof -
  show "ready (demo_opts\<lparr>f_silent := sil\<rparr>) 0 (light demo_target) demo_lab"
    by (simp add: ready_def demo_lab_def demo_opts_def demo_target_def own_identity_def new_session_def agrees_def fake_init_def reg_simps)
  show "reg_ok (w_reg demo_lab)" by (auto simp: demo_lab_def demo_target_def bulb_ok_def)
  show "resolve ''desk'' (w_reg demo_lab) = Inr demo_target" by code_simp
  show "fits (demo_opts\<lparr>f_silent := sil\<rparr>) 1700000000000000000 1700000000000000000 3" by (simp add: fits_def demo_opts_def)
qed





section \<open>Home Assistant\<close>

text \<open>What the broker holds of a lamp's state after the bridge has seen some events.\<close>

lemma handle_state_topic:
  assumes "b_up b" "\<And>j x. lookup_bulb r j = Some x \<Longrightarrow> device_id x = j" "lookup_bulb r i = Some lamp" "i \<noteq> []"
  shows "b_retained (bridge_handle c r e b) (state_topic c i) \<in> {b_retained b (state_topic c i), Some (state_payload c lamp)}"
    "ev_kind e = StateChanged \<Longrightarrow> ev_device e = i \<Longrightarrow>
      b_retained (bridge_handle c r e b) (state_topic c i) = Some (state_payload c lamp)"
proof -
  have other: "device_id x = i \<Longrightarrow> lookup_bulb r (ev_device e) = Some x \<Longrightarrow> x = lamp" for x using assms(2,3) by fastforce
  show "b_retained (bridge_handle c r e b) (state_topic c i) \<in> {b_retained b (state_topic c i), Some (state_payload c lamp)}"
    using assms(1) other
    by (auto simp: bridge_handle_def get_lamp_lookup Let_def publish_state_def publish_availability_def announce_eq publish_retained
        split: option.split kind.split)
  show "ev_kind e = StateChanged \<Longrightarrow> ev_device e = i \<Longrightarrow>
      b_retained (bridge_handle c r e b) (state_topic c i) = Some (state_payload c lamp)"
    using assms
    by (auto simp: bridge_handle_def get_lamp_lookup Let_def publish_state_def publish_availability_def announce_eq publish_retained
        split: option.split)
qed

lemma state_shown:
  assumes "\<And>j x. lookup_bulb r j = Some x \<Longrightarrow> device_id x = j" "lookup_bulb r i = Some lamp" "i \<noteq> []" "b_up b"
    "(\<exists>e\<in>set es. ev_kind e = StateChanged \<and> ev_device e = i) \<or> b_retained b (state_topic c i) = Some (state_payload c lamp)"
  shows "b_retained (fold (bridge_handle c r) es b) (state_topic c i) = Some (state_payload c lamp)"
  using assms(4,5)
proof (induction es arbitrary: b)
  case (Cons e es)
  note one = handle_state_topic [where c = c and e = e, OF Cons.prems(1) assms(1-3)]
  show ?case using Cons.prems(2) one by (auto intro!: Cons.IH simp: Cons.prems(1))
qed simp



end
