(* ===== verification/Sessions.thy ===== *)
theory Sessions
  imports Server
begin

text \<open>
  What holds of the server over its whole life: a frame for everything a packet handler can change,
  the invariant that ties registry entries to live sessions, the rejection and takeover records, and
  how far one lamp's packets reach.
\<close>

lemma device_session_event [simp]: "ev_device (session_event d k detail now w) = ses_device d w"
  by (simp add: session_event_def case_prod_beta)

section \<open>What a packet handler can do\<close>

text \<open>
  A packet handler of session \<open>d\<close> is built from a few updates. A relation between worlds that allows
  each of them holds across the whole handler.
\<close>

locale handler_frame =
  fixes d :: nat
    and rel :: "'a world_scheme \<Rightarrow> 'a world_scheme \<Rightarrow> bool"
  assumes frame_refl: "rel w w"
    and frame_trans: "rel w w1 \<Longrightarrow> rel w1 w2 \<Longrightarrow> rel w w2"
    and frame_emit: "ev_device e = ses_device d w \<Longrightarrow> rel w (emit e w)"
    and frame_reported: "rel w (upd_session d (\<lambda>s. s\<lparr>ses_reported := True\<rparr>) w)"
    and frame_write: "rel w (snd (ses_write d p w))"
    and frame_deliver: "rel w (deliver c result w)"
    and frame_touch: "rel w (on_reg (touch (ses_device d w) now) w)"
    and frame_inform: "rel w (on_reg (\<lambda>r. snd (set_capabilities (ses_device d w) caps (set_firmware (ses_device d w) v r))) w)"
    and frame_state: "decode_property_post text' = Some post \<Longrightarrow> view (ses_device d w) (w_reg w) = (b, True) \<Longrightarrow>
      rel w (w\<lparr>w_reg := snd (set_state (ses_device d w) (apply_post post (light b) now) now
        (snd (set_capabilities (ses_device d w) caps (w_reg w))))\<rparr>)"
begin

lemma frame_complete: "rel w (complete_command d r w)" "rel w (complete_by_seq d sq w)"
  by (auto simp: complete_command_def complete_by_seq_def frame_deliver frame_refl split: option.split)

lemma frame_property_post: "rel w (snd (handle_property_post d pub now w))"
proof (cases "decode_property_post (str_of (content pub))")
  case None
  then show ?thesis by (simp add: handle_property_post_def frame_refl)
next
  case (Some post)
  obtain b ok where v: "view (ses_device d w) (w_reg w) = (b, ok)" by (cases "view (ses_device d w) (w_reg w)")
  define r1 where "r1 = snd (set_capabilities (ses_device d w) (refine_from_report (bulb_caps b) post) (w_reg w))"
  define r2 where "r2 = snd (set_state (ses_device d w) (apply_post post (light b) now) now r1)"
  have 1: "ok \<Longrightarrow> rel w (w\<lparr>w_reg := r2\<rparr>)" unfolding r2_def r1_def by (rule frame_state [OF Some]) (simp add: v)
  obtain changes where cs: "set_state (ses_device d w) (apply_post post (light b) now) now r1 = (changes, r2)"
    by (cases "set_state (ses_device d w) (apply_post post (light b) now) now r1") (simp add: r2_def)
  define w2 where "w2 = upd_session d (\<lambda>s. s\<lparr>ses_reported := True\<rparr>) (w\<lparr>w_reg := r2\<rparr>)"
  define w3 where "w3 = (if changes \<noteq> [] \<or> \<not> ses_reported (session_of d w)
    then emit ((session_event d StateChanged [] now w2)\<lparr>ev_changed := changes\<rparr>) w2 else w2)"
  define w4 where "w4 = complete_by_seq d (post_seq post) w3"
  have "ok \<Longrightarrow> rel w w2" unfolding w2_def by (rule frame_trans [OF 1 frame_reported])
  moreover have "rel w2 w3" by (simp add: w3_def frame_emit frame_refl)
  moreover have "rel w3 w4" by (simp add: w4_def frame_complete)
  ultimately have 4: "ok \<Longrightarrow> rel w w4" by (blast intro: frame_trans)
  have "handle_property_post d pub now w =
     (if \<not> ok then (Some (SNotRegistered (ses_device d w)), w)
      else if post_id post \<noteq> []
        then ses_write d (encode_publish (property_post_reply (ses_identity (session_of d w4)))
                 (bytes_of (encode_property_post_reply (post_id post)))) w4
        else (None, w4))"
    unfolding handle_property_post_def Some option.case v Let_def prod.case r1_def [symmetric] cs
      w2_def [symmetric] w3_def [symmetric] w4_def [symmetric] by (rule refl)
  then show ?thesis
    using 4 frame_trans [OF 4 frame_write] by (cases ok) (simp_all add: frame_refl)
qed

lemma frame_publish: "rel w (snd (handle_publish d pub now w))"
  by (simp add: handle_publish_def Let_def frame_property_post frame_write frame_complete frame_inform frame_refl
      split: option.split)

lemma frame_handle: "rel w (snd (handle d pkt now w))"
proof -
  have "rel (on_reg (touch (ses_device d w) now) w) (snd (handle d pkt now w))"
    by (auto simp: handle_def Let_def case_prod_beta frame_refl frame_write frame_publish split: sum.split
        intro: frame_trans [OF frame_write frame_publish])
  with frame_touch show ?thesis by (rule frame_trans)
qed

lemma frame_serve: "rel w (snd (serve_packet wording d pkt now w))"
proof -
  obtain e w1 where h: "handle d pkt now w = (e, w1)" by fastforce
  then have q: "rel w w1" using frame_handle [of w pkt now] by simp
  show ?thesis
    using q frame_trans [OF q frame_emit] by (cases e) (simp_all add: serve_packet_def h)
qed

end

section \<open>What handlers leave alone\<close>

definition shape :: "'a world_scheme \<Rightarrow> nat \<Rightarrow> (string \<times> phase) option" where
  "shape w d = map_option (\<lambda>s. (device_name (ses_identity s), ses_phase s)) (w_sessions w d)"

definition links :: "registry \<Rightarrow> string \<Rightarrow> driver_id option option" where
  "links r i = map_option driver (lookup_bulb r i)"

text \<open>Which sessions there are, whose they are and where they stand, and which bulb has which connection.\<close>

definition quiet :: "'a world_scheme \<Rightarrow> 'a world_scheme \<Rightarrow> bool" where
  "quiet w w' \<longleftrightarrow> shape w' = shape w \<and> links (w_reg w') = links (w_reg w) \<and> (reg_ok (w_reg w) \<longrightarrow> reg_ok (w_reg w'))"

lemma quiet_refl [simp, intro]: "quiet w w"
  by (simp add: quiet_def)

lemma quiet_trans: "quiet w w1 \<Longrightarrow> quiet w1 w2 \<Longrightarrow> quiet w w2"
  by (simp add: quiet_def)

lemma quiet_fields:
  "w_sessions w' = w_sessions w \<Longrightarrow> w_reg w' = w_reg w \<Longrightarrow> quiet w w'"
  by (auto simp: quiet_def shape_def fun_eq_iff)

lemma quiet_upd: "(\<And>s. ses_identity (f s) = ses_identity s \<and> ses_phase (f s) = ses_phase s) \<Longrightarrow> quiet w (upd_session d f w)"
  by (auto simp: quiet_def shape_def upd_session_def fun_eq_iff option.map_comp comp_def)

lemma quiet_reg:
  "links r' = links (w_reg w) \<Longrightarrow> (reg_ok (w_reg w) \<Longrightarrow> reg_ok r') \<Longrightarrow> quiet w (w\<lparr>w_reg := r'\<rparr>)"
  by (auto simp: quiet_def shape_def fun_eq_iff)

lemma quiet_emit [simp]: "quiet w (emit e w)"
  by (simp add: quiet_fields emit_def)

lemma links_put: "links (put_bulb i b r) = (links r)(i := Some (driver b))"
  by (auto simp: links_def reg_simps)

lemma links_dirty [simp]: "links (mark_dirty r) = links r"
  by (simp add: links_def reg_simps fun_eq_iff)

lemma links_same: "lookup_bulb r i = Some e \<Longrightarrow> driver b = driver e \<Longrightarrow> links (put_bulb i b r) = links r"
  by (auto simp: links_put links_def)

text \<open>Only connections coming and going, and a first connection, change the links.\<close>

lemma links_op:
  "links (touch i now r) = links r" "links (set_firmware i v r) = links r"
  "links (snd (set_capabilities i caps r)) = links r" "links (snd (set_state i s now r)) = links r"
  "links (set_desired i s r) = links r"
  by (auto simp: reg_defs Let_def links_same split: option.splits if_splits)

lemma links_rename: "rename_bulb i name r = Inr (adopted', r') \<Longrightarrow> links r' = links r"
  by (auto simp: reg_defs Let_def links_same split: option.splits if_splits)

lemma reg_ok_ops:
  assumes "reg_ok r"
  shows "reg_ok (touch i now r)" "reg_ok (set_firmware i v r)" "reg_ok (snd (set_capabilities i caps r))"
    "reg_ok (snd (set_state i s now r))" "reg_ok (set_desired i s r)" "reg_ok (disconnect i d r)"
    "reg_ok (snd (upsert i addr caps now r))" "reg_ok (snd (set_driver i d r))"
  using reg_ok_op [OF assms, of "OpTouch i now"] reg_ok_op [OF assms, of "OpSetFirmware i v"]
    reg_ok_op [OF assms, of "OpSetCapabilities i caps"] reg_ok_op [OF assms, of "OpSetState i s now"]
    reg_ok_op [OF assms, of "OpSetDesired i s"] reg_ok_op [OF assms, of "OpDisconnect i d"]
    reg_ok_op [OF assms, of "OpUpsert i addr caps now"] reg_ok_op [OF assms, of "OpSetDriver i d"]
  by simp_all

lemma reg_ok_rename: "reg_ok r \<Longrightarrow> rename_bulb i name r = Inr (adopted', r') \<Longrightarrow> reg_ok r'"
  using reg_ok_op [of r "OpRename i name"] by simp

lemma quiet_write: "quiet w (snd (ses_write d p w))"
  by (simp add: ses_write_def quiet_fields)

lemma quiet_deliver: "quiet w (deliver c e w)"
  by (auto simp: deliver_def quiet_fields split: option.split)

lemma quiet_complete: "quiet w (complete_command d r w)" "quiet w (complete_by_seq d sq w)"
  by (auto simp: complete_command_def complete_by_seq_def quiet_deliver split: option.split)

lemma quiet_on_reg:
  "(\<And>r. links (f r) = links r) \<Longrightarrow> (\<And>r. reg_ok r \<Longrightarrow> reg_ok (f r)) \<Longrightarrow> quiet w (on_reg f w)"
  by (simp add: on_reg_def quiet_reg)

interpretation calm: handler_frame d quiet for d
  by unfold_locales
    (simp_all add: quiet_upd quiet_write quiet_deliver quiet_on_reg quiet_reg links_op reg_ok_ops, rule quiet_trans)

lemma quiet_close: "quiet w (ses_close d w)"
  by (simp add: ses_close_def quiet_upd)

lemma quiet_forget: "quiet w (forget_command d i sq w)"
  unfolding forget_command_def by (rule quiet_upd) simp

lemma quiet_send: "quiet w (snd (send_command d name prop now w))"
proof -
  obtain payload sq where e: "encode_command (property_map prop) now = (payload, sq)" by fastforce
  show ?thesis
  proof (cases "command_id_of payload")
    case None
    then show ?thesis by (simp add: send_command_def e)
  next
    case (Some i)
    define w1 where "w1 = w\<lparr>w_next := w_next w + 1,
      w_commands := (w_commands w)(w_next w \<mapsto> \<lparr>cmd_id = i, cmd_seq = sq, cmd_done = None\<rparr>)\<rparr>"
    define w2 where "w2 = upd_session d (\<lambda>s. s\<lparr>ses_pending := (ses_pending s)(i \<mapsto> w_next w), ses_pending_seq := (ses_pending_seq s)(sq \<mapsto> w_next w)\<rparr>) w1"
    have 1: "quiet w w1" by (rule quiet_fields) (simp_all add: w1_def)
    have 2: "quiet w1 w2" unfolding w2_def by (rule quiet_upd) simp
    have 3: "quiet w (snd (ses_write d p w2))" for p
      by (rule quiet_trans [OF quiet_trans [OF 1 2] quiet_write])
    obtain err w3 where wr: "ses_write d (encode_publish (common_service (ses_identity (session_of d w2))) (bytes_of payload)) w2 = (err, w3)"
      by fastforce
    have "snd (send_command d name prop now w) =
        (if ses_closed (session_of d w) then w else if err = None then w3 else forget_command d i sq w3)"
      unfolding send_command_def e prod.case Some option.case Let_def w1_def [symmetric] w2_def [symmetric] wr
      by (cases err) simp_all
    moreover have "quiet w w3" using 3 wr by (metis snd_conv)
    ultimately show ?thesis using quiet_trans [OF _ quiet_forget] by auto
  qed
qed

lemma quiet_rejection: "quiet w (report_rejection clock d now w)"
proof -
  have n: "quiet w (snd (note_rejection i now w))" for i
    by (auto simp: note_rejection_def Let_def quiet_fields split: option.split)
  then show ?thesis
    by (auto simp: report_rejection_def Let_def case_prod_beta intro: quiet_trans [OF n quiet_emit])
qed

lemma quiet_disconnect_report: "quiet w (report_disconnect show_span d err now w)"
  by (simp add: report_disconnect_def Let_def)

section \<open>The invariant\<close>

definition admits :: "(string \<Rightarrow> bool) option \<Rightarrow> string \<Rightarrow> bool" where
  "admits admit i \<longleftrightarrow> (case admit of None \<Rightarrow> True | Some ok \<Rightarrow> ok i)"

definition enrolled :: "phase \<Rightarrow> bool" where
  "enrolled p \<longleftrightarrow> (\<exists>n. p = Upserted n) \<or> p = Serving \<or> p = Ending"

definition srv_inv :: "(string \<Rightarrow> bool) option \<Rightarrow> (string \<Rightarrow> bool) \<Rightarrow> 'a world_scheme \<Rightarrow> bool" where
  "srv_inv admit known w \<longleftrightarrow> reg_ok (w_reg w) \<and>
     (\<forall>i d. links (w_reg w) i = Some (Some d) \<longrightarrow> (\<exists>p. shape w d = Some (i, p) \<and> (p = Serving \<or> p = Ending))) \<and>
     (\<forall>d i p. shape w d = Some (i, p) \<longrightarrow> (p = Admitted \<or> enrolled p \<longrightarrow> admits admit i) \<and>
        (enrolled p \<longrightarrow> links (w_reg w) i \<noteq> None)) \<and>
     (\<forall>i. links (w_reg w) i \<noteq> None \<longrightarrow> known i \<or> admits admit i)"

lemma srv_inv_quiet: "srv_inv admit known w \<Longrightarrow> quiet w w' \<Longrightarrow> srv_inv admit known w'"
  by (simp add: srv_inv_def quiet_def)

lemmas srv_invD = srv_inv_def [THEN iffD1]

lemma srv_inv_session:
  "srv_inv admit known w \<Longrightarrow> shape w d = Some (i, p) \<Longrightarrow>
    (p = Admitted \<or> enrolled p \<longrightarrow> admits admit i) \<and> (enrolled p \<longrightarrow> links (w_reg w) i \<noteq> None)"
  unfolding srv_inv_def by blast

lemma srv_inv_link:
  "srv_inv admit known w \<Longrightarrow> links (w_reg w) i = Some (Some d) \<Longrightarrow> \<exists>p. shape w d = Some (i, p) \<and> (p = Serving \<or> p = Ending)"
  unfolding srv_inv_def by blast

lemma srv_inv_ids: "srv_inv admit known w \<Longrightarrow> links (w_reg w) i \<noteq> None \<Longrightarrow> known i \<or> admits admit i"
  unfolding srv_inv_def by blast

lemma srv_inv_reg: "srv_inv admit known w \<Longrightarrow> reg_ok (w_reg w)"
  unfolding srv_inv_def by blast

text \<open>One session moves on, with whatever it does to the links.\<close>

lemma srv_inv_update:
  assumes inv: "srv_inv admit known w" and sh: "shape w' = (shape w)(d \<mapsto> (i, p))" and "reg_ok (w_reg w')"
    and held: "\<And>j e. links (w_reg w') j = Some (Some e) \<Longrightarrow>
      e \<noteq> d \<and> links (w_reg w) j = Some (Some e) \<or> e = d \<and> j = i \<and> (p = Serving \<or> p = Ending)"
    and kept: "\<And>j. links (w_reg w) j \<noteq> None \<Longrightarrow> links (w_reg w') j \<noteq> None"
    and new: "\<And>j. links (w_reg w') j \<noteq> None \<Longrightarrow> links (w_reg w) j \<noteq> None \<or> j = i \<and> admits admit i"
    and "p = Admitted \<or> enrolled p \<Longrightarrow> admits admit i" "enrolled p \<Longrightarrow> links (w_reg w') i \<noteq> None"
  shows "srv_inv admit known w'"
proof -
  have 1: "\<exists>q. shape w' e = Some (j, q) \<and> (q = Serving \<or> q = Ending)" if "links (w_reg w') j = Some (Some e)" for j e
  proof (cases "e = d")
    case True
    then show ?thesis using held [OF that] by (simp add: sh)
  next
    case False
    then show ?thesis using held [OF that] srv_inv_link [OF inv, of j e] by (simp add: sh)
  qed
  have 2: "(q = Admitted \<or> enrolled q \<longrightarrow> admits admit j) \<and> (enrolled q \<longrightarrow> links (w_reg w') j \<noteq> None)"
    if "shape w' e = Some (j, q)" for e j q
  proof (cases "e = d")
    case True
    then have "j = i" "q = p" using that by (simp_all add: sh)
    then show ?thesis using assms(7,8) by blast
  next
    case False
    then have "shape w e = Some (j, q)" using that by (simp add: sh)
    from srv_inv_session [OF inv this] show ?thesis using kept by blast
  qed
  have 3: "known j \<or> admits admit j" if "links (w_reg w') j \<noteq> None" for j
    using new [OF that] srv_inv_ids [OF inv] by blast
  show ?thesis using assms(3) 1 2 3 unfolding srv_inv_def by blast
qed

text \<open>A session that holds no bulb moves on.\<close>

lemma srv_inv_move:
  assumes "srv_inv admit known w" "shape w' = (shape w)(d \<mapsto> (i, p))" "w_reg w' = w_reg w"
    "\<And>j. links (w_reg w) j \<noteq> Some (Some d)"
    "p = Admitted \<or> enrolled p \<Longrightarrow> admits admit i" "enrolled p \<Longrightarrow> links (w_reg w) i \<noteq> None"
  shows "srv_inv admit known w'"
  using assms(1,2)
proof (rule srv_inv_update)
  show "e \<noteq> d \<and> links (w_reg w) j = Some (Some e) \<or> e = d \<and> j = i \<and> (p = Serving \<or> p = Ending)"
    if "links (w_reg w') j = Some (Some e)" for j e
    using that assms(4) [of j] unfolding assms(3) by (cases "e = d") simp_all
qed (use assms(3,5,6) srv_inv_reg [OF assms(1)] in simp_all)

lemma srv_inv_no_link:
  "srv_inv admit known w \<Longrightarrow> shape w d = Some (i, p) \<Longrightarrow> p \<noteq> Serving \<Longrightarrow> p \<noteq> Ending \<Longrightarrow> links (w_reg w) j \<noteq> Some (Some d)"
  unfolding srv_inv_def by (metis option.inject prod.inject)

lemma shape_upd:
  "shape (upd_session d f w) =
    (\<lambda>e. if e = d then map_option (\<lambda>s. (device_name (ses_identity (f s)), ses_phase (f s))) (w_sessions w d) else shape w e)"
  by (auto simp: shape_def upd_session_def option.map_comp comp_def fun_eq_iff)

lemma shape_phase:
  "shape (set_phase d p w) = (\<lambda>e. if e = d then map_option (\<lambda>(i, _). (i, p)) (shape w d) else shape w e)"
  unfolding set_phase_def shape_upd by (simp add: shape_def fun_eq_iff option.map_comp comp_def)

lemma shape_set_phase:
  "shape w d = Some (i, q) \<Longrightarrow> shape (set_phase d p w) = (shape w)(d \<mapsto> (i, p))"
  by (auto simp: shape_phase)

lemma w_reg_phase [simp]: "w_reg (set_phase d p w) = w_reg w" "w_reg (upd_session d f w) = w_reg w"
  by (simp_all add: set_phase_def upd_session_def)

lemma shape_some: "w_sessions w d = Some s \<Longrightarrow> shape w d = Some (device_name (ses_identity s), ses_phase s)"
  by (simp add: shape_def)

lemma handshake_shape:
  assumes "handshake admit d pkt w = (e, w1)" "w_sessions w d = Some s" "ses_phase s = Handshaking"
  shows "w_reg w1 = w_reg w \<and> (\<exists>i. shape w1 = (shape w)(d \<mapsto> (i, Handshaking)) \<and> (e = None \<longrightarrow> admits admit i))"
proof -
  have same: "shape w = (shape w)(d \<mapsto> (device_name (ses_identity s), Handshaking))"
    using assms(2,3) by (auto simp: shape_def fun_eq_iff)
  have wr: "shape (snd (ses_write d p w)) = shape w" "w_reg (snd (ses_write d p w)) = w_reg w" for p and w :: "'a world_scheme"
    by (auto simp: ses_write_def shape_def fun_eq_iff)
  have up: "shape (upd_session d (\<lambda>s. s\<lparr>ses_identity := i, ses_keep_alive := k s\<rparr>) w) = (shape w)(d \<mapsto> (device_name i, Handshaking))" for i k
    using assms(2,3) by (auto simp: shape_upd fun_eq_iff)
  show ?thesis
  proof (cases "ptype pkt \<noteq> type_connect")
    case True
    then show ?thesis using assms(1) same by (auto simp: handshake_def)
  next
    case c: False
    show ?thesis
    proof (cases "decode_connect (pbody pkt)")
      case (Inl e')
      then show ?thesis using assms(1) same c by (auto simp: handshake_def)
    next
      case (Inr con)
      show ?thesis
      proof (cases "identity_from_connect con")
        case None
        then show ?thesis using assms(1) same c Inr by (auto simp: handshake_def)
      next
        case (Some i)
        define w' where "w' = upd_session d (\<lambda>s. s\<lparr>ses_identity := i,
          ses_keep_alive := if 0 < keep_alive con then uint (keep_alive con) * second else ses_keep_alive s\<rparr>) w"
        have w': "shape w' = (shape w)(d \<mapsto> (device_name i, Handshaking))" "w_reg w' = w_reg w"
          unfolding w'_def by (rule up) simp
        have "(e, w1) = (if (case admit of None \<Rightarrow> False | Some ok \<Rightarrow> \<not> ok (device_name i))
              then (Some SNotConfigured, snd (ses_write d connack_refused_not_authorized w'))
              else ses_write d connack_accepted w')"
          using assms(1) c Inr Some by (simp add: handshake_def Let_def flip: w'_def)
        then show ?thesis
          using w' wr [of _ w'] by (auto simp: admits_def split: if_splits option.splits) (metis snd_conv)+
      qed
    qed
  qed
qed

text \<open>One lemma per kind of step that is not quiet.\<close>

lemma ses_device_shape: "shape w d = Some (i, p) \<Longrightarrow> ses_device d w = i"
  by (auto simp: shape_def ses_device_def session_of_def identity_device_id_def)

lemma shape_reg [simp]: "shape (w\<lparr>w_reg := r\<rparr>) = shape w"
  by (simp add: shape_def fun_eq_iff)

lemma srv_inv_fresh: "srv_inv admit known w \<Longrightarrow> shape w d = None \<Longrightarrow> links (w_reg w) j \<noteq> Some (Some d)"
  unfolding srv_inv_def by fastforce

lemma srv_inv_accept:
  assumes "srv_inv admit known w" "w_sessions w d = None"
  shows "srv_inv admit known (w\<lparr>w_sessions := (w_sessions w)(d \<mapsto> new_session addr)\<rparr>)" (is "srv_inv _ _ ?w'")
proof (rule srv_inv_move [OF assms(1), where d = d and i = "[]" and p = Handshaking])
  show "shape ?w' = (shape w)(d \<mapsto> ([], Handshaking))"
    by (auto simp: shape_def new_session_def fun_eq_iff)
  show "links (w_reg w) j \<noteq> Some (Some d)" for j
    using srv_inv_fresh [OF assms(1)] assms(2) by (simp add: shape_def)
qed (simp_all add: enrolled_def)

lemma srv_inv_handshake:
  assumes "srv_inv admit known w" "handshake admit d pkt w = (e, w1)" "w_sessions w d = Some s" "ses_phase s = Handshaking"
    "p = Gone \<or> p = Admitted \<and> e = None"
  shows "srv_inv admit known (set_phase d p w1)"
proof -
  obtain i where i: "w_reg w1 = w_reg w" "shape w1 = (shape w)(d \<mapsto> (i, Handshaking))" "e = None \<longrightarrow> admits admit i"
    using handshake_shape [OF assms(2-4)] by blast
  show ?thesis
  proof (rule srv_inv_move [OF assms(1), where d = d and i = i and p = p])
    show "shape (set_phase d p w1) = (shape w)(d \<mapsto> (i, p))"
      using shape_set_phase [of w1 d i Handshaking p] i(2) by simp
    show "links (w_reg w) j \<noteq> Some (Some d)" for j
      using srv_inv_no_link [OF assms(1) shape_some [OF assms(3)]] assms(4) by simp
  qed (use i assms(5) in \<open>auto simp: enrolled_def\<close>)
qed

text \<open>Reports made after the handshake change nothing the invariant is about.\<close>

lemma quiet_set_phase: "quiet w1 w2 \<Longrightarrow> quiet (set_phase d p w1) (set_phase d p w2)"
  unfolding quiet_def shape_phase w_reg_phase by metis

lemma links_upsert:
  "links (snd (upsert i addr caps now r)) = (if links r i = None then (links r)(i \<mapsto> None) else links r)"
  by (auto simp: upsert_def Let_def links_put links_same links_def reg_simps zero_bulb_def fun_eq_iff split: option.split)

lemma links_set_driver:
  "links (snd (set_driver i d r)) = (if links r i = None then links r else (links r)(i \<mapsto> d))"
  by (auto simp: set_driver_def Let_def links_put links_def reg_simps fun_eq_iff split: option.split)

lemma links_disconnect:
  "links (disconnect i (Some d) r) = (if links r i = Some (Some d) then (links r)(i \<mapsto> None) else links r)"
  by (auto simp: disconnect_def Let_def links_put links_def reg_simps fun_eq_iff split: option.split)

lemma srv_inv_enrol:
  assumes "srv_inv admit known w" "shape w d = Some (i, Admitted)" "register_entry d now w = (new, w1)"
  shows "srv_inv admit known (set_phase d (Upserted new) w1)"
proof -
  have reg: "w_reg w1 = snd (upsert i (ses_remote (session_of d w)) (capabilities_from_version []) now (w_reg w))"
    and sh: "shape w1 = shape w"
    using assms(3) by (auto simp: register_entry_def case_prod_beta Let_def ses_device_shape [OF assms(2)])
  have "srv_inv admit known w1"
    using assms(1,2) reg_ok_ops(7) unfolding srv_inv_def sh reg links_upsert
    by (auto split: if_splits)
  then show ?thesis
  proof (rule srv_inv_move [where d = d and i = i])
    show "shape (set_phase d (Upserted new) w1) = (shape w1)(d \<mapsto> (i, Upserted new))"
      by (rule shape_set_phase) (simp add: sh assms(2))
    show "links (w_reg w1) j \<noteq> Some (Some d)" for j
      using srv_inv_no_link [OF \<open>srv_inv admit known w1\<close>] assms(2) sh by simp
    show "admits admit i" using assms(1,2) unfolding srv_inv_def by blast
    show "links (w_reg w1) i \<noteq> None" unfolding reg links_upsert by simp
  qed simp
qed

lemma shape_emit [simp]: "shape (emit e w) = shape w" "w_reg (emit e w) = w_reg w"
  by (simp_all add: emit_def shape_def fun_eq_iff)

lemma note_takeover_keeps [simp]:
  "shape (snd (note_takeover i now w)) = shape w" "w_reg (snd (note_takeover i now w)) = w_reg w"
  by (simp_all add: note_takeover_def Let_def shape_def fun_eq_iff)

lemma register_driver_keeps:
  assumes "register_driver d new now w = (displaced, w1)"
  shows "shape w1 = shape w \<and> w_reg w1 = snd (set_driver (ses_device d w) (Some d) (w_reg w))"
proof -
  obtain prev r where sd: "set_driver (ses_device d w) (Some d) (w_reg w) = (prev, r)" by fastforce
  show ?thesis
    using assms unfolding register_driver_def sd Let_def prod.case
    by (auto simp: case_prod_beta split: if_splits)
qed

lemma srv_inv_attach:
  assumes inv: "srv_inv admit known w" and sh: "shape w d = Some (i, Upserted new)"
    and r: "register_driver d new now w = (displaced, w1)"
  shows "srv_inv admit known (set_phase d Serving w1)"
proof -
  have k: "shape w1 = shape w" "w_reg w1 = snd (set_driver i (Some d) (w_reg w))"
    using register_driver_keeps [OF r] ses_device_shape [OF sh] by auto
  have li: "links (w_reg w) i \<noteq> None" "admits admit i"
    using inv sh unfolding srv_inv_def enrolled_def by blast+
  have l: "links (w_reg w1) = (links (w_reg w))(i \<mapsto> Some d)"
    using li(1) unfolding k links_set_driver by argo
  have s: "shape (set_phase d Serving w1) = (shape w)(d \<mapsto> (i, Serving))"
    using shape_set_phase [of w1 d i "Upserted new"] sh by (simp add: k)
  show ?thesis
    using inv s
  proof (rule srv_inv_update)
    show "e \<noteq> d \<and> links (w_reg w) j = Some (Some e) \<or> e = d \<and> j = i \<and> (Serving = Serving \<or> Serving = Ending)"
      if "links (w_reg (set_phase d Serving w1)) j = Some (Some e)" for j e
      using that srv_inv_no_link [OF inv sh, of j] unfolding w_reg_phase l by (cases "j = i"; cases "e = d") simp_all
  qed (use l li srv_inv_reg [OF inv] in \<open>simp_all add: k reg_ok_ops split: if_splits\<close>)
qed

lemma srv_inv_ending:
  assumes inv: "srv_inv admit known w" and sh: "shape w d = Some (i, Serving)"
  shows "srv_inv admit known (set_phase d Ending w)"
proof -
  have s: "shape (set_phase d Ending w) = (shape w)(d \<mapsto> (i, Ending))"
    by (rule shape_set_phase [OF sh])
  show ?thesis
    using inv s
  proof (rule srv_inv_update)
    show "e \<noteq> d \<and> links (w_reg w) j = Some (Some e) \<or> e = d \<and> j = i \<and> (Ending = Serving \<or> Ending = Ending)"
      if "links (w_reg (set_phase d Ending w)) j = Some (Some e)" for j e
      using that srv_inv_link [OF inv, of j d] sh unfolding w_reg_phase by (cases "e = d") auto
  qed (use srv_inv_session [OF inv sh] srv_inv_reg [OF inv] in \<open>auto simp: enrolled_def\<close>)
qed

lemma srv_inv_teardown:
  assumes inv: "srv_inv admit known w" and sh: "shape w d = Some (i, Ending)"
  shows "srv_inv admit known (set_phase d Gone (upd_session d (\<lambda>s. s\<lparr>ses_up := False\<rparr>) (on_reg (disconnect i (Some d)) w)))"
    (is "srv_inv _ _ ?w'")
proof -
  have up: "shape (upd_session d (\<lambda>s. s\<lparr>ses_up := False\<rparr>) (on_reg f w)) = shape w" for f
    by (simp add: shape_upd on_reg_def fun_eq_iff) (simp add: shape_def)
  have s: "shape ?w' = (shape w)(d \<mapsto> (i, Gone))"
    using shape_set_phase [of "upd_session d (\<lambda>s. s\<lparr>ses_up := False\<rparr>) (on_reg (disconnect i (Some d)) w)" d i Ending Gone] sh
    by (simp add: up)
  have r: "w_reg ?w' = disconnect i (Some d) (w_reg w)" by (simp add: on_reg_def)
  have mine: "j = i" if "links (w_reg w) j = Some (Some d)" for j
    using srv_inv_link [OF inv that] sh by auto
  have held: "e \<noteq> d \<and> links (w_reg w) j = Some (Some e)" if "links (w_reg ?w') j = Some (Some e)" for j e
  proof -
    have "links (w_reg ?w') j = (if j = i \<and> links (w_reg w) i = Some (Some d) then Some None else links (w_reg w) j)"
      unfolding r links_disconnect by simp
    with that have "links (w_reg w) j = Some (Some e)" "\<not> (j = i \<and> links (w_reg w) i = Some (Some d))"
      by (metis option.distinct(1) option.inject)+
    then show ?thesis using mine [of j] by blast
  qed
  have n: "links (w_reg ?w') j = None \<longleftrightarrow> links (w_reg w) j = None" for j
    unfolding r links_disconnect by auto
  have ok: "reg_ok (w_reg ?w')" unfolding r by (rule reg_ok_ops(6) [OF srv_inv_reg [OF inv]])
  show ?thesis
  proof (rule srv_inv_update [OF inv s ok])
    show "e \<noteq> d \<and> links (w_reg w) j = Some (Some e) \<or> e = d \<and> j = i \<and> (Gone = Serving \<or> Gone = Ending)"
      if "links (w_reg ?w') j = Some (Some e)" for j e
      using held [OF that] by blast
    show "links (w_reg w) j \<noteq> None \<Longrightarrow> links (w_reg ?w') j \<noteq> None" for j unfolding n .
    show "links (w_reg ?w') j \<noteq> None \<Longrightarrow> links (w_reg w) j \<noteq> None \<or> j = i \<and> admits admit i" for j unfolding n by (rule disjI1)
  qed (simp_all add: enrolled_def)
qed

text \<open>Every step keeps it.\<close>

lemma srv_inv_step: "srv_step admit w w' \<Longrightarrow> srv_inv admit known w \<Longrightarrow> srv_inv admit known w'"
proof (induction rule: srv_step.induct)
  case (accept w d addr)
  then show ?case by (rule srv_inv_accept [rotated])
next
  case (greet w d s pkt w1)
  show ?case by (rule srv_inv_handshake [OF greet(4,3,1,2)]) simp
next
  case (refuse w d s pkt w1 clock now)
  have "srv_inv admit known (set_phase d Gone w1)" by (rule srv_inv_handshake [OF refuse(4,3,1,2)]) simp
  then show ?case by (rule srv_inv_quiet) (rule quiet_set_phase [OF quiet_rejection])
next
  case (reject w d s pkt e w1 now detail)
  have "srv_inv admit known (set_phase d Gone w1)" by (rule srv_inv_handshake [OF reject(5,3,1,2)]) simp
  then show ?case by (rule srv_inv_quiet) (rule quiet_set_phase [OF quiet_emit])
next
  case (unread w d s now detail)
  have "srv_inv admit known (set_phase d Gone w)"
  proof (rule srv_inv_move [OF unread(3)])
    show "shape (set_phase d Gone w) = (shape w)(d \<mapsto> (device_name (ses_identity s), Gone))"
      by (rule shape_set_phase) (rule shape_some [OF unread(1)])
    show "links (w_reg w) j \<noteq> Some (Some d)" for j
      using srv_inv_no_link [OF unread(3) shape_some [OF unread(1)]] unread(2) by simp
  qed (simp_all add: enrolled_def)
  then show ?case by (rule srv_inv_quiet) (rule quiet_set_phase [OF quiet_emit])
next
  case (enrol w d s now new w1)
  show ?case by (rule srv_inv_enrol [OF enrol(4) _ enrol(3)]) (simp add: shape_some [OF enrol(1)] enrol(2))
next
  case (attach w d s new now displaced w1)
  show ?case by (rule srv_inv_attach [OF attach(4) _ attach(3)]) (simp add: shape_some [OF attach(1)] attach(2))
next
  case (packet w d s wording pkt now go_on w1)
  have q: "quiet w w1" using calm.frame_serve [of w wording d pkt now] packet(3) by simp
  have "shape w1 d = shape w d" using q by (simp add: quiet_def)
  then show ?case
    using srv_inv_quiet [OF packet(4) q] shape_some [OF packet(1)] packet(2) by (auto intro: srv_inv_ending)
next
  case (read_error w d s show_span err now)
  have "shape (report_disconnect show_span d err now w) = shape w"
    using quiet_disconnect_report [of w show_span d err now] by (simp add: quiet_def)
  then show ?case
    using srv_inv_quiet [OF read_error(3) quiet_disconnect_report] shape_some [OF read_error(1)] read_error(2)
    by (auto intro: srv_inv_ending)
next
  case (undeadlined w d s)
  then show ?case using shape_some [OF undeadlined(1)] by (auto intro: srv_inv_ending)
next
  case (teardown w d s)
  have "shape w d = Some (ses_device d w, Ending)"
    using shape_some [OF teardown(1)] ses_device_shape teardown(2) by metis
  then show ?case by (rule srv_inv_teardown [OF teardown(3)])
next
  case (closing w d)
  then show ?case by (rule srv_inv_quiet) (rule quiet_close)
next
  case (breaking w d)
  then show ?case by (rule srv_inv_quiet) (rule quiet_upd, simp)
next
  case (renaming i name now w adopted' e r')
  then obtain b where rb: "rename_bulb i name (w_reg w) = Inr (b, r')"
    by (cases "rename_bulb i name (w_reg w)") (auto simp: rename_lamp_def)
  have "quiet w (w\<lparr>w_reg := r'\<rparr>)" by (rule quiet_reg) (use links_rename [OF rb] reg_ok_rename [OF _ rb] in auto)
  then show ?case using srv_inv_quiet [OF renaming(2)] quiet_trans [OF _ quiet_emit] by blast
next
  case (desiring w i want)
  then show ?case by (rule srv_inv_quiet) (rule quiet_on_reg, simp_all add: links_op reg_ok_ops)
next
  case (sending d name pr now w res w1)
  then show ?case using quiet_send [of w d name pr now] srv_inv_quiet by (metis snd_conv)
next
  case (forgetting w d i sq)
  then show ?case by (rule srv_inv_quiet) (rule quiet_forget)
qed

text \<open>Start: no connection yet, and a registry that holds the bulbs loaded and declared (\<open>known\<close>).\<close>

definition srv_start :: "(string \<Rightarrow> bool) \<Rightarrow> 'a world_scheme \<Rightarrow> bool" where
  "srv_start known w \<longleftrightarrow> w_sessions w = Map.empty \<and> reg_ok (w_reg w) \<and>
     (\<forall>i d. links (w_reg w) i \<noteq> Some (Some d)) \<and> (\<forall>i. links (w_reg w) i \<noteq> None \<longrightarrow> known i)"

lemma srv_inv_start: "srv_start known w \<Longrightarrow> srv_inv admit known w"
  by (auto simp: srv_start_def srv_inv_def shape_def)

interpretation server: invariant_system "srv_start known" "srv_step admit" "srv_inv admit known" for known admit
  by unfold_locales (blast intro: srv_inv_start srv_inv_step)+

lemma driver_of_links: "driver_of i r = Some d \<longleftrightarrow> links r i = Some (Some d)"
  by (simp add: driver_of_def links_def split: option.split)

section \<open>Windows\<close>

text \<open>The rejections of one device in a row, with what each call to \<open>note\<close> answered.\<close>

fun note_all :: "string \<Rightarrow> time list \<Rightarrow> 'a world_scheme \<Rightarrow> (bool \<times> nat \<times> time) list \<times> 'a world_scheme" where
  "note_all i [] w = ([], w)"
| "note_all i (t # ts) w =
     (let (r, w1) = note_rejection i t w; (rs, w2) = note_all i ts w1 in (r # rs, w2))"

definition unreported :: "string \<Rightarrow> 'a world_scheme \<Rightarrow> nat" where
  "unreported i w = (case w_rejects w i of None \<Rightarrow> 0 | Some r \<Rightarrow> rej_suppressed r)"

definition attempts_told :: "bool \<times> nat \<times> time \<Rightarrow> nat" where
  "attempts_told r = (if fst r then 1 + fst (snd r) else 0)"

lemma note_rejection_accounts:
  "note_rejection i t w = (r, w1) \<Longrightarrow> attempts_told r + unreported i w1 = 1 + unreported i w"
  by (auto simp: note_rejection_def unreported_def attempts_told_def Let_def split: option.splits if_splits)

lemma note_all_accounts:
  "note_all i ts w = (rs, w1) \<Longrightarrow> sum_list (map attempts_told rs) + unreported i w1 = length ts + unreported i w"
proof (induction ts arbitrary: w rs w1)
  case (Cons t ts)
  obtain r w' where r: "note_rejection i t w = (r, w')" by (cases "note_rejection i t w")
  obtain rs' w2 where rs: "note_all i ts w' = (rs', w2)" by (cases "note_all i ts w'")
  show ?case using Cons.prems Cons.IH [OF rs] note_rejection_accounts [OF r] by (auto simp: r rs)
qed simp

text \<open>When a report is due: the first time, and then once the window has passed.\<close>

definition last_report :: "string \<Rightarrow> 'a world_scheme \<Rightarrow> time option" where
  "last_report i w = map_option rej_reported_at (w_rejects w i)"

definition reported :: "time list \<Rightarrow> (bool \<times> nat \<times> time) list \<Rightarrow> time list" where
  "reported ts rs = map fst (filter (\<lambda>(t, r). fst r) (zip ts rs))"

fun due :: "time option \<Rightarrow> time list \<Rightarrow> bool list" where
  "due l [] = []"
| "due None (t # ts) = True # due (Some t) ts"
| "due (Some l) (t # ts) = (if t - l < rejection_window then False # due (Some l) ts else True # due (Some t) ts)"

lemma note_all_due: "map fst (fst (note_all i ts w)) = due (last_report i w) ts"
proof (induction ts arbitrary: w)
  case (Cons t ts)
  obtain r w' where r: "note_rejection i t w = (r, w')" by (cases "note_rejection i t w")
  then have "due (last_report i w) (t # ts) = fst r # due (last_report i w') ts"
    by (auto simp: note_rejection_def last_report_def Let_def split: option.splits if_splits)
  then show ?case using Cons.IH [of w'] by (simp add: r case_prod_beta)
qed simp

text \<open>The takeovers of one device in a row, and the warnings raised.\<close>

fun takeovers :: "string \<Rightarrow> time list \<Rightarrow> 'a world_scheme \<Rightarrow> bool list \<times> 'a world_scheme" where
  "takeovers i [] w = ([], w)"
| "takeovers i (t # ts) w = (let (b, w1) = note_takeover i t w; (bs, w2) = takeovers i ts w1 in (b # bs, w2))"

definition recent :: "time \<Rightarrow> time list \<Rightarrow> time list" where
  "recent now ts = filter (\<lambda>t. now - t < takeover_window) ts"

lemma recent_recent: "t \<le> now \<Longrightarrow> recent now (recent t ts) = recent now ts"
  by (auto simp: recent_def intro: filter_cong)

lemma recent_append [simp]: "recent now (ts @ us) = recent now ts @ recent now us"
  by (simp add: recent_def)

text \<open>Pruning the record loses no takeover that a later warning would count.\<close>

lemma takeovers_all:
  assumes "(case w_takeovers w i of None \<Rightarrow> [] | Some l \<Rightarrow> l) = recent now old" "sorted (now # ts)"
  shows "fst (takeovers i ts w) = map (\<lambda>n. takeover_threshold \<le> length (recent (ts ! n) (old @ take (Suc n) ts))) [0..<length ts]"
  using assms
proof (induction ts arbitrary: w now old)
  case (Cons t ts)
  have now: "now \<le> t" using Cons.prems(2) by simp
  have self: "recent t [t] = [t]" by (simp add: recent_def takeover_window_def second_def)
  obtain b w1 where b: "note_takeover i t w = (b, w1)" by (cases "note_takeover i t w")
  have kept: "filter (\<lambda>x. t - x < takeover_window) (recent now old) @ [t] = recent t (old @ [t])"
    using recent_recent [OF now, of old] self by (simp add: recent_def)
  have b': "b = (takeover_threshold \<le> length (recent t (old @ [t])))" "(case w_takeovers w1 i of None \<Rightarrow> [] | Some l \<Rightarrow> l) = recent t (old @ [t])"
    using b kept Cons.prems(1) by (auto simp: note_takeover_def Let_def)
  have s: "sorted (t # ts)" using Cons.prems(2) by simp
  show ?case
    unfolding takeovers.simps b Let_def prod.case length_Cons upt_conv_Cons [OF zero_less_Suc] list.map
    by (simp add: case_prod_beta Cons.IH [OF b'(2) s] b'(1) map_Suc_upt [symmetric] del: upt_Suc)
qed simp


definition idle_world :: world where
  "idle_world = \<lparr>w_reg = new_registry, w_sessions = Map.empty, w_commands = Map.empty, w_next = 0,
     w_takeovers = Map.empty, w_rejects = Map.empty, w_events = [], w_sent = []\<rparr>"

definition demo_hello :: packet where
  "demo_hello = \<lparr>ptype = type_connect, pflags = 0,
     pbody = connect_body \<lparr>o_client_id = ''p.lamp'', o_keep_alive = 60, o_username = ''lamp&p'', o_password = [],
       o_will_topic = [], o_will_payload = [], o_will_retain = False, o_will_qos = 0, o_clean_session = False\<rparr>\<rparr>"

text \<open>A bulb connects, says hello and is registered.\<close>

fun demo_run :: "world \<Rightarrow> bool \<Rightarrow> nat \<Rightarrow> world" where
  "demo_run w0 new 0 = w0"
| "demo_run w0 new (Suc n) =
     (let w = demo_run w0 new n
      in if n = 0 then w\<lparr>w_sessions := (w_sessions w)(0 \<mapsto> new_session ''10.0.0.7'')\<rparr>
         else if n = 1 then set_phase 0 Admitted (snd (handshake (Some (\<lambda>i. i = ''lamp'')) 0 demo_hello w))
         else if n = 2 then set_phase 0 (Upserted new) (snd (register_entry 0 1 w))
         else set_phase 0 Serving (snd (register_driver 0 new 1 w)))"

lemma demo_run_reachable:
  assumes "start w0" "w_sessions w0 0 = None"
    "fst (handshake (Some (\<lambda>i. i = ''lamp'')) 0 demo_hello (demo_run w0 new 1)) = None"
    "fst (register_entry 0 1 (demo_run w0 new 2)) = new"
    "map_option ses_phase (w_sessions (demo_run w0 new 1) 0) = Some Handshaking"
    "map_option ses_phase (w_sessions (demo_run w0 new 2) 0) = Some Admitted"
    "map_option ses_phase (w_sessions (demo_run w0 new 3) 0) = Some (Upserted new)"
  shows "reachable start (srv_step (Some (\<lambda>i. i = ''lamp''))) (demo_run w0 new 4)"
proof -
  let ?w = "demo_run w0 new" and ?ok = "Some (\<lambda>i. i = ''lamp'')"
  note steps = reach_step [where start = start and step = "srv_step ?ok"]
  have 0: "reachable start (srv_step ?ok) (?w 0)" using assms(1) by (simp add: reach_start)
  have 1: "srv_step ?ok (?w 0) (?w 1)" using srv_step.accept [of w0 0 _ "''10.0.0.7''"] assms(2) by simp
  obtain s1 where s1: "w_sessions (?w 1) 0 = Some s1" "ses_phase s1 = Handshaking" using assms(5) by auto
  have 2: "srv_step ?ok (?w 1) (?w 2)"
    using srv_step.greet [OF s1, of _ demo_hello] assms(3) by (simp add: prod_eq_iff numeral_2_eq_2)
  obtain s2 where s2: "w_sessions (?w 2) 0 = Some s2" "ses_phase s2 = Admitted" using assms(6) by auto
  have 3: "srv_step ?ok (?w 2) (?w 3)"
    using srv_step.enrol [OF s2, of 1 new] assms(4) by (simp add: prod_eq_iff numeral_2_eq_2 numeral_3_eq_3 Let_def)
  obtain s3 where s3: "w_sessions (?w 3) 0 = Some s3" "ses_phase s3 = Upserted new" using assms(7) by auto
  have 4: "srv_step ?ok (?w 3) (?w 4)"
    using srv_step.attach [OF s3, of 1] by (simp add: prod_eq_iff eval_nat_numeral Let_def)
  show ?thesis by (rule steps [OF steps [OF steps [OF steps [OF 0 1] 2] 3] 4])
qed

abbreviation demo_world :: "nat \<Rightarrow> world" where
  "demo_world \<equiv> demo_run idle_world True"

lemma demo_values:
  "fst (handshake (Some (\<lambda>i. i = ''lamp'')) 0 demo_hello (demo_world 1)) = None"
  "fst (register_entry 0 1 (demo_world 2)) = True"
  "map_option ses_phase (w_sessions (demo_world 1) 0) = Some Handshaking"
  "map_option ses_phase (w_sessions (demo_world 2) 0) = Some Admitted"
  "map_option ses_phase (w_sessions (demo_world 3) 0) = Some (Upserted True)"
  "driver_of ''lamp'' (w_reg (demo_world 4)) = Some 0"
  by code_simp+

lemma links_new: "links new_registry = Map.empty"
  by (simp add: links_def lookup_bulb_def new_registry_def fun_eq_iff)

lemma demo_reachable: "reachable (srv_start (\<lambda>i. False)) (srv_step (Some (\<lambda>i. i = ''lamp''))) (demo_world 4)"
  by (rule demo_run_reachable [OF _ _ demo_values(1-5)]) (simp_all add: srv_start_def idle_world_def links_new)

section \<open>One lamp's packets leave the others alone\<close>

text \<open>Nothing that belongs to another device: its registry entry, its session, events in its name, its bytes.\<close>

definition apart :: "nat \<Rightarrow> 'a world_scheme \<Rightarrow> 'a world_scheme \<Rightarrow> bool" where
  "apart d w w' \<longleftrightarrow>
     (\<forall>j. j \<noteq> ses_device d w \<longrightarrow> lookup_bulb (w_reg w') j = lookup_bulb (w_reg w) j) \<and>
     (\<forall>e. e \<noteq> d \<longrightarrow> w_sessions w' e = w_sessions w e) \<and>
     ses_device d w' = ses_device d w \<and>
     (\<exists>es. w_events w' = w_events w @ es \<and> (\<forall>v\<in>set es. ev_device v = ses_device d w)) \<and>
     (\<exists>ps. w_sent w' = w_sent w @ ps \<and> (\<forall>p\<in>set ps. fst p = d))"

lemma apart_trans:
  assumes "apart d w w1" "apart d w1 w2"
  shows "apart d w w2"
proof -
  obtain es ps where 1: "w_events w1 = w_events w @ es" "\<forall>v\<in>set es. ev_device v = ses_device d w"
    "w_sent w1 = w_sent w @ ps" "\<forall>p\<in>set ps. fst p = d" using assms(1) unfolding apart_def by blast
  have d: "ses_device d w1 = ses_device d w" using assms(1) by (simp add: apart_def)
  obtain es' ps' where 2: "w_events w2 = w_events w1 @ es'" "\<forall>v\<in>set es'. ev_device v = ses_device d w"
    "w_sent w2 = w_sent w1 @ ps'" "\<forall>p\<in>set ps'. fst p = d" using assms(2) unfolding apart_def d by blast
  have "\<exists>es. w_events w2 = w_events w @ es \<and> (\<forall>v\<in>set es. ev_device v = ses_device d w)"
    by (rule exI [of _ "es @ es'"]) (use 1 2 in auto)
  moreover have "\<exists>ps. w_sent w2 = w_sent w @ ps \<and> (\<forall>p\<in>set ps. fst p = d)"
    by (rule exI [of _ "ps @ ps'"]) (use 1 2 in auto)
  ultimately show ?thesis using assms by (simp add: apart_def)
qed

lemma apart_reg:
  "(\<And>j. j \<noteq> ses_device d w \<Longrightarrow> lookup_bulb r j = lookup_bulb (w_reg w) j) \<Longrightarrow> apart d w (w\<lparr>w_reg := r\<rparr>)"
  by (simp add: apart_def ses_device_def session_of_def)

lemma op_others:
  assumes "j \<noteq> i"
  shows "lookup_bulb (touch i now r) j = lookup_bulb r j" "lookup_bulb (set_firmware i v r) j = lookup_bulb r j"
    "lookup_bulb (snd (set_capabilities i caps r)) j = lookup_bulb r j"
    "lookup_bulb (snd (set_state i s now r)) j = lookup_bulb r j"
  using assms by (auto simp: reg_defs Let_def reg_simps split: option.splits)

interpretation apart: handler_frame d "apart d" for d
proof
  show "apart d w w" for w :: "'a world_scheme" by (simp add: apart_def)
  show "apart d w w1 \<Longrightarrow> apart d w1 w2 \<Longrightarrow> apart d w w2" for w w1 w2 :: "'a world_scheme" by (rule apart_trans)
  show "ev_device e = ses_device d w \<Longrightarrow> apart d w (emit e w)" for e and w :: "'a world_scheme"
    by (simp add: apart_def emit_def ses_device_def session_of_def)
  show "apart d w (upd_session d (\<lambda>s. s\<lparr>ses_reported := True\<rparr>) w)" for w :: "'a world_scheme"
    by (auto simp: apart_def upd_session_def ses_device_def session_of_def split: option.split)
  show "apart d w (snd (ses_write d p w))" for p and w :: "'a world_scheme"
    by (simp add: apart_def ses_write_def ses_device_def session_of_def)
  show "apart d w (deliver c result w)" for c result and w :: "'a world_scheme"
    by (simp add: apart_def deliver_def ses_device_def session_of_def split: option.split)
qed (simp_all add: on_reg_def apart_reg op_others)

section \<open>A command is confirmed once\<close>

text \<open>Commands are never forgotten by the handlers, and a result once delivered stays.\<close>

definition settled :: "'a world_scheme \<Rightarrow> 'a world_scheme \<Rightarrow> bool" where
  "settled w w' \<longleftrightarrow> w_next w \<le> w_next w' \<and> dom (w_commands w') \<subseteq> dom (w_commands w) \<union> {w_next w..<w_next w'} \<and>
     (\<forall>c p. w_commands w c = Some p \<longrightarrow>
        (\<exists>r. w_commands w' c = Some (p\<lparr>cmd_done := r\<rparr>) \<and> (cmd_done p \<noteq> None \<longrightarrow> r = cmd_done p)))"

lemma settled_same: "w_commands w' = w_commands w \<Longrightarrow> w_next w \<le> w_next w' \<Longrightarrow> settled w w'"
  by (auto simp: settled_def) (metis pending_command.surjective pending_command.update_convs(3))

lemma settled_command:
  "settled w w' \<Longrightarrow> w_commands w c = Some p \<Longrightarrow>
    \<exists>r. w_commands w' c = Some (p\<lparr>cmd_done := r\<rparr>) \<and> (cmd_done p \<noteq> None \<longrightarrow> r = cmd_done p)"
  by (simp add: settled_def)

lemma settled_trans:
  assumes "settled w w1" "settled w1 w2"
  shows "settled w w2"
  unfolding settled_def
proof (intro conjI allI impI)
  show "w_next w \<le> w_next w2" using assms by (simp add: settled_def)
  show "dom (w_commands w2) \<subseteq> dom (w_commands w) \<union> {w_next w..<w_next w2}"
  proof -
    have "dom (w_commands w1) \<subseteq> dom (w_commands w) \<union> {w_next w..<w_next w1}"
      "dom (w_commands w2) \<subseteq> dom (w_commands w1) \<union> {w_next w1..<w_next w2}"
      using assms unfolding settled_def by blast+
    moreover have "{w_next w..<w_next w1} \<subseteq> {w_next w..<w_next w2}" "{w_next w1..<w_next w2} \<subseteq> {w_next w..<w_next w2}"
      using assms by (auto simp: settled_def)
    ultimately show ?thesis by blast
  qed
  fix c p assume "w_commands w c = Some p"
  then obtain r where r: "w_commands w1 c = Some (p\<lparr>cmd_done := r\<rparr>)" "cmd_done p \<noteq> None \<longrightarrow> r = cmd_done p"
    using assms(1) unfolding settled_def by blast
  then obtain r' where "w_commands w2 c = Some (p\<lparr>cmd_done := r\<rparr>\<lparr>cmd_done := r'\<rparr>)" "r \<noteq> None \<longrightarrow> r' = r"
    using settled_command [OF assms(2) r(1)] by auto
  then show "\<exists>r. w_commands w2 c = Some (p\<lparr>cmd_done := r\<rparr>) \<and> (cmd_done p \<noteq> None \<longrightarrow> r = cmd_done p)"
    using r(2) by auto
qed

lemma settled_deliver: "settled w (deliver c result w)"
proof (cases "\<exists>p. w_commands w c = Some p \<and> cmd_done p = None")
  case True
  then obtain p where p: "w_commands w c = Some p" "cmd_done p = None" by blast
  have "\<exists>r. w_commands (deliver c result w) e = Some (q\<lparr>cmd_done := r\<rparr>) \<and> (cmd_done q \<noteq> None \<longrightarrow> r = cmd_done q)"
    if "w_commands w e = Some q" for e q
    using that p by (cases "e = c"; cases q) (auto simp: deliver_def)
  then show ?thesis using p by (auto simp: settled_def deliver_def)
next
  case False
  then have "deliver c result w = w" by (auto simp: deliver_def split: option.split)
  then show ?thesis by (simp add: settled_same)
qed

interpretation settled: handler_frame d settled for d
  by unfold_locales
    (simp_all add: settled_same settled_deliver emit_def upd_session_def ses_write_def on_reg_def, rule settled_trans)


lemma settled_write: "settled w (snd (ses_write d p w))"
  by (rule settled.frame_write)

lemma settled_handshake:
  assumes "handshake admit d pkt w = (e, w1)"
  shows "w_commands w1 = w_commands w \<and> w_next w1 = w_next w"
proof -
  have wr: "w_commands (snd (ses_write d p w)) = w_commands w" "w_next (snd (ses_write d p w)) = w_next w" for p and w :: "'a world_scheme"
    by (simp_all add: ses_write_def)
  have up: "w_commands (upd_session d f w) = w_commands w" "w_next (upd_session d f w) = w_next w" for f
    by (simp_all add: upd_session_def)
  have "w1 = snd (handshake admit d pkt w)" using assms by simp
  also have "w_commands \<dots> = w_commands w \<and> w_next \<dots> = w_next w"
    by (simp add: handshake_def Let_def wr up split: sum.split option.split)
  finally show ?thesis .
qed

lemma settled_send:
  assumes "dom (w_commands w) \<subseteq> {..<w_next w}"
  shows "settled w (snd (send_command d name pr now w))"
proof -
  obtain payload sq where e: "encode_command (property_map pr) now = (payload, sq)" by fastforce
  show ?thesis
  proof (cases "command_id_of payload")
    case None
    then show ?thesis by (simp add: send_command_def e settled_same)
  next
    case (Some i)
    define w1 where "w1 = w\<lparr>w_next := w_next w + 1,
      w_commands := (w_commands w)(w_next w \<mapsto> \<lparr>cmd_id = i, cmd_seq = sq, cmd_done = None\<rparr>)\<rparr>"
    define w2 where "w2 = upd_session d (\<lambda>s. s\<lparr>ses_pending := (ses_pending s)(i \<mapsto> w_next w), ses_pending_seq := (ses_pending_seq s)(sq \<mapsto> w_next w)\<rparr>) w1"
    have "w_next w \<notin> dom (w_commands w)" using assms by auto
    then have 1: "settled w w1"
      unfolding settled_def w1_def by (auto, metis domI pending_command.surjective pending_command.update_convs(3))
    have 2: "settled w1 w2" by (rule settled_same) (simp_all add: w2_def upd_session_def)
    obtain err w3 where wr: "ses_write d (encode_publish (common_service (ses_identity (session_of d w2))) (bytes_of payload)) w2 = (err, w3)"
      by fastforce
    then have 3: "settled w w3" using settled_trans [OF settled_trans [OF 1 2] settled_write] by (metis snd_conv)
    have f: "settled w3 (forget_command d i sq w3)"
      by (rule settled_same) (simp_all add: forget_command_def upd_session_def)
    have "snd (send_command d name pr now w) =
        (if ses_closed (session_of d w) then w else if err = None then w3 else forget_command d i sq w3)"
      unfolding send_command_def e prod.case Some option.case Let_def w1_def [symmetric] w2_def [symmetric] wr
      by (cases err) simp_all
    then show ?thesis using 3 settled_trans [OF 3 f] settled.frame_refl [of w] by simp
  qed
qed

lemma same_commands [simp]:
  "w_commands (set_phase d p w) = w_commands w" "w_next (set_phase d p w) = w_next w"
  "w_commands (upd_session d f w) = w_commands w" "w_next (upd_session d f w) = w_next w"
  "w_commands (on_reg g w) = w_commands w" "w_next (on_reg g w) = w_next w"
  "w_commands (emit e w) = w_commands w" "w_next (emit e w) = w_next w"
  "w_commands (snd (note_takeover i now w)) = w_commands w" "w_next (snd (note_takeover i now w)) = w_next w"
  "w_commands (snd (note_rejection i now w)) = w_commands w" "w_next (snd (note_rejection i now w)) = w_next w"
  by (simp_all add: set_phase_def upd_session_def on_reg_def emit_def note_takeover_def note_rejection_def Let_def
      split: option.split)

lemma settled_step: "srv_step admit w w' \<Longrightarrow> dom (w_commands w) \<subseteq> {..<w_next w} \<Longrightarrow> settled w w'"
proof (induction rule: srv_step.induct)
  case (greet w d s pkt w1)
  then show ?case using settled_handshake [OF greet(3)] by (intro settled_same) auto
next
  case (refuse w d s pkt w1 clock now)
  have "w_commands (report_rejection clock d now w1) = w_commands w1" "w_next (report_rejection clock d now w1) = w_next w1"
    by (simp_all add: report_rejection_def Let_def case_prod_beta)
  then show ?case using settled_handshake [OF refuse(3)] by (intro settled_same) auto
next
  case (reject w d s pkt e w1 now detail)
  then show ?case using settled_handshake [OF reject(3)] by (intro settled_same) auto
next
  case (attach w d s new now displaced w1)
  have "w_commands w1 = w_commands w \<and> w_next w1 = w_next w"
    using attach(3) unfolding register_driver_def Let_def by (auto simp: case_prod_beta split: if_splits)
  then show ?case by (intro settled_same) auto
next
  case (packet w d s wording pkt now go_on w1)
  have "settled w w1" using settled.frame_serve [of w wording d pkt now] packet(3) by simp
  moreover have "settled w1 (set_phase d Ending w1)" by (rule settled_same) simp_all
  ultimately show ?case using settled_trans by (cases go_on) auto
next
  case (sending d name pr now w res w1)
  then show ?case using settled_send by (metis snd_conv)
qed (auto simp: register_entry_def case_prod_beta Let_def ses_close_def forget_command_def report_disconnect_def intro!: settled_same)


lemma results_stay:
  assumes "(srv_step admit)\<^sup>*\<^sup>* w w'" "dom (w_commands w) \<subseteq> {..<w_next w}"
  shows "settled w w' \<and> dom (w_commands w') \<subseteq> {..<w_next w'}"
  using assms
proof (induction rule: rtranclp_induct)
  case base
  then show ?case by (simp add: settled.frame_refl)
next
  case (step y z)
  then have "settled w y" and y: "dom (w_commands y) \<subseteq> {..<w_next y}" by simp_all
  have yz: "settled y z" by (rule settled_step [OF step(2) y])
  then have "dom (w_commands z) \<subseteq> {..<w_next z}" using y by (fastforce simp: settled_def)
  then show ?case using settled_trans [OF \<open>settled w y\<close> yz] by blast
qed

lemma note_all_spaced:
  assumes "note_all i ts w = (rs, w1)"
  shows "successively (\<lambda>a b. rejection_window \<le> b - a)
    ((case last_report i w of None \<Rightarrow> [] | Some t \<Rightarrow> [t]) @ reported ts rs)"
  using assms
proof (induction ts arbitrary: w rs)
  case (Cons t ts)
  obtain r w' where r: "note_rejection i t w = (r, w')" by (cases "note_rejection i t w")
  obtain rs' where rs: "note_all i ts w' = (rs', w1)" and eq: "rs = r # rs'"
    using Cons.prems by (cases "note_all i ts w'") (auto simp: r)
  have "last_report i w' = (if fst r then Some t else last_report i w)" "fst r \<or> last_report i w \<noteq> None"
    "fst r \<Longrightarrow> last_report i w = Some l \<Longrightarrow> rejection_window \<le> t - l" for l
    using r by (auto simp: note_rejection_def last_report_def Let_def split: option.splits if_splits)
  then show ?case
    using Cons.IH [of w' rs'] rs by (auto simp: eq reported_def successively_Cons split: option.splits)
qed (simp add: reported_def split: option.split)

section \<open>Properties\<close>

text \<open>
  In every reachable state, the live connection of a lamp is a session that said hello as that very
  lamp, was admitted, and is being served or torn down.
\<close>

theorem live_link_is_own_session:
  assumes "reachable (srv_start known) (srv_step admit) w" "driver_of i (w_reg w) = Some d"
  shows "\<exists>s. w_sessions w d = Some s \<and> device_name (ses_identity s) = i \<and> (ses_phase s = Serving \<or> ses_phase s = Ending) \<and>
    admits admit i"
proof -
  have inv: "srv_inv admit known w" by (rule server.reachable_inv [OF assms(1)])
  obtain p where p: "shape w d = Some (i, p)" "p = Serving \<or> p = Ending"
    using srv_inv_link [OF inv] assms(2) unfolding driver_of_links by blast
  then show ?thesis using srv_inv_session [OF inv p(1)] by (auto simp: shape_def enrolled_def)
qed

theorem live_link_is_own_session_witness:
  "\<exists>s. w_sessions (demo_world 4) 0 = Some s \<and> device_name (ses_identity s) = ''lamp'' \<and>
    (ses_phase s = Serving \<or> ses_phase s = Ending) \<and> admits (Some (\<lambda>i. i = ''lamp'')) ''lamp''"
  by (rule live_link_is_own_session [OF demo_reachable demo_values(6)])

text \<open>
  In every reachable state, every registered lamp was loaded or declared at start, or is one the
  admission check lets in: a refused device never gets an entry.
\<close>

theorem refused_never_registered:
  assumes "reachable (srv_start known) (srv_step admit) w" "lookup_bulb (w_reg w) i = Some b"
  shows "(known i \<or> admits admit i) \<and> device_id b = i"
proof -
  have inv: "srv_inv admit known w" by (rule server.reachable_inv [OF assms(1)])
  show ?thesis
    using srv_inv_ids [OF inv, of i] reg_ok_lookup [OF srv_inv_reg [OF inv] assms(2)] assms(2)
    by (simp add: links_def bulb_ok_def)
qed

theorem refused_never_registered_witness:
  "\<exists>b. lookup_bulb (w_reg (demo_world 4)) ''lamp'' = Some b \<and>
    (False \<or> admits (Some (\<lambda>i. i = ''lamp'')) ''lamp'') \<and> device_id b = ''lamp''"
proof -
  obtain b where b: "lookup_bulb (w_reg (demo_world 4)) ''lamp'' = Some b"
    using demo_values(6) by (auto simp: driver_of_def split: option.splits simp del: demo_run.simps)
  then show ?thesis using refused_never_registered [OF demo_reachable b] by blast
qed

text \<open>
  C35: However often a device is turned away, each attempt is told exactly once, by a report of its own
  or in the count of the next one, and reports about one device are at least the window apart.
\<close>

theorem rejections_accounted:
  assumes "note_all i ts w = (rs, w1)"
  shows "sum_list (map attempts_told rs) + unreported i w1 = length ts + unreported i w \<and>
    successively (\<lambda>a b. rejection_window \<le> b - a)
      ((case last_report i w of None \<Rightarrow> [] | Some t \<Rightarrow> [t]) @ reported ts rs)"
  using note_all_accounts [OF assms] note_all_spaced [OF assms] by blast

theorem rejections_accounted_witness:
  "let (rs, w1) = note_all ''x'' [0, 100 * second, 400 * second] idle_world
   in map fst rs = [True, False, True] \<and> sum_list (map attempts_told rs) + unreported ''x'' w1 = 3 + unreported ''x'' idle_world"
proof -
  obtain rs w1 where n: "note_all ''x'' [0, 100 * second, 400 * second] idle_world = (rs, w1)"
    by (cases "note_all ''x'' [0, 100 * second, 400 * second] idle_world")
  have "map fst (fst (note_all ''x'' [0, 100 * second, 400 * second] idle_world)) = [True, False, True]" by code_simp
  then show ?thesis using rejections_accounted [OF n] by (simp add: n del: note_all.simps)
qed

text \<open>
  A takeover raises the warning exactly when it is at least the third within the last minute, all
  takeovers since the start counted, although the record is pruned at every one.
\<close>

theorem takeover_warning:
  assumes "w_takeovers w i = None" "sorted ts"
  shows "fst (takeovers i ts w) =
    map (\<lambda>n. 3 \<le> length (filter (\<lambda>t. ts ! n - t < 60 * second) (take (Suc n) ts))) [0..<length ts]"
proof (cases ts)
  case (Cons t us)
  have "fst (takeovers i ts w) = map (\<lambda>n. takeover_threshold \<le> length (recent (ts ! n) ([] @ take (Suc n) ts))) [0..<length ts]"
    by (rule takeovers_all [where now = t]) (use assms Cons in \<open>auto simp: recent_def\<close>)
  then show ?thesis by (simp add: recent_def takeover_threshold_def takeover_window_def del: upt_Suc)
qed simp

theorem takeover_warning_witness:
  "fst (takeovers ''x'' [0, 10 * second, 20 * second, 75 * second] idle_world) = [False, False, True, False]"
proof -
  have "fst (takeovers ''x'' [0, 10 * second, 20 * second, 75 * second] idle_world) =
    map (\<lambda>n. 3 \<le> length (filter (\<lambda>t. [0, 10 * second, 20 * second, 75 * second] ! n - t < 60 * second)
      (take (Suc n) [0, 10 * second, 20 * second, 75 * second]))) [0..<length [0, 10 * second, 20 * second, 75 * second]]"
    by (rule takeover_warning) (simp_all add: idle_world_def second_def)
  also have "\<dots> = [False, False, True, False]" by code_simp
  finally show ?thesis .
qed

text \<open>
  C7: Whatever a lamp sends on its connection, well-formed or not, no other lamp's registry entry and no
  other session changes, no event is published in another lamp's name, and no byte is sent to another.
\<close>

theorem packet_isolation:
  "let w' = snd (serve_packet wording d pkt now w); i = ses_device d w
   in lookup_bulb (w_reg w') |` (- {i}) = lookup_bulb (w_reg w) |` (- {i}) \<and>
      w_sessions w' |` (- {d}) = w_sessions w |` (- {d}) \<and>
      filter (\<lambda>e. ev_device e \<noteq> i) (w_events w') = filter (\<lambda>e. ev_device e \<noteq> i) (w_events w) \<and>
      filter (\<lambda>p. fst p \<noteq> d) (w_sent w') = filter (\<lambda>p. fst p \<noteq> d) (w_sent w)"
proof -
  have "apart d w (snd (serve_packet wording d pkt now w))" by (rule apart.frame_serve)
  then show ?thesis by (auto simp: apart_def Let_def restrict_map_def fun_eq_iff)
qed

text \<open>
  Once a command has a result, no later packet, timeout, connection or command changes it: the first
  confirmation is the one that counts.
\<close>

theorem first_confirmation_counts:
  assumes "dom (w_commands w) \<subseteq> {..<w_next w}" "(srv_step admit)\<^sup>*\<^sup>* w w'"
    "w_commands w c = Some p" "cmd_done p = Some result"
  shows "map_option cmd_done (w_commands w' c) = Some (Some result)"
  using results_stay [OF assms(2,1)] settled_command [OF _ assms(3)] assms(4) by fastforce

definition answered_world :: world where
  "answered_world = idle_world\<lparr>w_next := 1,
     w_commands := [0 \<mapsto> \<lparr>cmd_id = ''1'', cmd_seq = ''1@x'', cmd_done = Some None\<rparr>]\<rparr>"

theorem first_confirmation_counts_witness:
  "map_option cmd_done (w_commands (forget_command 0 ''1'' ''1@x'' (ses_close 0 answered_world)) 0) = Some (Some None)"
proof (rule first_confirmation_counts)
  show "(srv_step None)\<^sup>*\<^sup>* answered_world (forget_command 0 ''1'' ''1@x'' (ses_close 0 answered_world))"
    by (blast intro: srv_step.closing srv_step.forgetting rtranclp.rtrancl_into_rtrancl rtranclp.rtrancl_refl)
qed (auto simp: answered_world_def)

end
