(* ===== verification/Levels.thy ===== *)
theory Levels
  imports Sessions
begin

text \<open>
  Brightness and colour temperature are bytes that stand for percentages. Nothing in their type keeps
  them below a hundred; the decoder of reports (alink.go) and the resolution of changes (service.go) do,
  and with them every state the server ever holds or asks for.
\<close>

definition percent :: "light_state \<Rightarrow> bool" where
  "percent s \<longleftrightarrow> uint (brightness s) \<le> 100 \<and> uint (color_temp s) \<le> 100"

definition all_percent :: "'a world_scheme \<Rightarrow> bool" where
  "all_percent w \<longleftrightarrow> (\<forall>i b. lookup_bulb (w_reg w) i = Some b \<longrightarrow> percent (light b))"

section \<open>Reports\<close>

definition post_percent :: "property_post \<Rightarrow> bool" where
  "post_percent post \<longleftrightarrow> (\<forall>b. post_brightness post = Some b \<longrightarrow> uint b \<le> 100) \<and> (\<forall>t. post_color_temp post = Some t \<longrightarrow> uint t \<le> 100)"

lemma post_percent_update:
  assumes "post_percent post"
  shows "post_percent (post\<lparr>post_power := x\<rparr>)" "post_percent (post\<lparr>post_mode := m\<rparr>)" "post_percent (post\<lparr>post_seq := sq\<rparr>)"
    "post_percent (post\<lparr>post_brightness := Some (clamp_percent n)\<rparr>)" "post_percent (post\<lparr>post_color_temp := Some (clamp_percent n)\<rparr>)"
  using assms clamp_percent_range by (simp_all add: post_percent_def)

lemma post_step_percent: "post_percent post \<Longrightarrow> post_percent (post_step post p)"
  by (cases p) (simp add: post_step_def post_percent_update split: option.split)

lemma decoded_percent:
  assumes "decode_property_post text' = Some post"
  shows "post_percent post"
proof -
  have fold: "post_percent post \<Longrightarrow> post_percent (foldl post_step post kvs)" for post kvs
    by (induction kvs arbitrary: post) (simp_all add: post_step_percent)
  have start: "post_percent (no_post\<lparr>post_id := i\<rparr>)" for i by (simp add: no_post_def post_percent_def)
  show ?thesis
    using assms by (auto simp: decode_property_post_def intro!: fold start split: option.splits)
qed

lemma applied_percent:
  assumes "decode_property_post text' = Some post" "percent s"
  shows "percent (apply_post post s t)"
  using decoded_percent [OF assms(1)] assms(2)
  by (cases "post_power post"; cases "post_brightness post"; cases "post_color_temp post"; cases "post_mode post")
    (simp_all add: percent_def apply_post_def post_percent_def)

section \<open>Handlers\<close>

definition keeps_percent :: "'a world_scheme \<Rightarrow> 'a world_scheme \<Rightarrow> bool" where
  "keeps_percent w w' \<longleftrightarrow> (all_percent w \<longrightarrow> all_percent w')"

text \<open>What leaves the lights of the entries there are, and adds at most dark ones.\<close>

definition dims :: "registry \<Rightarrow> registry \<Rightarrow> bool" where
  "dims r r' \<longleftrightarrow> (\<forall>i b'. lookup_bulb r' i = Some b' \<longrightarrow> (\<exists>b. lookup_bulb r i = Some b \<and> light b' = light b) \<or> light b' = zero_state)"

lemma dims_keeps: "dims (w_reg w) (w_reg w') \<Longrightarrow> keeps_percent w w'"
proof -
  have "percent zero_state" by (simp add: percent_def zero_state_def)
  then show "dims (w_reg w) (w_reg w') \<Longrightarrow> keeps_percent w w'"
    unfolding dims_def keeps_percent_def all_percent_def by metis
qed

lemma dims_refl [simp]: "dims r r"
  by (auto simp: dims_def)

lemma dims_ops:
  "dims r (touch i now r)" "dims r (set_firmware i v r)" "dims r (snd (set_capabilities i caps r))"
  "dims r (set_desired i s r)" "dims r (disconnect i d r)" "dims r (snd (upsert i addr caps now r))" "dims r (snd (set_driver i d r))"
  by (auto simp: dims_def reg_defs Let_def reg_simps zero_bulb_def split: option.splits if_splits)

lemma dims_rename: "rename_bulb i name r = Inr (a, r') \<Longrightarrow> dims r r'"
  by (auto simp: dims_def reg_defs Let_def reg_simps split: option.splits if_splits)

lemma dims_trans: "dims r r1 \<Longrightarrow> dims r1 r2 \<Longrightarrow> dims r r2"
  unfolding dims_def by metis

lemma state_percent:
  assumes "decode_property_post text' = Some post" "view i (w_reg w) = (b, True)"
  shows "keeps_percent w (w\<lparr>w_reg := snd (set_state i (apply_post post (light b) now) now (snd (set_capabilities i caps (w_reg w))))\<rparr>)"
proof -
  let ?s = "apply_post post (light b) now"
  define r where "r = snd (set_state i ?s now (snd (set_capabilities i caps (w_reg w))))"
  have b: "lookup_bulb (w_reg w) i = Some b" using assms(2) by (simp add: view_def split: option.splits)
  have entry: "j = i \<and> light b' = ?s \<or> lookup_bulb (w_reg w) j = Some b'" if "lookup_bulb r j = Some b'" for j b'
    using that b by (cases "j = i") (auto simp: r_def set_state_def set_capabilities_def Let_def reg_simps split: if_splits)
  have "all_percent (w\<lparr>w_reg := r\<rparr>)" if w: "all_percent w"
    unfolding all_percent_def
  proof (intro allI impI)
    fix j b' assume "lookup_bulb (w_reg (w\<lparr>w_reg := r\<rparr>)) j = Some b'"
    then have "j = i \<and> light b' = ?s \<or> lookup_bulb (w_reg w) j = Some b'" by (intro entry) simp
    moreover have "percent ?s" using w b by (intro applied_percent [OF assms(1)]) (simp add: all_percent_def)
    ultimately show "percent (light b')" using w by (auto simp: all_percent_def)
  qed
  then show ?thesis by (simp add: keeps_percent_def r_def)
qed

interpretation percents: handler_frame d keeps_percent for d
proof
  show "keeps_percent w w" for w :: "'a world_scheme" by (simp add: keeps_percent_def)
  show "keeps_percent w w1 \<Longrightarrow> keeps_percent w1 w2 \<Longrightarrow> keeps_percent w w2" for w w1 w2 :: "'a world_scheme"
    by (simp add: keeps_percent_def)
  show "keeps_percent w (on_reg (\<lambda>r. snd (set_capabilities (ses_device d w) caps (set_firmware (ses_device d w) v r))) w)"
    for caps v and w :: "'a world_scheme"
    by (rule dims_keeps) (simp add: on_reg_def dims_trans [OF dims_ops(2) dims_ops(3)])
  show "keeps_percent w (emit e w)" for e and w :: "'a world_scheme" by (rule dims_keeps) (simp add: emit_def)
  show "keeps_percent w (upd_session d f w)" for f and w :: "'a world_scheme" by (rule dims_keeps) (simp add: upd_session_def)
  show "keeps_percent w (snd (ses_write d p w))" for p and w :: "'a world_scheme" by (rule dims_keeps) (simp add: ses_write_def)
  show "keeps_percent w (deliver c result w)" for c result and w :: "'a world_scheme"
    by (rule dims_keeps) (simp add: deliver_def split: option.split)
  show "keeps_percent w (on_reg (touch (ses_device d w) now) w)" for now and w :: "'a world_scheme"
    by (rule dims_keeps) (simp add: on_reg_def dims_ops)
qed (rule state_percent)

section \<open>The whole server\<close>

lemma dims_fields:
  "w_reg (upd_session d f w) = w_reg w" "w_reg (set_phase d ph w) = w_reg w" "w_reg (emit e w) = w_reg w"
  "w_reg (snd (ses_write d p w)) = w_reg w" "w_reg (forget_command d i sq w) = w_reg w" "w_reg (ses_close d w) = w_reg w"
  "w_reg (snd (note_takeover i now w)) = w_reg w" "w_reg (snd (note_rejection i now w)) = w_reg w"
  by (simp_all add: upd_session_def set_phase_def emit_def ses_write_def forget_command_def ses_close_def note_takeover_def
      note_rejection_def Let_def split: option.split)

lemma percent_phase: "all_percent (set_phase d p w) = all_percent w" "all_percent (emit e w) = all_percent w"
  by (simp_all add: all_percent_def dims_fields)

lemma percent_handshake: "handshake admit d pkt w = (e, w1) \<Longrightarrow> w_reg w1 = w_reg w"
proof -
  have "w_reg (snd (handshake admit d pkt w)) = w_reg w"
    by (simp add: handshake_def Let_def dims_fields split: sum.split option.split)
  then show "handshake admit d pkt w = (e, w1) \<Longrightarrow> w_reg w1 = w_reg w" by simp
qed

lemma percent_send: "w_reg (snd (send_command d name p now w)) = w_reg w"
  by (auto simp: send_command_def Let_def ses_write_def forget_command_def upd_session_def split: prod.split option.split)

lemma all_percent_same:
  fixes w w1 :: world
  shows "w_reg w1 = w_reg w \<Longrightarrow> all_percent w \<Longrightarrow> all_percent w1"
  by (simp add: all_percent_def)

lemma all_percent_dims:
  fixes w w1 :: world
  shows "dims (w_reg w) (w_reg w1) \<Longrightarrow> all_percent w \<Longrightarrow> all_percent w1"
  using dims_keeps [of w w1] by (simp add: keeps_percent_def)

lemma all_percent_step: "srv_step admit w w' \<Longrightarrow> all_percent w \<Longrightarrow> all_percent w'"
proof (induction rule: srv_step.induct)
  case (greet w d s pkt w1)
  show ?case by (rule all_percent_same [OF _ greet(4)]) (simp add: dims_fields percent_handshake [OF greet(3)])
next
  case (refuse w d s pkt w1 clock now)
  have "w_reg (report_rejection clock d now w1) = w_reg w1"
    by (simp add: report_rejection_def Let_def case_prod_beta dims_fields)
  then show ?case by (intro all_percent_same [OF _ refuse(4)]) (simp add: dims_fields percent_handshake [OF refuse(3)])
next
  case (reject w d s pkt e w1 now detail)
  show ?case by (rule all_percent_same [OF _ reject(5)]) (simp add: dims_fields percent_handshake [OF reject(3)])
next
  case (enrol w d s now new w1)
  have "dims (w_reg w) (w_reg w1)" using enrol(3) by (auto simp: register_entry_def case_prod_beta dims_ops)
  then show ?case by (intro all_percent_dims [OF _ enrol(4)]) (simp add: dims_fields)
next
  case (attach w d s new now displaced w1)
  have "w_reg w1 = snd (set_driver (ses_device d w) (Some d) (w_reg w))"
    using attach(3) by (auto simp: register_driver_def Let_def case_prod_beta dims_fields split: if_splits)
  then show ?case by (intro all_percent_dims [OF _ attach(4)]) (simp add: dims_fields dims_ops)
next
  case (packet w d s wording pkt now go_on w1)
  then have w1: "all_percent w1" using percents.frame_serve [of w wording d pkt now] by (simp add: keeps_percent_def)
  show ?case by (rule all_percent_same [OF _ w1]) (simp add: dims_fields)
next
  case (read_error w d s show_span err now)
  have "w_reg (report_disconnect show_span d err now w) = w_reg w" by (simp add: report_disconnect_def Let_def dims_fields)
  then show ?case by (intro all_percent_same [OF _ read_error(3)]) (simp add: dims_fields)
next
  case (renaming i name now w adopted' e r')
  then obtain b where rb: "rename_bulb i name (w_reg w) = Inr (b, r')"
    by (cases "rename_bulb i name (w_reg w)") (auto simp: rename_lamp_def)
  show ?case by (rule all_percent_dims [OF _ renaming(2)]) (simp add: emit_def dims_rename [OF rb])
next
  case (sending d name p now w res w1)
  then have "w_reg w1 = w_reg w" using percent_send [of d name p now w] by simp
  then show ?case by (rule all_percent_same [OF _ sending(2)])
next
  case (teardown w d s)
  show ?case by (rule all_percent_dims [OF _ teardown(3)]) (simp add: dims_fields on_reg_def dims_ops)
next
  case (desiring w i want)
  show ?case by (rule all_percent_dims [OF _ desiring(1)]) (simp add: on_reg_def dims_ops)
qed (simp_all add: percent_phase all_percent_def dims_fields)

interpretation ranges: invariant_system "\<lambda>w. all_percent w" "srv_step admit" all_percent for admit
  by unfold_locales (blast intro: all_percent_step)+

section \<open>Properties\<close>



end
