(* ===== verification/Races.thy ===== *)
theory Races
  imports Levels
begin

text \<open>
  The goroutines of the sessions, \<open>internal/server/session.go\<close>, against each other. \<open>Server\<close> takes a packet
  handler in one step; the locks it takes cover single accesses to the registry, the session and the
  bus, and between two of them any other goroutine may run. Here a session's goroutine is the list of
  what it has still to do, one access each, and \<open>Server\<close> is the case that nobody interferes.
\<close>

section \<open>What a session's goroutine does\<close>

datatype task =
    Handles packet time
  | Publishes publish time
  | Learns capabilities
  | Flashed string
  | Stores property_post light_state time
  | Marks property_post "field_change list" time
  | Names kind string "field_change list" time
  | Emits event
  | Confirms string
  | Writes bytes
  | Counts time
  | Asks read_error time

primrec do_task :: "(duration \<Rightarrow> string) \<Rightarrow> nat \<Rightarrow> task \<Rightarrow> world \<Rightarrow> (session_error + task list) \<times> world" where
  "do_task show_span d (Handles pkt now) w =
     (let w1 = on_reg (touch (ses_device d w) now) w
      in if ptype pkt = type_pingreq then (Inr [Writes pingresp], w1)
         else if ptype pkt = type_subscribe then
           (case decode_subscribe (pbody pkt) of
              Inl e \<Rightarrow> (Inl (SMqtt e), w1)
            | Inr (i, topics) \<Rightarrow> (Inr [Writes (encode_suback i (length topics))], w1))
         else if ptype pkt = type_disconnect then (Inl SEof, w1)
         else if ptype pkt = type_publish then
           (case decode_publish (pbody pkt) (packet_qos pkt) of
              Inl e \<Rightarrow> (Inl (SMqtt e), w1)
            | Inr pub \<Rightarrow>
                (Inr ((if packet_qos pkt = 1 then [Writes (encode_puback (packet_id pub))] else []) @ [Publishes pub now]), w1))
         else (Inr [], w1))"
| "do_task show_span d (Publishes pub now) w =
     (if has_suffix (topic pub) suffix_property_post then
        (case decode_property_post (str_of (content pub)) of
           None \<Rightarrow> (Inl SPost, w)
         | Some post \<Rightarrow>
             (let (current, ok) = view (ses_device d w) (w_reg w)
              in if \<not> ok then (Inl (SNotRegistered (ses_device d w)), w)
                 else (Inr [Learns (refine_from_report (bulb_caps current) post), Stores post (apply_post post (light current) now) now], w)))
      else if has_suffix (topic pub) suffix_service_reply then
        (case decode_service_reply (str_of (content pub)) of
           None \<Rightarrow> (Inl SReply, w)
         | Some reply \<Rightarrow> (Inr [], complete_command d reply w))
      else if contains (topic pub) suffix_ota_inform then
        (let version = decode_ota_version (str_of (content pub))
         in (Inr (if version \<noteq> [] then [Flashed version, Learns (capabilities_from_version version)] else []), w))
      else if contains (topic pub) ''/ext/ntp/'' \<and> has_suffix (topic pub) suffix_ntp_request then
        (Inr [Writes (encode_publish (ntp_response (ses_identity (session_of d w)))
           (bytes_of (encode_ntp_response (decode_ntp_request (str_of (content pub))) now)))], w)
      else (Inr [], w))"
| "do_task show_span d (Learns caps) w = (Inr [], on_reg (\<lambda>r. snd (set_capabilities (ses_device d w) caps r)) w)"
| "do_task show_span d (Flashed v) w = (Inr [], on_reg (set_firmware (ses_device d w) v) w)"
| "do_task show_span d (Stores post next now) w =
     (let (changes, r) = set_state (ses_device d w) next now (w_reg w) in (Inr [Marks post changes now], w\<lparr>w_reg := r\<rparr>))"
| "do_task show_span d (Marks post changes now) w =
     (let first = (\<not> ses_reported (session_of d w))
      in (Inr ((if changes \<noteq> [] \<or> first then [Names StateChanged [] changes now] else []) @ [Confirms (post_seq post)] @
            (if post_id post \<noteq> []
             then [Writes (encode_publish (property_post_reply (ses_identity (session_of d w))) (bytes_of (encode_property_post_reply (post_id post))))]
             else [])),
          upd_session d (\<lambda>s. s\<lparr>ses_reported := True\<rparr>) w))"
| "do_task show_span d (Names k detail changes now) w = (Inr [Emits ((session_event d k detail now w)\<lparr>ev_changed := changes\<rparr>)], w)"
| "do_task show_span d (Emits e) w = (Inr [], emit e w)"
| "do_task show_span d (Confirms sq) w = (Inr [], complete_by_seq d sq w)"
| "do_task show_span d (Writes p) w = (case ses_write d p w of (None, w1) \<Rightarrow> (Inr [], w1) | (Some e, w1) \<Rightarrow> (Inl e, w1))"
| "do_task show_span d (Counts now) w =
     (let (warn, w1) = note_takeover (ses_device d w) now w
      in (Inr (if warn then [Names DuplicateID (ses_remote (session_of d w)) [] now] else []), w1))"
| "do_task show_span d (Asks err now) w =
     (if driver_of (ses_device d w) (w_reg w) \<noteq> Some d then (Inr [], w)
      else
        (let detail =
           (case err of
              REof \<Rightarrow> ''closed by bulb''
            | RClosed \<Rightarrow> ''server shutting down''
            | RTimeout \<Rightarrow> ''no keep-alive for '' @ show_span (idle_timeout (session_of d w))
            | ROther s \<Rightarrow> s)
         in (Inr [Names KDisconnected detail [] now], w)))"

text \<open>The second part of \<open>register\<close>, after the driver was set; \<open>prev\<close> is the connection it replaced.\<close>

definition attach_tasks :: "nat \<Rightarrow> bool \<Rightarrow> time \<Rightarrow> driver_id option \<Rightarrow> task list" where
  "attach_tasks d new now prev =
     (if prev \<noteq> None \<and> prev \<noteq> Some d then [Counts now] else []) @ [Names (if new then KDiscovered else KConnected) [] [] now]"

section \<open>Left alone\<close>

text \<open>A goroutine that nobody interferes with, to its end or its first error.\<close>

inductive runs :: "(duration \<Rightarrow> string) \<Rightarrow> nat \<Rightarrow> task list \<Rightarrow> world \<Rightarrow> session_error option \<Rightarrow> world \<Rightarrow> bool"
  for show_span :: "duration \<Rightarrow> string" and d :: nat where
  runs_done: "runs show_span d [] w None w"
| runs_fails: "do_task show_span d t w = (Inl e, w1) \<Longrightarrow> runs show_span d (t # ts) w (Some e) w1"
| runs_on: "do_task show_span d t w = (Inr todo, w1) \<Longrightarrow> runs show_span d (todo @ ts) w1 e w2 \<Longrightarrow> runs show_span d (t # ts) w e w2"

lemma runs_one: "do_task show_span d t w = (Inr [], w1) \<Longrightarrow> runs show_span d ts w1 e w2 \<Longrightarrow> runs show_span d (t # ts) w e w2"
  using runs_on [where todo = "[]"] by simp

lemma runs_write: "runs show_span d [Writes p] w (fst (ses_write d p w)) (snd (ses_write d p w))"
proof (cases "ses_write d p w")
  case (Pair e w1)
  then show ?thesis by (cases e) (auto intro: runs_one runs_fails runs_done)
qed

lemma runs_names: "runs show_span d ts (emit ((session_event d k detail now w)\<lparr>ev_changed := cs\<rparr>) w) e w2 \<Longrightarrow>
    runs show_span d (Names k detail cs now # ts) w e w2"
  by (rule runs_on, simp) (auto intro: runs_one)

lemma ses_device_more: "ses_device d (upd_session d (\<lambda>s. s\<lparr>ses_reported := True\<rparr>) w) = ses_device d w"
  "ses_identity (session_of d (upd_session d (\<lambda>s. s\<lparr>ses_reported := True\<rparr>) w)) = ses_identity (session_of d w)"
  by (auto simp: ses_device_def session_of_def upd_session_def new_session_def split: option.split)

lemma identity_after [simp]:
  "ses_identity (session_of d (complete_by_seq d sq w)) = ses_identity (session_of d w)"
  "ses_identity (session_of d (emit e w)) = ses_identity (session_of d w)"
  by (auto simp: complete_by_seq_def deliver_def emit_def session_of_def split: option.split)

lemma append_none: "runs show_span d ts w e w1 \<Longrightarrow> runs show_span d (ts @ []) w e w1"
  by simp

lemma ends_as: "runs show_span d ts w e w1 \<Longrightarrow> e = e' \<Longrightarrow> w1 = w1' \<Longrightarrow> runs show_span d ts w e' w1'"
  by simp

lemma runs_property_post:
  assumes "has_suffix (topic pub) suffix_property_post"
  shows "runs show_span d [Publishes pub now] w (fst (handle_property_post d pub now w)) (snd (handle_property_post d pub now w))"
proof (cases "decode_property_post (str_of (content pub))")
  case None
  then show ?thesis using assms by (auto simp: handle_property_post_def intro: runs_fails)
next
  case (Some post)
  let ?i = "ses_device d w"
  obtain current ok where v: "view ?i (w_reg w) = (current, ok)" by fastforce
  show ?thesis
  proof (cases ok)
    case False
    then show ?thesis using assms Some v by (auto simp: handle_property_post_def intro: runs_fails)
  next
    case True
    define r1 where "r1 = snd (set_capabilities ?i (refine_from_report (bulb_caps current) post) (w_reg w))"
    obtain changes r2 where cs: "set_state ?i (apply_post post (light current) now) now r1 = (changes, r2)" by fastforce
    define w1 where "w1 = w\<lparr>w_reg := r2\<rparr>"
    define w2 where "w2 = upd_session d (\<lambda>s. s\<lparr>ses_reported := True\<rparr>) w1"
    define first where "first = (\<not> ses_reported (session_of d w))"
    define w3 where "w3 = (if changes \<noteq> [] \<or> first then emit ((session_event d StateChanged [] now w2)\<lparr>ev_changed := changes\<rparr>) w2 else w2)"
    define w4 where "w4 = complete_by_seq d (post_seq post) w3"
    define reply where "reply w' = encode_publish (property_post_reply (ses_identity (session_of d w'))) (bytes_of (encode_property_post_reply (post_id post)))"
      for w' :: world
    have same: "session_of d w1 = session_of d w" by (simp add: w1_def session_of_def)
    have who: "ses_identity (session_of d w4) = ses_identity (session_of d w1)" by (simp add: w4_def w3_def w2_def identity_after ses_device_more)
    have h: "handle_property_post d pub now w = (if post_id post \<noteq> [] then ses_write d (reply w4) w4 else (None, w4))"
      unfolding handle_property_post_def Some option.case v Let_def prod.case r1_def [symmetric] cs first_def [symmetric]
        w1_def [symmetric] w2_def [symmetric] w3_def [symmetric] w4_def [symmetric] reply_def
      using True by simp
    have answer: "runs show_span d (if post_id post \<noteq> [] then [Writes (reply w1)] else []) w4
        (fst (handle_property_post d pub now w)) (snd (handle_property_post d pub now w))"
      unfolding h using runs_write [of show_span d "reply w4" w4] by (simp add: reply_def who runs_done)
    have confirmed: "runs show_span d ((if changes \<noteq> [] \<or> first then [Names StateChanged [] changes now] else []) @ [Confirms (post_seq post)] @
          (if post_id post \<noteq> [] then [Writes (reply w1)] else [])) w2
        (fst (handle_property_post d pub now w)) (snd (handle_property_post d pub now w))"
    proof -
      have "runs show_span d (Confirms (post_seq post) # (if post_id post \<noteq> [] then [Writes (reply w1)] else [])) w3
          (fst (handle_property_post d pub now w)) (snd (handle_property_post d pub now w))"
        by (rule runs_one [OF _ answer]) (simp add: w4_def)
      then show ?thesis by (auto simp: w3_def intro: runs_names)
    qed
    have "runs show_span d [Marks post changes now] w1 (fst (handle_property_post d pub now w)) (snd (handle_property_post d pub now w))"
      by (rule runs_on [OF _ confirmed [THEN append_none]]) (simp add: w2_def first_def same reply_def Let_def)
    moreover have "do_task show_span d (Stores post (apply_post post (light current) now) now) (w\<lparr>w_reg := r1\<rparr>) = (Inr [Marks post changes now], w1)"
      using cs by (simp add: w1_def ses_device_def session_of_def)
    ultimately have "runs show_span d [Stores post (apply_post post (light current) now) now] (w\<lparr>w_reg := r1\<rparr>)
        (fst (handle_property_post d pub now w)) (snd (handle_property_post d pub now w))" by (intro runs_on) simp_all
    then have "runs show_span d [Learns (refine_from_report (bulb_caps current) post), Stores post (apply_post post (light current) now) now] w
        (fst (handle_property_post d pub now w)) (snd (handle_property_post d pub now w))"
      by (rule runs_one [rotated]) (simp add: on_reg_def r1_def)
    then show ?thesis using assms Some v True by (intro runs_on [OF _ append_none]) simp_all
  qed
qed

lemma runs_publish:
  "runs show_span d [Publishes pub now] w (fst (handle_publish d pub now w)) (snd (handle_publish d pub now w))"
proof (cases "has_suffix (topic pub) suffix_property_post")
  case True
  then show ?thesis using runs_property_post by (simp add: handle_publish_def)
next
  case False
  let ?version = "decode_ota_version (str_of (content pub))"
  have ota: "runs show_span d [Flashed v, Learns caps] w None
      (on_reg (\<lambda>r. snd (set_capabilities (ses_device d w) caps (set_firmware (ses_device d w) v r))) w)" for v caps
    by (rule runs_one, simp, rule runs_one, simp) (simp add: on_reg_def ses_device_def session_of_def runs_done)
  consider (reply) "has_suffix (topic pub) suffix_service_reply"
    | (ota) "\<not> has_suffix (topic pub) suffix_service_reply" "contains (topic pub) suffix_ota_inform"
    | (rest) "\<not> has_suffix (topic pub) suffix_service_reply" "\<not> contains (topic pub) suffix_ota_inform" by blast
  then show ?thesis
  proof cases
    case reply
    then show ?thesis
      using False by (cases "decode_service_reply (str_of (content pub))") (auto simp: handle_publish_def intro: runs_fails runs_one runs_done)
  next
    case ota
    show ?thesis
    proof (cases "?version = []")
      case True
      then show ?thesis using False ota by (intro runs_one [where ?w1.0 = w]) (simp_all add: handle_publish_def runs_done)
    next
      case some: False
      note flashed = \<open>\<And>v caps. runs _ _ [Flashed v, Learns caps] _ _ _\<close> [of ?version "capabilities_from_version ?version"]
      show ?thesis
        using False ota some flashed by (intro runs_on [where ?w1.0 = w, OF _ append_none]) (simp_all add: handle_publish_def Let_def)
    qed
  next
    case rest
    let ?p = "encode_publish (ntp_response (ses_identity (session_of d w))) (bytes_of (encode_ntp_response (decode_ntp_request (str_of (content pub))) now))"
    show ?thesis
    proof (cases "contains (topic pub) ''/ext/ntp/'' \<and> has_suffix (topic pub) suffix_ntp_request")
      case True
      show ?thesis
        by (rule runs_on [where ?w1.0 = w, OF _ append_none [OF runs_write [of _ _ ?p, THEN ends_as]]])
          (use True False rest in \<open>simp_all add: handle_publish_def\<close>)
    next
      case no: False
      show ?thesis
        by (rule runs_one [OF _ runs_done [of _ _ w, THEN ends_as]]) (use no False rest in \<open>auto simp: handle_publish_def\<close>)
    qed
  qed
qed

text \<open>Then a packet is what \<open>handle\<close> makes of it, and a read error what \<open>reportDisconnect\<close> does.\<close>

theorem packets_alone:
  "runs show_span d [Handles pkt now] w (fst (handle d pkt now w)) (snd (handle d pkt now w))"
  "runs show_span d [Asks err now] w None (report_disconnect show_span d err now w)"
proof -
  let ?w1 = "on_reg (touch (ses_device d w) now) w"
  show "runs show_span d [Handles pkt now] w (fst (handle d pkt now w)) (snd (handle d pkt now w))"
  proof (cases "ptype pkt = type_publish \<and> (\<exists>pub. decode_publish (pbody pkt) (packet_qos pkt) = Inr pub)")
    case True
    then obtain pub where pub: "decode_publish (pbody pkt) (packet_qos pkt) = Inr pub" by blast
    have other: "ptype pkt \<noteq> type_pingreq" "ptype pkt \<noteq> type_subscribe" "ptype pkt \<noteq> type_disconnect"
      using True by (simp_all add: type_publish_def type_pingreq_def type_subscribe_def type_disconnect_def)
    show ?thesis
    proof (cases "packet_qos pkt = 1")
      case False
      then show ?thesis
        using runs_publish [of show_span d pub now ?w1] True other pub
        by (intro runs_on [where ?w1.0 = ?w1, OF _ append_none]) (simp_all add: handle_def Let_def)
    next
      case qos: True
      let ?p = "encode_puback (packet_id pub)"
      obtain err w2 where w: "ses_write d ?p ?w1 = (err, w2)" by fastforce
      have "runs show_span d [Writes ?p, Publishes pub now] ?w1 (fst (handle d pkt now w)) (snd (handle d pkt now w))"
        using True other pub qos w runs_publish [of show_span d pub now w2]
        by (cases err) (auto simp: handle_def Let_def intro: runs_one runs_fails)
      then show ?thesis using True other pub qos by (intro runs_on [where ?w1.0 = ?w1, OF _ append_none]) simp_all
    qed
  next
    case False
    note on = runs_on [where ?w1.0 = ?w1, OF _ append_none]
    consider "ptype pkt = type_pingreq" | "ptype pkt = type_subscribe" | "ptype pkt = type_disconnect" | "ptype pkt = type_publish"
      | "ptype pkt \<notin> {type_pingreq, type_subscribe, type_disconnect, type_publish}" by auto
    then show ?thesis
    proof cases
      case 1
      show ?thesis by (rule on [OF _ runs_write [of _ _ pingresp, THEN ends_as]]) (simp_all add: 1 handle_def Let_def)
    next
      case 2
      have t: "type_subscribe \<noteq> type_pingreq" by (simp add: type_pingreq_def type_subscribe_def)
      show ?thesis
      proof (cases "decode_subscribe (pbody pkt)")
        case (Inl e)
        then show ?thesis using 2 t by (auto simp: handle_def Let_def intro: runs_fails)
      next
        case (Inr x)
        obtain i topics where x: "x = (i, topics)" by fastforce
        show ?thesis
          by (rule on [OF _ runs_write [of _ _ "encode_suback i (length topics)", THEN ends_as]]) (simp_all add: 2 t Inr x handle_def Let_def)
      qed
    next
      case 3
      then have "ptype pkt \<noteq> type_pingreq" "ptype pkt \<noteq> type_subscribe" by (simp_all add: type_pingreq_def type_subscribe_def type_disconnect_def)
      then show ?thesis using 3 by (auto simp: handle_def Let_def intro: runs_fails)
    next
      case 4
      then have t: "ptype pkt \<noteq> type_pingreq" "ptype pkt \<noteq> type_subscribe" "ptype pkt \<noteq> type_disconnect"
        by (simp_all add: type_publish_def type_pingreq_def type_subscribe_def type_disconnect_def)
      obtain e where "decode_publish (pbody pkt) (packet_qos pkt) = Inl e"
        using False 4 by (cases "decode_publish (pbody pkt) (packet_qos pkt)") auto
      then show ?thesis using 4 t by (auto simp: handle_def Let_def intro: runs_fails)
    next
      case 5
      show ?thesis by (rule runs_one [OF _ runs_done [of _ _ ?w1, THEN ends_as]]) (use 5 in \<open>simp_all add: handle_def Let_def\<close>)
    qed
  qed
  show "runs show_span d [Asks err now] w None (report_disconnect show_span d err now w)"
  proof (cases "driver_of (ses_device d w) (w_reg w) = Some d")
    case False
    then show ?thesis by (intro runs_one [OF _ runs_done [of _ _ w, THEN ends_as]]) (simp_all add: report_disconnect_def)
  next
    case True
    have plain: "e\<lparr>ev_changed := []\<rparr> = e" if "ev_changed e = []" for e :: event using that by simp
    have told: "runs show_span d [Names KDisconnected detail [] now] w None (emit (session_event d KDisconnected detail now w) w)" for detail
      using runs_names [OF runs_done, where d = d and k = KDisconnected and detail = detail and now = now and w = w and cs = "[]"]
      by (simp add: plain session_event_def case_prod_beta)
    let ?detail = "case err of REof \<Rightarrow> ''closed by bulb'' | RClosed \<Rightarrow> ''server shutting down''
      | RTimeout \<Rightarrow> ''no keep-alive for '' @ show_span (idle_timeout (session_of d w)) | ROther s \<Rightarrow> s"
    have "report_disconnect show_span d err now w = emit (session_event d KDisconnected ?detail now w) w"
      by (simp add: True report_disconnect_def Let_def)
    moreover have "do_task show_span d (Asks err now) w = (Inr [Names KDisconnected ?detail [] now], w)"
      by (simp add: True Let_def)
    ultimately show ?thesis using runs_on [OF _ append_none [OF told]] by simp
  qed
qed

section \<open>All of them together\<close>

text \<open>What happens outside the goroutines that serve: connections before they serve, the operator, commands, and the network.\<close>

inductive other_step :: "(string \<Rightarrow> bool) option \<Rightarrow> world \<Rightarrow> world \<Rightarrow> bool" for admit :: "(string \<Rightarrow> bool) option" where
  accept: "w_sessions w d = None \<Longrightarrow> other_step admit w (w\<lparr>w_sessions := (w_sessions w)(d \<mapsto> new_session addr)\<rparr>)"
| greet: "w_sessions w d = Some s \<Longrightarrow> ses_phase s = Handshaking \<Longrightarrow> handshake admit d pkt w = (None, w1) \<Longrightarrow>
    other_step admit w (set_phase d Admitted w1)"
| refuse: "w_sessions w d = Some s \<Longrightarrow> ses_phase s = Handshaking \<Longrightarrow> handshake admit d pkt w = (Some SNotConfigured, w1) \<Longrightarrow>
    other_step admit w (set_phase d Gone (report_rejection clock d now w1))"
| reject: "w_sessions w d = Some s \<Longrightarrow> ses_phase s = Handshaking \<Longrightarrow> handshake admit d pkt w = (Some e, w1) \<Longrightarrow> e \<noteq> SNotConfigured \<Longrightarrow>
    other_step admit w (set_phase d Gone (emit \<lparr>ev_at = now, ev_kind = ProtocolError, ev_device = [], ev_name = [], ev_changed = [], ev_detail = detail\<rparr> w1))"
| unread: "w_sessions w d = Some s \<Longrightarrow> ses_phase s = Handshaking \<Longrightarrow>
    other_step admit w (set_phase d Gone (emit \<lparr>ev_at = now, ev_kind = ProtocolError, ev_device = [], ev_name = [], ev_changed = [], ev_detail = detail\<rparr> w))"
| enrol: "w_sessions w d = Some s \<Longrightarrow> ses_phase s = Admitted \<Longrightarrow> register_entry d now w = (new, w1) \<Longrightarrow>
    other_step admit w (set_phase d (Upserted new) w1)"
| closing: "other_step admit w (ses_close d w)"
| breaking: "other_step admit w (upd_session d (\<lambda>s. s\<lparr>ses_up := False\<rparr>) w)"
| renaming: "rename_lamp i name now (w_reg w) = Inr (adopted', e, r') \<Longrightarrow> other_step admit w (emit e (w\<lparr>w_reg := r'\<rparr>))"
| desiring: "other_step admit w (on_reg (set_desired i want) w)"
| sending: "send_command d name prop now w = (res, w1) \<Longrightarrow> other_step admit w w1"
| forgetting: "other_step admit w (forget_command d i sq w)"

lemma other_srv_step: "other_step admit w w' \<Longrightarrow> srv_step admit w w'"
  by (induction rule: other_step.induct) (blast intro: srv_step.intros)+

record busy =
  by_world :: world
  by_todo :: "nat \<Rightarrow> task list"

inductive hand_step :: "(string \<Rightarrow> bool) option \<Rightarrow> busy \<Rightarrow> busy \<Rightarrow> bool" for admit :: "(string \<Rightarrow> bool) option" where
  h_other: "other_step admit (by_world s) w \<Longrightarrow> hand_step admit s (s\<lparr>by_world := w\<rparr>)"
| h_attach: "w_sessions (by_world s) d = Some ses \<Longrightarrow> ses_phase ses = Upserted new \<Longrightarrow>
    set_driver (ses_device d (by_world s)) (Some d) (w_reg (by_world s)) = (prev, r) \<Longrightarrow>
    hand_step admit s (s\<lparr>by_world := set_phase d Serving ((by_world s)\<lparr>w_reg := r\<rparr>), by_todo := (by_todo s)(d := attach_tasks d new now prev)\<rparr>)"
| h_reads: "w_sessions (by_world s) d = Some ses \<Longrightarrow> ses_phase ses = Serving \<Longrightarrow> by_todo s d = [] \<Longrightarrow>
    hand_step admit s (s\<lparr>by_todo := (by_todo s)(d := [Handles pkt now])\<rparr>)"
| h_unread: "w_sessions (by_world s) d = Some ses \<Longrightarrow> ses_phase ses = Serving \<Longrightarrow> by_todo s d = [] \<Longrightarrow>
    hand_step admit s (s\<lparr>by_world := set_phase d Ending (by_world s), by_todo := (by_todo s)(d := [Asks err now])\<rparr>)"
| h_undeadlined: "w_sessions (by_world s) d = Some ses \<Longrightarrow> ses_phase ses = Serving \<Longrightarrow> by_todo s d = [] \<Longrightarrow> \<not> ses_up ses \<Longrightarrow>
    hand_step admit s (s\<lparr>by_world := set_phase d Ending (by_world s)\<rparr>)"
| h_does: "by_todo s d = t # ts \<Longrightarrow> do_task show_span d t (by_world s) = (Inr todo, w) \<Longrightarrow>
    hand_step admit s (s\<lparr>by_world := w, by_todo := (by_todo s)(d := todo @ ts)\<rparr>)"
| h_fails: "w_sessions (by_world s) d = Some ses \<Longrightarrow> ses_phase ses = Serving \<Longrightarrow>
    by_todo s d = t # ts \<Longrightarrow> do_task show_span d t (by_world s) = (Inl e, w) \<Longrightarrow>
    hand_step admit s (s\<lparr>by_world := set_phase d Ending w, by_todo := (by_todo s)(d := [Names ProtocolError (wording e) [] now])\<rparr>)"
| h_leaves: "w_sessions (by_world s) d = Some ses \<Longrightarrow> ses_phase ses = Ending \<Longrightarrow> by_todo s d = [] \<Longrightarrow>
    hand_step admit s (s\<lparr>by_world := set_phase d Gone (upd_session d (\<lambda>s. s\<lparr>ses_up := False\<rparr>)
      (on_reg (disconnect (ses_device d (by_world s)) (Some d)) (by_world s)))\<rparr>)"

inductive_cases hand_stepE: "hand_step admit s t"

definition hands_start :: "(string \<Rightarrow> bool) \<Rightarrow> busy \<Rightarrow> bool" where
  "hands_start known s \<longleftrightarrow> srv_start known (by_world s) \<and> all_percent (by_world s) \<and> by_todo s = (\<lambda>_. [])"

section \<open>What holds however they interleave\<close>

text \<open>A task changes neither who is connected nor where a session stands; the lights it will store are percentages.\<close>

lemma quiet_task: "quiet w (snd (do_task show_span d t w))"
proof (cases t)
  case (Handles pkt now)
  have "quiet w (on_reg (touch (ses_device d w) now) w)" by (rule calm.frame_touch)
  then show ?thesis by (auto simp: Handles Let_def split: sum.split prod.split)
next
  case (Publishes pub now)
  then show ?thesis by (auto simp: Let_def quiet_complete split: option.split prod.split)
next
  case (Stores post st now)
  obtain changes r where r: "set_state (ses_device d w) st now (w_reg w) = (changes, r)" by fastforce
  then have "r = snd (set_state (ses_device d w) st now (w_reg w))" by simp
  then have "quiet w (w\<lparr>w_reg := r\<rparr>)" by (simp add: quiet_reg links_op reg_ok_ops)
  then show ?thesis by (simp add: Stores r)
next
  case (Writes p)
  then show ?thesis using quiet_write [of w d p] by (simp add: case_prod_beta split: option.split)
next
  case (Counts now)
  have "quiet w (snd (note_takeover i now w))" for i by (rule quiet_fields) (simp_all add: note_takeover_def Let_def)
  then show ?thesis by (simp add: Counts case_prod_beta)
qed (simp_all add: Let_def quiet_on_reg links_op reg_ok_ops quiet_upd quiet_complete)

primrec task_ok :: "task \<Rightarrow> bool" where
  "task_ok (Handles pkt now) = True"
| "task_ok (Publishes pub now) = True"
| "task_ok (Learns caps) = True"
| "task_ok (Flashed v) = True"
| "task_ok (Stores post st now) = percent st"
| "task_ok (Marks post changes now) = True"
| "task_ok (Names k detail changes now) = True"
| "task_ok (Emits e) = True"
| "task_ok (Confirms sq) = True"
| "task_ok (Writes p) = True"
| "task_ok (Counts now) = True"
| "task_ok (Asks err now) = True"

lemma task_dims:
  assumes "\<And>post st now. t \<noteq> Stores post st now"
  shows "dims (w_reg w) (w_reg (snd (do_task show_span d t w)))"
proof (cases t)
  case (Publishes pub now)
  have "w_reg (complete_command d reply w) = w_reg w" for reply by (simp add: complete_command_def deliver_def split: option.split)
  then show ?thesis by (auto simp: Publishes Let_def split: option.split prod.split)
next
  case (Confirms sq)
  have "w_reg (complete_by_seq d sq w) = w_reg w" by (simp add: complete_by_seq_def deliver_def split: option.split)
  then show ?thesis by (simp add: Confirms)
qed (use assms in \<open>auto simp: Let_def on_reg_def dims_ops dims_fields case_prod_beta split: sum.split option.split\<close>)

lemma stored_percent:
  assumes "all_percent (w :: world)" "percent st"
  shows "all_percent (w\<lparr>w_reg := snd (set_state i st now (w_reg w))\<rparr>)"
  unfolding all_percent_def
proof (intro allI impI)
  fix j b' assume "lookup_bulb (w_reg (w\<lparr>w_reg := snd (set_state i st now (w_reg w))\<rparr>)) j = Some b'"
  then have "light b' = st \<or> lookup_bulb (w_reg w) j = Some b'"
    by (cases "j = i") (auto simp: set_state_def Let_def reg_simps split: option.splits if_splits)
  then show "percent (light b')" using assms by (auto simp: all_percent_def)
qed

lemma percent_task:
  assumes "do_task show_span d t w = (res, w1)" "all_percent w" "task_ok t"
  shows "all_percent w1 \<and> (case res of Inl _ \<Rightarrow> True | Inr todo \<Rightarrow> list_all task_ok todo)"
proof (cases t)
  case (Stores post st now)
  then show ?thesis using assms stored_percent [OF assms(2), of st "ses_device d w" now] by (auto simp: case_prod_beta)
next
  case (Publishes pub now)
  have "dims (w_reg w) (w_reg w1)" using task_dims [of t w show_span d] assms(1) by (simp add: Publishes)
  then have "all_percent w1" by (rule all_percent_dims [OF _ assms(2)])
  moreover have "percent (apply_post post (light current) now)"
    if "decode_property_post (str_of (content pub)) = Some post" "view (ses_device d w) (w_reg w) = (current, True)" for post current
    using assms(2) that(2) by (intro applied_percent [OF that(1)]) (auto simp: all_percent_def view_def split: option.splits)
  ultimately show ?thesis
    using assms(1) by (auto simp: Publishes Let_def split: option.splits prod.splits if_splits)
qed (use assms task_dims [of t w show_span d] all_percent_dims in
    \<open>auto simp: Let_def case_prod_beta split: sum.splits option.splits if_splits\<close>)

definition hands_ok :: "(string \<Rightarrow> bool) option \<Rightarrow> (string \<Rightarrow> bool) \<Rightarrow> busy \<Rightarrow> bool" where
  "hands_ok admit known s \<longleftrightarrow> srv_inv admit known (by_world s) \<and> all_percent (by_world s) \<and> (\<forall>d. list_all task_ok (by_todo s d))"

lemma attach_keeps:
  assumes "srv_inv admit known w" "w_sessions w d = Some ses" "ses_phase ses = Upserted new"
    "set_driver (ses_device d w) (Some d) (w_reg w) = (prev, r)"
  shows "srv_inv admit known (set_phase d Serving (w\<lparr>w_reg := r\<rparr>))"
proof -
  obtain displaced w1 where w1: "register_driver d new 0 w = (displaced, w1)" by fastforce
  have sh: "shape w d = Some (device_name (ses_identity ses), Upserted new)" using shape_some [OF assms(2)] assms(3) by simp
  have "shape w1 = shape w" "w_reg w1 = r" using register_driver_keeps [OF w1] assms(4) by simp_all
  then have "quiet w1 (w\<lparr>w_reg := r\<rparr>)" by (simp add: quiet_def shape_def fun_eq_iff)
  from srv_inv_quiet [OF srv_inv_attach [OF assms(1) sh w1] quiet_set_phase [OF this]] show ?thesis .
qed

lemma ending_keeps:
  assumes "srv_inv admit known w" "w_sessions w d = Some ses" "ses_phase ses = Serving" "quiet w w1"
  shows "srv_inv admit known (set_phase d Ending w1)"
proof (rule srv_inv_ending)
  show "srv_inv admit known w1" by (rule srv_inv_quiet [OF assms(1,4)])
  show "shape w1 d = Some (device_name (ses_identity ses), Serving)"
    using shape_some [OF assms(2)] assms(3,4) by (simp add: quiet_def)
qed

lemma leaving_keeps:
  assumes "srv_inv admit known w" "w_sessions w d = Some ses" "ses_phase ses = Ending"
  shows "srv_inv admit known (set_phase d Gone (upd_session d (\<lambda>s. s\<lparr>ses_up := False\<rparr>) (on_reg (disconnect (ses_device d w) (Some d)) w)))"
proof (rule srv_inv_teardown [OF assms(1)])
  show "shape w d = Some (ses_device d w, Ending)" using shape_some [OF assms(2)] ses_device_shape assms(3) by metis
qed

lemma percent_moves:
  fixes w :: world
  assumes "all_percent w"
  shows "set_driver i x (w_reg w) = (prev, r) \<Longrightarrow> all_percent (set_phase d ph (w\<lparr>w_reg := r\<rparr>))"
    "all_percent (set_phase d ph (upd_session d f (on_reg (disconnect i x) w)))"
proof -
  have "dims (w_reg w) (snd (set_driver i x (w_reg w)))" by (rule dims_ops)
  then show "set_driver i x (w_reg w) = (prev, r) \<Longrightarrow> all_percent (set_phase d ph (w\<lparr>w_reg := r\<rparr>))"
    using assms by (intro all_percent_dims [OF _ assms]) (simp add: dims_fields)
  show "all_percent (set_phase d ph (upd_session d f (on_reg (disconnect i x) w)))"
    by (rule all_percent_dims [OF _ assms]) (simp add: dims_fields on_reg_def dims_ops)
qed

lemma hands_ok_step: "hands_ok admit known s \<Longrightarrow> hand_step admit s t \<Longrightarrow> hands_ok admit known t"
proof (erule hand_stepE, goal_cases)
  case (1 w)
  then show ?case using srv_inv_step all_percent_step other_srv_step by (simp add: hands_ok_def) blast
next
  case (2 d ses new prev r now)
  then have "srv_inv admit known (by_world t)" "all_percent (by_world t)"
    using attach_keeps [of admit known "by_world s" d ses new prev r] percent_moves(1) [of "by_world s"] by (auto simp: hands_ok_def)
  then show ?case using 2 by (auto simp: hands_ok_def attach_tasks_def)
next
  case (4 d ses err now)
  then show ?case using ending_keeps [OF _ 4(3,4) quiet_refl] by (auto simp: hands_ok_def percent_phase)
next
  case (5 d ses)
  then show ?case using ending_keeps [OF _ 5(3,4) quiet_refl] by (auto simp: hands_ok_def percent_phase)
next
  case (6 d t ts show_span todo w)
  then have "quiet (by_world s) w" using quiet_task [of "by_world s" show_span d t] by simp
  moreover have "list_all task_ok (t # ts)" using 6(1,3) by (metis hands_ok_def)
  ultimately show ?case using 6 percent_task [OF 6(4)] srv_inv_quiet by (auto simp: hands_ok_def)
next
  case (7 d ses t ts show_span e w wording now)
  then have q: "quiet (by_world s) w" using quiet_task [of "by_world s" show_span d t] by simp
  have "list_all task_ok (t # ts)" using 7(1,5) by (metis hands_ok_def)
  then have "all_percent w" using percent_task [OF 7(6)] 7(1) by (simp add: hands_ok_def)
  then show ?case using 7 ending_keeps [OF _ 7(3,4) q] by (auto simp: hands_ok_def percent_phase)
next
  case (8 d ses)
  then show ?case using leaving_keeps [OF _ 8(3,4)] percent_moves(2) by (auto simp: hands_ok_def)
qed (auto simp: hands_ok_def)

interpretation hands: invariant_system "hands_start known" "hand_step admit" "hands_ok admit known" for known admit
proof unfold_locales
  show "hands_start known s \<Longrightarrow> hands_ok admit known s" for s
    using srv_inv_start [of known "by_world s" admit] by (simp add: hands_start_def hands_ok_def)
qed (rule hands_ok_step)

section \<open>Playing a schedule\<close>

text \<open>An executable part of the system: who moves next, and with what.\<close>

datatype move = Dials nat string | Hello nat packet | Enters nat time | Attaches nat time | Reads_packet nat packet time
  | Breaks nat read_error time | Works nat | Leaves nat

primrec play :: "(string \<Rightarrow> bool) option \<Rightarrow> move \<Rightarrow> busy \<Rightarrow> busy option" where
  "play admit (Dials d addr) s =
     (if w_sessions (by_world s) d = None
      then Some (s\<lparr>by_world := (by_world s)\<lparr>w_sessions := (w_sessions (by_world s))(d \<mapsto> new_session addr)\<rparr>\<rparr>) else None)"
| "play admit (Hello d pkt) s =
     (if map_option ses_phase (w_sessions (by_world s) d) \<noteq> Some Handshaking then None
      else (case handshake admit d pkt (by_world s) of (None, w) \<Rightarrow> Some (s\<lparr>by_world := set_phase d Admitted w\<rparr>) | _ \<Rightarrow> None))"
| "play admit (Enters d now) s =
     (if map_option ses_phase (w_sessions (by_world s) d) \<noteq> Some Admitted then None
      else (case register_entry d now (by_world s) of (new, w) \<Rightarrow> Some (s\<lparr>by_world := set_phase d (Upserted new) w\<rparr>)))"
| "play admit (Attaches d now) s =
     (case map_option ses_phase (w_sessions (by_world s) d) of
        Some (Upserted new) \<Rightarrow>
          (case set_driver (ses_device d (by_world s)) (Some d) (w_reg (by_world s)) of
             (prev, r) \<Rightarrow> Some (s\<lparr>by_world := set_phase d Serving ((by_world s)\<lparr>w_reg := r\<rparr>),
               by_todo := (by_todo s)(d := attach_tasks d new now prev)\<rparr>))
      | _ \<Rightarrow> None)"
| "play admit (Reads_packet d pkt now) s =
     (if map_option ses_phase (w_sessions (by_world s) d) = Some Serving \<and> by_todo s d = []
      then Some (s\<lparr>by_todo := (by_todo s)(d := [Handles pkt now])\<rparr>) else None)"
| "play admit (Breaks d err now) s =
     (if map_option ses_phase (w_sessions (by_world s) d) = Some Serving \<and> by_todo s d = []
      then Some (s\<lparr>by_world := set_phase d Ending (by_world s), by_todo := (by_todo s)(d := [Asks err now])\<rparr>) else None)"
| "play admit (Works d) s =
     (case by_todo s d of
        [] \<Rightarrow> None
      | t # ts \<Rightarrow>
          (case do_task (\<lambda>_. []) d t (by_world s) of
             (Inr todo, w) \<Rightarrow> Some (s\<lparr>by_world := w, by_todo := (by_todo s)(d := todo @ ts)\<rparr>)
           | _ \<Rightarrow> None))"
| "play admit (Leaves d) s =
     (if map_option ses_phase (w_sessions (by_world s) d) = Some Ending \<and> by_todo s d = []
      then Some (s\<lparr>by_world := set_phase d Gone (upd_session d (\<lambda>s. s\<lparr>ses_up := False\<rparr>)
        (on_reg (disconnect (ses_device d (by_world s)) (Some d)) (by_world s)))\<rparr>) else None)"

lemma play_step: "play admit m s = Some t \<Longrightarrow> hand_step admit s t"
  by (cases m)
    (auto intro: hand_step.intros other_step.intros split: if_splits prod.splits option.splits phase.splits list.splits sum.splits)

fun plays :: "(string \<Rightarrow> bool) option \<Rightarrow> move list \<Rightarrow> busy \<Rightarrow> busy option" where
  "plays admit [] s = Some s"
| "plays admit (m # ms) s = (case play admit m s of None \<Rightarrow> None | Some t \<Rightarrow> plays admit ms t)"

lemma plays_reachable: "plays admit ms s = Some t \<Longrightarrow> reachable start (hand_step admit) s \<Longrightarrow> reachable start (hand_step admit) t"
proof (induction ms arbitrary: s)
  case (Cons m ms)
  then obtain u where u: "play admit m s = Some u" "plays admit ms u = Some t" by (auto split: option.splits)
  show ?case by (rule Cons.IH [OF u(2) reach_step [OF Cons.prems(2) play_step [OF u(1)]]])
qed simp

definition demo_moves :: "move list" where
  "demo_moves = [Dials 0 ''10.0.0.7'', Hello 0 demo_hello, Enters 0 1, Attaches 0 1, Works 0, Works 0]"

text \<open>The lamp comes back on a second connection while the report about the first is being made.\<close>

definition return_moves :: "move list" where
  "return_moves = demo_moves @
     [Breaks 0 RTimeout 2, Works 0, Dials 1 ''10.0.0.8'', Hello 1 demo_hello, Enters 1 3, Attaches 1 3, Works 1, Works 1, Works 1,
      Works 0, Works 0, Leaves 0]"

definition still_world :: busy where
  "still_world = \<lparr>by_world = idle_world, by_todo = (\<lambda>_. [])\<rparr>"

lemma still_start: "hands_start (\<lambda>_. False) still_world"
  by (simp add: hands_start_def still_world_def srv_start_def idle_world_def links_new all_percent_def) (simp add: new_registry_def lookup_bulb_def)

lemma demo_plays:
  "map_option (\<lambda>t. driver_of ''lamp'' (w_reg (by_world t))) (plays (Some (\<lambda>i. i = ''lamp'')) demo_moves still_world) = Some (Some 0)"
  by code_simp

lemma return_plays:
  "map_option (\<lambda>t. (driver_of ''lamp'' (w_reg (by_world t)), map ev_kind (w_events (by_world t)), map ev_device (w_events (by_world t)), by_todo t 0, by_todo t 1))
      (plays (Some (\<lambda>i. i = ''lamp'')) return_moves still_world) =
    Some (Some 1, [KDiscovered, KConnected, KDisconnected], [''lamp'', ''lamp'', ''lamp''], [], [])"
  by code_simp

lemma plays_from_start: "plays admit ms still_world = Some s \<Longrightarrow> reachable (hands_start (\<lambda>_. False)) (hand_step admit) s"
  by (rule plays_reachable [where start = "hands_start (\<lambda>_. False)"], assumption, rule reach_start, rule still_start)

section \<open>Properties\<close>

text \<open>
  C3: whatever the goroutines do to each other. However the accesses of all sessions interleave with one
  another, with the operator and with connections that come, break and are taken over: the live
  connection of a lamp is a session of that very lamp that was admitted and serves or is being torn
  down; no device that is not admitted has an entry it did not have at the start; and every level in
  the registry is a percentage.
\<close>

theorem races_keep_server:
  assumes "reachable (hands_start known) (hand_step admit) s"
  shows "(driver_of i (w_reg (by_world s)) = Some d \<longrightarrow>
      (\<exists>ses. w_sessions (by_world s) d = Some ses \<and> device_name (ses_identity ses) = i \<and> (ses_phase ses = Serving \<or> ses_phase ses = Ending) \<and>
        admits admit i)) \<and>
    (lookup_bulb (w_reg (by_world s)) i = Some b \<longrightarrow>
      (known i \<or> admits admit i) \<and> uint (brightness (light b)) \<le> 100 \<and> uint (color_temp (light b)) \<le> 100)"
proof -
  have inv: "srv_inv admit known (by_world s)" and percents: "all_percent (by_world s)"
    using hands.reachable_inv [OF assms] by (simp_all add: hands_ok_def)
  have "\<exists>ses. w_sessions (by_world s) d = Some ses \<and> device_name (ses_identity ses) = i \<and> (ses_phase ses = Serving \<or> ses_phase ses = Ending) \<and>
      admits admit i" if live: "driver_of i (w_reg (by_world s)) = Some d"
  proof -
    obtain p where p: "shape (by_world s) d = Some (i, p)" "p = Serving \<or> p = Ending"
      using srv_inv_link [OF inv] live unfolding driver_of_links by blast
    then show ?thesis using srv_inv_session [OF inv p(1)] by (auto simp: shape_def enrolled_def)
  qed
  moreover have "known i \<or> admits admit i" if "lookup_bulb (w_reg (by_world s)) i = Some b"
    using srv_inv_ids [OF inv, of i] that by (simp add: links_def)
  ultimately show ?thesis using percents by (auto simp: all_percent_def percent_def)
qed

theorem races_keep_server_witness:
  "\<exists>s ses. plays (Some (\<lambda>i. i = ''lamp'')) demo_moves still_world = Some s \<and> w_sessions (by_world s) 0 = Some ses \<and>
    device_name (ses_identity ses) = ''lamp'' \<and> admits (Some (\<lambda>i. i = ''lamp'')) ''lamp''"
proof -
  obtain s where s: "plays (Some (\<lambda>i. i = ''lamp'')) demo_moves still_world = Some s" "driver_of ''lamp'' (w_reg (by_world s)) = Some 0"
    using demo_plays by blast
  from races_keep_server [OF plays_from_start [OF s(1)], of "''lamp''" 0] s show ?thesis by blast
qed

section \<open>Where the code falls short\<close>

text \<open>
  \<open>reportDisconnect\<close> asks whether the session still owns the lamp and publishes afterwards. When the lamp
  comes back in between, the last thing the bus hears of it is that it is gone, with all goroutines
  finished and the lamp on its new connection; the bridge then shows it offline until it reports.
\<close>

lemma gone_after_return:
  "\<exists>s. reachable (hands_start (\<lambda>_. False)) (hand_step (Some (\<lambda>i. i = ''lamp''))) s \<and> driver_of ''lamp'' (w_reg (by_world s)) = Some 1 \<and>
    map ev_kind (w_events (by_world s)) = [KDiscovered, KConnected, KDisconnected] \<and>
    list_all (\<lambda>e. ev_device e = ''lamp'') (w_events (by_world s)) \<and> by_todo s 0 = [] \<and> by_todo s 1 = []"
proof -
  obtain s where s: "plays (Some (\<lambda>i. i = ''lamp'')) return_moves still_world = Some s"
    "driver_of ''lamp'' (w_reg (by_world s)) = Some 1" "map ev_kind (w_events (by_world s)) = [KDiscovered, KConnected, KDisconnected]"
    "map ev_device (w_events (by_world s)) = [''lamp'', ''lamp'', ''lamp'']" "by_todo s 0 = []" "by_todo s 1 = []"
    using return_plays by auto
  have "list_all (\<lambda>i. i = ''lamp'') (map ev_device (w_events (by_world s)))" unfolding s(4) by simp
  then have "list_all (\<lambda>e. ev_device e = ''lamp'') (w_events (by_world s))" by (simp add: list.pred_map comp_def)
  then show ?thesis using s(2,3,5,6) plays_from_start [OF s(1)] by (intro exI [of _ s] conjI)
qed

end
