(* ===== verification/ClientLife.thy ===== *)
theory ClientLife
  imports Mqtt
begin

text \<open>
  The life of the broker client, \<open>internal/mqtt/client.go\<close>: \<open>handshake\<close>, \<open>session\<close>, \<open>readLoop\<close> and \<open>Run\<close> as
  they are composed. What a connection does is an argument: the errors of its calls, the bytes the
  broker sends before the connection ends, and whether the context is cancelled by then. A run is
  played against a list of such rounds; as long as none of them cancels it, it goes on behind the list.
\<close>

section \<open>One connection\<close>

record connection =
  cn_dial :: "string option"
  cn_write_deadline :: "string option"
  cn_write :: "string option"
  cn_read_deadline :: "string option"
  cn_stream :: bytes
  cn_clear_deadline :: "string option"
  cn_wire_ok :: bool
  cn_cancelled :: bool

datatype attempt_error =
    DialFailed string
  | DeadlineFailed string
  | ConnectUnsent string
  | NoConnack mqtt_error
  | BadConnack handshake_error
  | Unsubscribed client_error
  | ReadFailed mqtt_error

text \<open>\<open>handshake\<close>: the CONNECT goes out before anything else; the rest of the stream is what follows the CONNACK.\<close>

definition client_handshake ::
  "mqtt_options \<Rightarrow> nat \<Rightarrow> connection \<Rightarrow> 'h mqtt_client \<Rightarrow> (attempt_error + bytes) \<times> 'h mqtt_client" where
  "client_handshake o' d cn c =
     (case cn_write_deadline cn of
        Some e \<Rightarrow> (Inl (DeadlineFailed e), c)
      | None \<Rightarrow>
          (case cn_write cn of
             Some e \<Rightarrow> (Inl (ConnectUnsent e), c)
           | None \<Rightarrow>
               (let c1 = c\<lparr>mc_written := mc_written c @ [(d, client_connect_packet o')]\<rparr>
                in case cn_read_deadline cn of
                     Some e \<Rightarrow> (Inl (DeadlineFailed e), c1)
                   | None \<Rightarrow>
                       (case read_packet (cn_stream cn) of
                          Inl e \<Rightarrow> (Inl (NoConnack e), c1)
                        | Inr (pkt, rest) \<Rightarrow>
                            (case handshake_reply pkt of
                               Some e \<Rightarrow> (Inl (BadConnack e), c1)
                             | None \<Rightarrow>
                                 (case cn_clear_deadline cn of
                                    Some e \<Rightarrow> (Inl (DeadlineFailed e), c1)
                                  | None \<Rightarrow> (Inr rest, c1)))))))"

text \<open>\<open>readLoop\<close>: packets until one cannot be read; what was handed to handlers, in order.\<close>

function read_loop :: "bytes \<Rightarrow> 'h mqtt_client \<Rightarrow> mqtt_error \<times> ('h \<times> string \<times> bytes) list \<times> 'h mqtt_client" where
  "read_loop r c =
     (case read_packet r of
        Inl e \<Rightarrow> (e, [], c)
      | Inr (pkt, rest) \<Rightarrow>
          (let (got, c1) = client_packet pkt c;
               (e, more, c2) = read_loop rest c1
           in (e, (case got of None \<Rightarrow> more | Some m \<Rightarrow> m # more), c2)))"
  by pat_completeness auto
termination
  by (relation "measure (\<lambda>(r, c). length r)") (auto dest: read_packet_bounded)

declare read_loop.simps [simp del]

text \<open>
  \<open>session\<close>: the handshake, the subscriptions of earlier lives, the read loop; a cancelled context says
  goodbye before the connection is closed, and the connection is forgotten however it ends. The flag
  says whether \<open>OnConnect\<close> was started.
\<close>

definition run_session ::
  "mqtt_options \<Rightarrow> nat \<Rightarrow> connection \<Rightarrow> 'h mqtt_client \<Rightarrow>
    attempt_error \<times> bool \<times> ('h \<times> string \<times> bytes) list \<times> 'h mqtt_client" where
  "run_session o' d cn c =
     (case cn_dial cn of
        Some e \<Rightarrow> (DialFailed e, False, [], c)
      | None \<Rightarrow>
          (case client_handshake o' d cn (c\<lparr>mc_wire_ok := cn_wire_ok cn\<rparr>) of
             (Inl e, c1) \<Rightarrow> (e, False, [], c1)
           | (Inr rest, c1) \<Rightarrow>
               (case session_up d c1 of
                  (Some e, c2) \<Rightarrow> (Unsubscribed e, False, [], session_down c2)
                | (None, c2) \<Rightarrow>
                    (let (e, got, c3) = read_loop rest c2;
                         c4 = (if cn_cancelled cn then goodbye c3 else c3)
                     in (ReadFailed e, True, got, session_down c4)))))"

section \<open>The wording of the errors\<close>

text \<open>\<open>io\<close> is the library's wording of an exhausted stream, \<open>wire\<close> that of a failed write.\<close>

fun mqtt_error_text :: "string \<Rightarrow> mqtt_error \<Rightarrow> string" where
  "mqtt_error_text io EEof = io"
| "mqtt_error_text io EReadLength = ''mqtt: reading remaining length: '' @ io"
| "mqtt_error_text io EMalformedLength = ''mqtt: malformed remaining length''"
| "mqtt_error_text io (ETooLarge n) = ''mqtt: packet exceeds maximum size: '' @ nat_str n @ '' bytes''"
| "mqtt_error_text io (EBody n) = ''mqtt: reading '' @ nat_str n @ '' byte body: '' @ io"
| "mqtt_error_text io EStringLength = ''mqtt: truncated string length''"
| "mqtt_error_text io (EStringExceeds n) = ''mqtt: string of '' @ nat_str n @ '' bytes exceeds packet''"
| "mqtt_error_text io EConnectHeader = ''mqtt: connect header truncated''"
| "mqtt_error_text io EPublishId = ''mqtt: publish packet id truncated''"
| "mqtt_error_text io ESubscribeId = ''mqtt: subscribe packet id truncated''"
| "mqtt_error_text io ESubscribeQos = ''mqtt: subscribe missing requested qos''"
| "mqtt_error_text io EConnack = ''mqtt: connack truncated''"
| "mqtt_error_text io ESuback = ''mqtt: suback truncated''"
| "mqtt_error_text io (EWrap what e) = ''mqtt: '' @ what @ '': '' @ mqtt_error_text io e"

definition client_error_text :: "string \<Rightarrow> client_error \<Rightarrow> string" where
  "client_error_text wire e =
     (case e of NotConnectedToBroker \<Rightarrow> ''mqtt: not connected to the broker'' | WireError \<Rightarrow> wire)"

definition attempt_error_text :: "string \<Rightarrow> string \<Rightarrow> string \<Rightarrow> attempt_error \<Rightarrow> string" where
  "attempt_error_text io wire broker e =
     (case e of
        DialFailed m \<Rightarrow> ''dialling '' @ broker @ '': '' @ m
      | DeadlineFailed m \<Rightarrow> m
      | ConnectUnsent m \<Rightarrow> ''sending CONNECT: '' @ m
      | NoConnack e \<Rightarrow> ''reading CONNACK: '' @ mqtt_error_text io e
      | BadConnack (HsWrongType t) \<Rightarrow> ''expected CONNACK, got packet type '' @ nat_str (unat t)
      | BadConnack (HsDecode e) \<Rightarrow> mqtt_error_text io e
      | BadConnack (HsRefused reason) \<Rightarrow> ''broker '' @ broker @ '' refused the connection: '' @ reason
      | Unsubscribed e \<Rightarrow> client_error_text wire e
      | ReadFailed e \<Rightarrow> mqtt_error_text io e)"

section \<open>Run\<close>

text \<open>
  A round: the connection, the random number drawn for the pause, and whether the context is cancelled
  between the session and the end of the pause. A connection is numbered by its round.
\<close>

record attempt =
  at_connection :: connection
  at_jitter :: int
  at_cancelled :: bool

record 'h run_log =
  rl_returned :: bool
  rl_warnings :: "(attempt_error \<times> duration) list"
  rl_pauses :: "duration list"
  rl_received :: "('h \<times> string \<times> bytes) list"
  rl_connects :: nat

definition stops :: "attempt \<Rightarrow> bool" where
  "stops a \<longleftrightarrow> cn_cancelled (at_connection a) \<or> at_cancelled a"

fun run_client :: "mqtt_options \<Rightarrow> nat \<Rightarrow> duration \<Rightarrow> attempt list \<Rightarrow> 'h mqtt_client \<Rightarrow> 'h run_log \<times> 'h mqtt_client" where
  "run_client o' d backoff [] c =
     (\<lparr>rl_returned = False, rl_warnings = [], rl_pauses = [], rl_received = [], rl_connects = 0\<rparr>, c)"
| "run_client o' d backoff (a # as) c =
     (let (e, up, got, c1) = run_session o' d (at_connection a) c;
          warned = (if cn_cancelled (at_connection a) then [] else [(e, backoff)]);
          ups = (if up then 1 else 0)
      in if stops a then
           (\<lparr>rl_returned = True, rl_warnings = warned, rl_pauses = [], rl_received = got, rl_connects = ups\<rparr>, c1)
         else
           (let (l, c2) = run_client o' (Suc d) (next_backoff backoff) as c1
            in (\<lparr>rl_returned = rl_returned l, rl_warnings = warned @ rl_warnings l,
                 rl_pauses = pause backoff (at_jitter a) # rl_pauses l, rl_received = got @ rl_received l,
                 rl_connects = ups + rl_connects l\<rparr>, c2)))"

section \<open>Facts\<close>

lemma client_packet_fields [simp]:
  "mc_handlers (snd (client_packet p c)) = mc_handlers c" "mc_conn (snd (client_packet p c)) = mc_conn c"
  by (auto simp: client_packet_def Let_def split: sum.split)

lemma read_loop_fields: "read_loop r c = (e, got, c') \<Longrightarrow> mc_handlers c' = mc_handlers c \<and> mc_conn c' = mc_conn c"
proof (induction r c arbitrary: e got c' rule: read_loop.induct)
  case (1 r c)
  show ?case
  proof (cases "read_packet r")
    case (Inr pr)
    obtain pkt rest where pr: "pr = (pkt, rest)" by fastforce
    obtain g c1 where g: "client_packet pkt c = (g, c1)" by fastforce
    obtain e2 more c2 where l: "read_loop rest c1 = (e2, more, c2)" by (cases "read_loop rest c1")
    have "mc_handlers c2 = mc_handlers c1 \<and> mc_conn c2 = mc_conn c1"
      by (rule "1.IH" [OF Inr pr [symmetric] g [symmetric] refl l])
    moreover have "c' = c2" using "1.prems" Inr pr g l by (simp add: read_loop.simps [of r])
    ultimately show ?thesis using client_packet_fields [of pkt c] g by simp
  qed (use "1.prems" in \<open>simp add: read_loop.simps [of r]\<close>)
qed

lemma resubscribe_fields: "mc_handlers (snd (resubscribe fs c)) = mc_handlers c \<and> mc_conn (snd (resubscribe fs c)) = mc_conn c"
proof (induction fs arbitrary: c)
  case (Cons f fs)
  obtain r c1 where c1: "send_subscribe f c = (r, c1)" by fastforce
  then have "mc_handlers c1 = mc_handlers c" "mc_conn c1 = mc_conn c" using send_subscribe_fields [of f c] by simp_all
  then show ?case using Cons.IH [of c1] by (simp add: c1 split: option.split)
qed simp

lemma handshake_fields:
  "client_handshake o' d cn c = (res, c') \<Longrightarrow>
    mc_handlers c' = mc_handlers c \<and> mc_conn c' = mc_conn c \<and> mc_connected c' = mc_connected c \<and> mc_wire_ok c' = mc_wire_ok c"
  by (auto simp: client_handshake_def Let_def split: option.splits sum.splits prod.splits)

text \<open>A client between two connections.\<close>

definition idle :: "'h mqtt_client \<Rightarrow> bool" where
  "idle c \<longleftrightarrow> mc_conn c = None \<and> \<not> mc_connected c"

lemma session_ends_idle:
  assumes "run_session o' d cn c = (e, up, got, c')" "idle c"
  shows "idle c' \<and> mc_handlers c' = mc_handlers c"
proof (cases "cn_dial cn")
  case None
  obtain res c1 where h: "client_handshake o' d cn (c\<lparr>mc_wire_ok := cn_wire_ok cn\<rparr>) = (res, c1)" by fastforce
  note hf = handshake_fields [OF h]
  show ?thesis
  proof (cases res)
    case (Inr rest)
    obtain r c2 where u: "session_up d c1 = (r, c2)" by fastforce
    have c2: "mc_handlers c2 = mc_handlers c1"
      using u resubscribe_fields [of "map fst (mc_handlers c1)" "c1\<lparr>mc_conn := Some d, mc_connected := True\<rparr>"]
      by (simp add: session_up_def Let_def)
    obtain e3 g3 c3 where l: "read_loop rest c2 = (e3, g3, c3)" by (cases "read_loop rest c2")
    show ?thesis
      using assms(1) hf c2 read_loop_fields [OF l]
      by (cases r) (auto simp: run_session_def None h Inr u l Let_def idle_def session_down_def goodbye_def)
  qed (use assms hf in \<open>auto simp: run_session_def None h idle_def\<close>)
qed (use assms in \<open>auto simp: run_session_def idle_def\<close>)


text \<open>Until a round is cancelled, every one of them is tried.\<close>

definition tried :: "attempt list \<Rightarrow> attempt list" where
  "tried as = takeWhile (\<lambda>a. \<not> stops a) as"

lemma run_client_log:
  assumes "run_client o' d backoff as c = (l, c')" "idle c"
  shows "idle c' \<and> mc_handlers c' = mc_handlers c \<and> (rl_returned l \<longleftrightarrow> list_ex stops as) \<and>
    rl_pauses l = map2 (\<lambda>n a. pause ((next_backoff ^^ n) backoff) (at_jitter a)) [0..<length (tried as)] (tried as) \<and>
    length (tried as) \<le> length (rl_warnings l) \<and> length (rl_warnings l) \<le> Suc (length (tried as))"
  using assms
proof (induction as arbitrary: d backoff c l c')
  case (Cons a as)
  obtain e up got c1 where s: "run_session o' d (at_connection a) c = (e, up, got, c1)"
    by (cases "run_session o' d (at_connection a) c")
  note c1 = session_ends_idle [OF s Cons.prems(2)]
  show ?case
  proof (cases "stops a")
    case False
    obtain l2 c2 where r: "run_client o' (Suc d) (next_backoff backoff) as c1 = (l2, c2)" by fastforce
    note IH = Cons.IH [OF r conjunct1 [OF c1]]
    have "map2 (\<lambda>n a. pause ((next_backoff ^^ n) (next_backoff backoff)) (at_jitter a)) [0..<length (tried as)] (tried as) =
        map2 (\<lambda>n a. pause ((next_backoff ^^ n) backoff) (at_jitter a)) [Suc 0..<Suc (length (tried as))] (tried as)"
      by (simp add: map_Suc_upt [symmetric] zip_map1 comp_def case_prod_beta funpow_swap1 del: upt_Suc)
    moreover have "[0..<Suc (length (tried as))] = 0 # [Suc 0..<Suc (length (tried as))]" by (simp add: upt_conv_Cons del: upt_Suc)
    moreover have "\<not> cn_cancelled (at_connection a)" using False by (simp add: stops_def)
    ultimately show ?thesis
      using Cons.prems(1) False IH c1 by (auto simp: s r Let_def tried_def simp del: upt_Suc)
  qed (use Cons.prems c1 in \<open>auto simp: s Let_def tried_def\<close>)
qed (auto simp: tried_def)


text \<open>What a packet of the broker is to the client: an acknowledgement it is owed, a message for a handler.\<close>

definition acked :: "packet \<Rightarrow> bytes list" where
  "acked pkt =
     (if ptype pkt \<noteq> type_publish \<or> packet_qos pkt \<noteq> 1 then []
      else (case decode_publish (pbody pkt) (packet_qos pkt) of Inl e \<Rightarrow> [] | Inr pub \<Rightarrow> [encode_puback (packet_id pub)]))"

definition handed :: "(string \<times> 'h) list \<Rightarrow> packet \<Rightarrow> ('h \<times> string \<times> bytes) list" where
  "handed hs pkt =
     (if ptype pkt \<noteq> type_publish then []
      else
        (case decode_publish (pbody pkt) (packet_qos pkt) of
           Inl e \<Rightarrow> []
         | Inr pub \<Rightarrow>
             (case find (\<lambda>(f, h). topic_matches f (topic pub)) hs of
                None \<Rightarrow> []
              | Some (f, h) \<Rightarrow> [(h, topic pub, content pub)])))"

lemma client_packet_serves:
  assumes "mc_conn c = Some d" "mc_wire_ok c" "client_packet pkt c = (g, c')"
  shows "c' = c\<lparr>mc_written := mc_written c @ map (Pair d) (acked pkt)\<rparr>"
    "(case g of None \<Rightarrow> [] | Some m \<Rightarrow> [m]) = handed (mc_handlers c) pkt"
  using assms
  by (auto simp: client_packet_def acked_def handed_def write_raw_def dispatch_message_def Let_def
      split: sum.splits if_splits option.splits)

lemma read_loop_serves:
  assumes "list_all packet_ok ps" "mc_conn c = Some d" "mc_wire_ok c"
  shows "read_loop (concat (map encode_packet ps)) c =
    (EEof, concat (map (handed (mc_handlers c)) ps), c\<lparr>mc_written := mc_written c @ map (Pair d) (concat (map acked ps))\<rparr>)"
  using assms
proof (induction ps arbitrary: c)
  case Nil
  then show ?case by (simp add: read_loop.simps read_packet_def)
next
  case (Cons pkt ps)
  have r: "read_packet (encode_packet pkt @ concat (map encode_packet ps)) = Inr (pkt, concat (map encode_packet ps))"
    by (rule packets.dec_enc) (use Cons.prems in simp)
  obtain g c1 where g: "client_packet pkt c = (g, c1)" by fastforce
  note c1 = client_packet_serves [OF Cons.prems(2,3) g]
  have "read_loop (concat (map encode_packet ps)) c1 =
      (EEof, concat (map (handed (mc_handlers c)) ps), c1\<lparr>mc_written := mc_written c1 @ map (Pair d) (concat (map acked ps))\<rparr>)"
    using Cons.IH [of c1] Cons.prems by (simp add: c1(1))
  then show ?case
    using c1(2) by (subst read_loop.simps) (auto simp: r g c1(1) Let_def split: option.splits)
qed

lemma resubscribe_ok:
  "mc_conn c = Some d \<Longrightarrow> mc_wire_ok c \<Longrightarrow> \<exists>c'. resubscribe fs c = (None, c') \<and> mc_wire_ok c' \<and> mc_connected c' = mc_connected c"
proof (induction fs arbitrary: c)
  case (Cons f fs)
  obtain r c1 where s: "send_subscribe f c = (r, c1)" by fastforce
  then have "r = None" "mc_conn c1 = Some d" "mc_wire_ok c1" "mc_connected c1 = mc_connected c"
    using Cons.prems by (auto simp: send_subscribe_def write_raw_def Let_def)
  with Cons.IH [of c1] s show ?case by simp
qed simp

section \<open>Properties\<close>

text \<open>
  C28: the client gives up only when it is told to. Over any rounds of any connections, \<open>Run\<close> returns
  exactly if one of them is cancelled, pauses after each of the others for a time that doubles from one
  second to thirty, and leaves the client unconnected with every subscription it had.
\<close>

theorem client_never_gives_up:
  assumes "run_client o' d second as c = (l, c')" "mc_conn c = None" "\<not> mc_connected c"
  shows "(rl_returned l \<longleftrightarrow> list_ex stops as) \<and>
    list_all2 (\<lambda>n w. min (2 ^ n * second) (30 * second) \<le> w \<and> w \<le> 45 * second) [0..<length (takeWhile (\<lambda>a. \<not> stops a) as)] (rl_pauses l) \<and>
    mc_conn c' = None \<and> \<not> mc_connected c' \<and> mc_handlers c' = mc_handlers c"
proof -
  have idle: "idle c" using assms(2,3) by (simp add: idle_def)
  have p: "min (2 ^ n * second) (30 * second) \<le> pause ((next_backoff ^^ n) second) j \<and> pause ((next_backoff ^^ n) second) j \<le> 45 * second"
    for n j
    using backoff_bounded [of n j] by (auto simp: backoff_after_def second_def)
  show ?thesis
    using run_client_log [OF assms(1) idle]
    by (auto simp: idle_def tried_def list_all2_conv_all_nth p)
qed



text \<open>Two lost connections, then one that is served until the client is told to stop.\<close>

abbreviation quiet_connection :: connection where
  "quiet_connection \<equiv> \<lparr>cn_dial = None, cn_write_deadline = None, cn_write = None, cn_read_deadline = None,
     cn_stream = encode_packet \<lparr>ptype = type_connack, pflags = 0, pbody = [0, 0]\<rparr>, cn_clear_deadline = None,
     cn_wire_ok = True, cn_cancelled = True\<rparr>"

abbreviation three_rounds :: "attempt list" where
  "three_rounds \<equiv> [\<lparr>at_connection = quiet_connection\<lparr>cn_dial := Some ''refused'', cn_cancelled := False\<rparr>, at_jitter = 7, at_cancelled = False\<rparr>,
     \<lparr>at_connection = quiet_connection\<lparr>cn_stream := [], cn_cancelled := False\<rparr>, at_jitter = 9, at_cancelled = False\<rparr>,
     \<lparr>at_connection = quiet_connection, at_jitter = 0, at_cancelled = False\<rparr>]"

abbreviation demo_subscriber :: "bool mqtt_client" where
  "demo_subscriber \<equiv> snd (client_subscribe ''a/+'' True new_client)"

theorem client_never_gives_up_witness:
  "\<exists>l c'. run_client (client_options \<lparr>mo_client_id = [], mo_username = [], mo_password = [], mo_keep_alive = 0, mo_will_topic = [],
      mo_will_payload = [], mo_will_retain = False\<rparr>) 0 second three_rounds demo_subscriber = (l, c') \<and>
    rl_returned l \<and> length (rl_pauses l) = 2 \<and> map fst (mc_handlers c') = [''a/+'']"
proof -
  let ?o = "client_options \<lparr>mo_client_id = [], mo_username = [], mo_password = [], mo_keep_alive = 0, mo_will_topic = [],
      mo_will_payload = [], mo_will_retain = False\<rparr>"
  obtain l c' where r: "run_client ?o 0 second three_rounds demo_subscriber = (l, c')" by fastforce
  have c: "mc_conn demo_subscriber = None" "\<not> mc_connected demo_subscriber" "map fst (mc_handlers demo_subscriber) = [''a/+'']" by code_simp+
  have t: "list_ex stops three_rounds" "length (takeWhile (\<lambda>a. \<not> stops a) three_rounds) = 2" by (simp_all add: stops_def)
  note go = client_never_gives_up [OF r c(1,2)]
  have "rl_returned l" using go t(1) by blast
  moreover have "length (rl_pauses l) = 2" using go t(2) by (auto dest: list_all2_lengthD)
  moreover have "map fst (mc_handlers c') = [''a/+'']" using go c(3) by metis
  ultimately show ?thesis by (intro exI [of _ l] exI [of _ c'] conjI r)
qed


end
