(* ===== verification/Arrival.thy ===== *)
theory Arrival
  imports Server
begin

text \<open>
  What happens to a connection before its first packet, \<open>internal/server\<close> (server.go, tls.go): the first
  byte decides between cleartext and TLS, a peer that says nothing leaves no event, and what a TLS
  client offers is examined. Cryptography is outside: the outcome of a handshake is a parameter, and so
  are the library's names of cipher suites. Certificates are in Certs.
\<close>

section \<open>Sniffing\<close>

definition tls_record_handshake :: byte where
  "tls_record_handshake = 0x16"

datatype sniffed = Cleartext | OverTls | NothingSent string | TlsFailed string

text \<open>\<open>peeked\<close> is the first byte or the error of reading it; \<open>tls\<close> is how the handshake ends.\<close>

definition sniff :: "string \<Rightarrow> string + byte \<Rightarrow> string option \<Rightarrow> sniffed" where
  "sniff remote peeked tls =
     (case peeked of
        Inl e \<Rightarrow> NothingSent (''connection closed before sending anything from '' @ remote @ '': '' @ e)
      | Inr b \<Rightarrow>
          if b \<noteq> tls_record_handshake then Cleartext
          else (case tls of None \<Rightarrow> OverTls | Some e \<Rightarrow> TlsFailed (''TLS handshake with '' @ remote @ '' failed: '' @ e)))"

text \<open>One connection accepted by \<open>Serve\<close>: a session is made, or an event published, or neither.\<close>

definition arrive :: "nat \<Rightarrow> string \<Rightarrow> sniffed \<Rightarrow> time \<Rightarrow> 'a world_scheme \<Rightarrow> 'a world_scheme" where
  "arrive d remote s now w =
     (case s of
        NothingSent _ \<Rightarrow> w
      | TlsFailed e \<Rightarrow>
          emit \<lparr>ev_at = now, ev_kind = ProtocolError, ev_device = [], ev_name = [], ev_changed = [], ev_detail = e\<rparr> w
      | _ \<Rightarrow> w\<lparr>w_sessions := (w_sessions w)(d \<mapsto> new_session remote)\<rparr>)"

section \<open>Accepting\<close>

text \<open>
  \<open>Serve\<close> against what the listener hands out: connections, each with what becomes of it, and at last
  an error, the result of which depends on whether the context was cancelled. None means that it still
  accepts; connections are numbered as they come.
\<close>

datatype accepted = Accepted string sniffed time | AcceptFailed string

fun serve_listener :: "bool \<Rightarrow> nat \<Rightarrow> accepted list \<Rightarrow> 'a world_scheme \<Rightarrow> string option option \<times> 'a world_scheme" where
  "serve_listener stopping d [] w = (None, w)"
| "serve_listener stopping d (Accepted remote s now # as) w = serve_listener stopping (Suc d) as (arrive d remote s now w)"
| "serve_listener stopping d (AcceptFailed e # as) w =
     (Some (if stopping then None else Some (''accepting connections: '' @ e)), w)"

definition listen_and_serve ::
  "string \<Rightarrow> string option \<Rightarrow> bool \<Rightarrow> nat \<Rightarrow> accepted list \<Rightarrow> 'a world_scheme \<Rightarrow> string option option \<times> 'a world_scheme" where
  "listen_and_serve addr bind stopping d as w =
     (case bind of
        Some e \<Rightarrow> (Some (Some (''listening on '' @ addr @ '': '' @ e @
          ''. is another process using the port, or does binding it need privileges?'')), w)
      | None \<Rightarrow> serve_listener stopping d as w)"

section \<open>What a TLS client offers\<close>

fun upper_hex :: "nat \<Rightarrow> nat \<Rightarrow> string" where
  "upper_hex 0 n = []"
| "upper_hex (Suc k) n =
     upper_hex k (n div 16) @ [if n mod 16 < 10 then digit (n mod 16) else char_of (55 + n mod 16)]"

definition suite_id_text :: "16 word \<Rightarrow> string" where
  "suite_id_text i = ''0x'' @ upper_hex 4 (unat i)"

definition offers_psk :: "(16 word \<Rightarrow> string) \<Rightarrow> 16 word list \<Rightarrow> bool" where
  "offers_psk suite_name ids \<longleftrightarrow>
     list_ex (\<lambda>i. contains (suite_name i) ''PSK'' \<or> suite_name i = suite_id_text i \<and> is_psk_suite i) ids"

definition log_client_hello ::
  "(16 word \<Rightarrow> string) \<Rightarrow> string \<Rightarrow> 16 word list \<Rightarrow> time \<Rightarrow> 'a world_scheme \<Rightarrow> 'a world_scheme" where
  "log_client_hello suite_name remote ids now w =
     (if offers_psk suite_name ids
      then emit \<lparr>ev_at = now, ev_kind = ProtocolError, ev_device = [], ev_name = [], ev_changed = [],
             ev_detail = remote @ '' uses TLS-PSK (Alibaba iTLS): no certificate can satisfy it, '' @
               ''the device secret would have to be extracted from the firmware''\<rparr> w
      else w)"

definition bulb_cipher_suites :: "16 word list" where
  "bulb_cipher_suites = [0x0035, 0x003C, 0x002F, 0xC02F, 0xC030, 0x009C, 0x009D]"

section \<open>Facts\<close>

text \<open>A connection that becomes a session is one of the steps of the server.\<close>

lemma arrive_step:
  "w_sessions w d = None \<Longrightarrow> s = Cleartext \<or> s = OverTls \<Longrightarrow> srv_step admit w (arrive d remote s now w)"
  by (auto simp: arrive_def intro: srv_step.accept)

text \<open>Nothing a peer does ends the listener, and each connection it accepts is a step of the server or leaves it alone.\<close>

lemma listener_goes_on: "fst (serve_listener stopping d as w) = None \<longleftrightarrow> (\<forall>a\<in>set as. \<exists>r s t. a = Accepted r s t)"
  by (induction stopping d as w rule: serve_listener.induct) auto

lemma arrive_sessions: "w_sessions (arrive d remote s now w) e = (if e = d \<and> s \<in> {Cleartext, OverTls} then Some (new_session remote) else w_sessions w e)"
  by (auto simp: arrive_def emit_def split: sniffed.split)

text \<open>A probe that connects and says nothing leaves no trace.\<close>

lemma probe_is_quiet: "arrive d remote (sniff remote (Inl e) tls) now w = w"
  by (simp add: sniff_def arrive_def)

text \<open>
  A client that offers a suite the server can serve beside a pre-shared-key one is reported as one that
  no certificate can satisfy.
\<close>

lemma mixed_offer_reported:
  assumes "suite_name 0x008C = suite_id_text 0x008C"
  shows "offers_psk suite_name [0x0035, 0x008C] \<and> (0x0035 :: 16 word) \<in> set bulb_cipher_suites"
  using assms by (simp add: offers_psk_def bulb_cipher_suites_def is_psk_suite_def word_le_def)

end
