(* ===== verification/Times.thy ===== *)
theory Times
  imports GoStrings "HOL-Library.Monad_Syntax"
begin

text \<open>
  \<open>time.Time\<close> as text: what \<open>MarshalJSON\<close> writes into the registry file and \<open>UnmarshalJSON\<close> reads
  back. An instant is a number of nanoseconds; the offset of the zone it is shown in is the local one
  of the host, an argument. The calendar is the proleptic Gregorian one of the standard library.
\<close>

section \<open>The calendar\<close>

definition leap :: "int \<Rightarrow> bool" where
  "leap y \<longleftrightarrow> y mod 4 = 0 \<and> (y mod 100 \<noteq> 0 \<or> y mod 400 = 0)"

definition month_lengths :: "int \<Rightarrow> int list" where
  "month_lengths y = [31, if leap y then 29 else 28, 31, 30, 31, 30, 31, 31, 30, 31, 30, 31]"

text \<open>Days between the first day of year 1 and that of year \<open>y\<close>.\<close>

definition days_before_year :: "int \<Rightarrow> int" where
  "days_before_year y = 365 * (y - 1) + (y - 1) div 4 - (y - 1) div 100 + (y - 1) div 400"

text \<open>The year of a day and the day of the year: by cycles of 400, 100 and 4 years.\<close>

definition year_of :: "int \<Rightarrow> int \<times> int" where
  "year_of d =
     (let a = d div 146097; d1 = d mod 146097;
          b = min 3 (d1 div 36524); d2 = d1 - 36524 * b;
          c = d2 div 1461; d3 = d2 mod 1461;
          e = min 3 (d3 div 365)
      in (400 * a + 100 * b + 4 * c + e + 1, d3 - 365 * e))"

fun month_of :: "int list \<Rightarrow> int \<Rightarrow> nat \<times> int" where
  "month_of [] d = (0, d)"
| "month_of (l # ls) d = (if d < l then (0, d) else (let (m, r) = month_of ls (d - l) in (Suc m, r)))"

text \<open>\<open>time.Date\<close>: the instant of a civil date and time at an offset in seconds; months count from 0.\<close>

definition unix_days :: int where
  "unix_days = 719162"

definition instant :: "int \<Rightarrow> nat \<Rightarrow> int \<Rightarrow> int \<Rightarrow> int \<Rightarrow> int \<Rightarrow> time" where
  "instant y m d secs nanos off =
     ((days_before_year y + sum_list (take m (month_lengths y)) + d - unix_days) * 86400 + secs - off) * second + nanos"

section \<open>Writing\<close>

fun pad_num :: "nat \<Rightarrow> nat \<Rightarrow> string" where
  "pad_num 0 n = []"
| "pad_num (Suc k) n = pad_num k (n div 10) @ [digit (n mod 10)]"

text \<open>The fraction without trailing zeros.\<close>

definition nanos_text :: "nat \<Rightarrow> string" where
  "nanos_text nanos =
     (if nanos = 0 then []
      else CHR ''.'' # rev (dropWhile (\<lambda>c. c = CHR ''0'') (rev (pad_num 9 nanos))))"

text \<open>Seconds of an offset are cut off; only an offset of exactly zero is written as Z.\<close>

definition zone_text :: "int \<Rightarrow> string" where
  "zone_text off =
     (if off = 0 then ''Z''
      else
        (let mins = nat (\<bar>off\<bar> div 60)
         in (if off \<le> - 60 then CHR ''-'' else CHR ''+'') # pad_num 2 (mins div 60) @ CHR '':'' # pad_num 2 (mins mod 60)))"

text \<open>\<open>time.Time.MarshalJSON\<close>, without the quotes; None is its error for years and zones out of range.\<close>

definition format_time :: "int \<Rightarrow> time \<Rightarrow> string option" where
  "format_time off t =
     (let secs = t div second + off;
          (y, yd) = year_of (secs div 86400 + unix_days);
          (m, d) = month_of (month_lengths y) yd;
          sod = secs mod 86400
      in if y < 0 \<or> 9999 < y \<or> 24 * 3600 \<le> \<bar>off\<bar> then None
         else Some (pad_num 4 (nat y) @ CHR ''-'' # pad_num 2 (Suc m) @ CHR ''-'' # pad_num 2 (nat d + 1) @
           CHR ''T'' # pad_num 2 (nat (sod div 3600)) @ CHR '':'' # pad_num 2 (nat (sod div 60 mod 60)) @
           CHR '':'' # pad_num 2 (nat (sod mod 60)) @ nanos_text (nat (t mod second)) @ zone_text off))"

section \<open>Reading\<close>

definition number_at :: "nat \<Rightarrow> nat \<Rightarrow> nat \<Rightarrow> string \<Rightarrow> (nat \<times> string) option" where
  "number_at k lo hi s =
     (let ds = take k s; n = str_nat ds
      in if length ds = k \<and> list_all is_digit ds \<and> lo \<le> n \<and> n \<le> hi then Some (n, drop k s) else None)"

definition char_at :: "char \<Rightarrow> string \<Rightarrow> string option" where
  "char_at c s = (case s of d # r \<Rightarrow> if d = c then Some r else None | [] \<Rightarrow> None)"

text \<open>A point and at least one digit; digits behind the ninth are cut off.\<close>

definition fraction_at :: "string \<Rightarrow> nat \<times> string" where
  "fraction_at s =
     (case s of
        c # r \<Rightarrow>
          (let ds = takeWhile is_digit r; ds9 = take 9 ds
           in if c = CHR ''.'' \<and> ds \<noteq> [] then (str_nat ds9 * 10 ^ (9 - length ds9), dropWhile is_digit r) else (0, s))
      | [] \<Rightarrow> (0, s))"

definition zone_at :: "string \<Rightarrow> int option" where
  "zone_at s =
     (if s = ''Z'' then Some 0
      else
        (case s of
           [] \<Rightarrow> None
         | sign # r \<Rightarrow>
             do {
               (hh, r) \<leftarrow> number_at 2 0 23 r;
               r \<leftarrow> char_at CHR '':'' r;
               (mm, r) \<leftarrow> number_at 2 0 59 r;
               (let off = int (hh * 60 + mm) * 60
                in if r \<noteq> [] then None
                   else if sign = CHR ''-'' then Some (- off)
                   else if sign = CHR ''+'' then Some off
                   else None)
             }))"

text \<open>\<open>time.parseRFC3339\<close>.\<close>

definition parse_rfc3339 :: "string \<Rightarrow> time option" where
  "parse_rfc3339 s = do {
     (y, s) \<leftarrow> number_at 4 0 9999 s;
     s \<leftarrow> char_at CHR ''-'' s;
     (m, s) \<leftarrow> number_at 2 1 12 s;
     s \<leftarrow> char_at CHR ''-'' s;
     (d, s) \<leftarrow> number_at 2 1 (nat (month_lengths (int y) ! (m - 1))) s;
     s \<leftarrow> char_at CHR ''T'' s;
     (hh, s) \<leftarrow> number_at 2 0 23 s;
     s \<leftarrow> char_at CHR '':'' s;
     (mi, s) \<leftarrow> number_at 2 0 59 s;
     s \<leftarrow> char_at CHR '':'' s;
     (ss, s) \<leftarrow> number_at 2 0 59 s;
     (let (ns, s) = fraction_at s
      in map_option (\<lambda>off. instant (int y) (m - 1) (int d - 1) (int (hh * 3600 + mi * 60 + ss)) (int ns) off) (zone_at s))
   }"

text \<open>
  \<open>UnmarshalJSON\<close>: texts outside the format go to the template parser of the library, which takes
  some more (a comma before the fraction, an hour of one digit); what it makes of them is an argument.
\<close>

definition parse_time :: "(string \<Rightarrow> time option) \<Rightarrow> string \<Rightarrow> time option" where
  "parse_time lenient s = (case parse_rfc3339 s of Some t \<Rightarrow> Some t | None \<Rightarrow> lenient s)"

section \<open>The calendar counts every day once\<close>

lemma year_of_spec:
  assumes "year_of d = (y, yd)"
  shows "d = days_before_year y + yd" "0 \<le> yd" "yd < 365 + (if leap y then 1 else 0)"
proof -
  define a d1 where "a = d div 146097" and "d1 = d mod 146097"
  define b d2 where "b = min 3 (d1 div 36524)" and "d2 = d1 - 36524 * b"
  define c d3 where "c = d2 div 1461" and "d3 = d2 mod 1461"
  define e where "e = min 3 (d3 div 365)"
  have "year_of d = (400 * a + 100 * b + 4 * c + e + 1, d3 - 365 * e)"
    unfolding year_of_def Let_def a_def d1_def b_def d2_def c_def d3_def e_def by (rule refl)
  then have y: "y = 400 * a + 100 * b + 4 * c + e + 1" and yd: "yd = d3 - 365 * e" using assms by simp_all
  have d: "d = 146097 * a + d1" "0 \<le> d1" "d1 < 146097" by (simp_all add: a_def d1_def)
  have b: "0 \<le> b" "b \<le> 3" "0 \<le> d2" "d2 \<le> 36524" "b < 3 \<Longrightarrow> d2 < 36524" using d(2,3) by (auto simp: b_def d2_def min_def)
  have c: "d2 = 1461 * c + d3" "0 \<le> d3" "d3 < 1461" by (simp_all add: c_def d3_def)
  have c': "0 \<le> c" "c \<le> 24" using b(3,4) c by auto
  have e: "0 \<le> e" "e \<le> 3" using c(2,3) by (auto simp: e_def min_def)
  show "0 \<le> yd" using c(2,3) by (auto simp: yd e_def min_def)
  have "(y - 1) div 4 = 100 * a + 25 * b + c" by (rule int_div_pos_eq [where r = e]) (use e y in simp_all)
  moreover have "(y - 1) div 100 = 4 * a + b" by (rule int_div_pos_eq [where r = "4 * c + e"]) (use c' e y in simp_all)
  moreover have "(y - 1) div 400 = a" by (rule int_div_pos_eq [where r = "100 * b + 4 * c + e"]) (use b(1,2) c' e y in simp_all)
  ultimately have parts: "(y - 1) div 4 = 100 * a + 25 * b + c" "(y - 1) div 100 = 4 * a + b" "(y - 1) div 400 = a" by auto
  have "d = 146097 * a + 36524 * b + 1461 * c + 365 * e + yd" using d(1) c(1) by (simp add: d2_def yd)
  then show "d = days_before_year y + yd" by (simp add: days_before_year_def parts) (simp add: y)
  have last: "yd \<le> 365" "e < 3 \<Longrightarrow> yd < 365" using c(2,3) by (auto simp: yd e_def min_def)
  have "leap y" if "yd = 365"
  proof -
    have "e = 3" using that last(2) e(2) by force
    have "d3 = 1460" using that yd \<open>e = 3\<close> by simp
    have "c < 24 \<or> b = 3" using c(1) b(4,5) \<open>d3 = 1460\<close> c'(2) b(2) by (cases "b = 3") auto
    then show ?thesis
    proof
      assume "c < 24"
      have "y mod 4 = 0" unfolding y \<open>e = 3\<close> by presburger
      moreover have "y mod 100 = 4 * c + 4"
        by (rule int_mod_pos_eq [where q = "4 * a + b"]) (use \<open>c < 24\<close> c' in \<open>simp_all add: y \<open>e = 3\<close>\<close>)
      ultimately show ?thesis using c'(1) by (simp add: leap_def)
    next
      assume "b = 3"
      have "y mod 4 = 0" unfolding y \<open>e = 3\<close> by presburger
      moreover have "y mod 400 = 0" if "c = 24"
        by (rule int_mod_pos_eq [where q = "a + 1"]) (simp_all add: y \<open>e = 3\<close> \<open>b = 3\<close> that)
      moreover have "y mod 100 = 4 * c + 4" if "c < 24"
        by (rule int_mod_pos_eq [where q = "4 * a + b"]) (use that c' in \<open>simp_all add: y \<open>e = 3\<close>\<close>)
      ultimately show ?thesis using c' by (cases "c = 24") (simp_all add: leap_def)
    qed
  qed
  then show "yd < 365 + (if leap y then 1 else 0)" using last(1) by force
qed

lemma month_of_spec:
  assumes "month_of ls d = (m, r)" "0 \<le> d" "d < sum_list ls"
  shows "m < length ls \<and> 0 \<le> r \<and> r < ls ! m \<and> d = sum_list (take m ls) + r"
  using assms
proof (induction ls arbitrary: d m r)
  case (Cons l ls)
  show ?case
  proof (cases "d < l")
    case False
    obtain m' r' where m: "month_of ls (d - l) = (m', r')" by fastforce
    from Cons.IH [OF m] False Cons.prems m show ?thesis by auto
  qed (use Cons.prems in auto)
qed simp

lemma sum_month_lengths: "sum_list (month_lengths y) = 365 + (if leap y then 1 else 0)"
  by (simp add: month_lengths_def)

lemma month_lengths_bound: "m < 12 \<Longrightarrow> 28 \<le> month_lengths y ! m \<and> month_lengths y ! m \<le> 31"
  by (simp add: month_lengths_def nth_Cons' eval_nat_numeral)

lemma length_month_lengths [simp]: "length (month_lengths y) = 12"
  by (simp add: month_lengths_def)

section \<open>What was written is read\<close>

lemma pad_num_digits: "length (pad_num k n) = k" "list_all is_digit (pad_num k n)"
  by (induction k arbitrary: n) simp_all

lemma str_nat_snoc: "str_nat (s @ [c]) = 10 * str_nat s + (code c - 48)"
  by (simp add: str_nat_def)

lemma str_nat_pad: "n < 10 ^ k \<Longrightarrow> str_nat (pad_num k n) = n"
proof (induction k arbitrary: n)
  case (Suc k)
  then have "n div 10 < 10 ^ k" by (simp add: less_mult_imp_div_less mult.commute)
  from Suc.IH [OF this] show ?case by (simp add: str_nat_snoc)
qed (simp add: str_nat_def)

lemma number_at_pad: "n < 10 ^ k \<Longrightarrow> lo \<le> n \<Longrightarrow> n \<le> hi \<Longrightarrow> number_at k lo hi (pad_num k n @ r) = Some (n, r)"
  by (simp add: number_at_def pad_num_digits str_nat_pad Let_def)

lemma char_at_Cons [simp]: "char_at c (c # r) = Some r"
  by (simp add: char_at_def)

lemma zone_at_text:
  assumes "\<bar>off\<bar> < 24 * 3600" "off mod 60 = 0"
  shows "zone_at (zone_text off) = Some off"
proof (cases "off = 0")
  case False
  define mins where "mins = nat (\<bar>off\<bar> div 60)"
  have abs: "\<bar>off\<bar> = int mins * 60" using assms(2) by (auto simp: mins_def abs_if mod_eq_0_iff_dvd elim!: dvdE)
  have h: "mins div 60 \<le> 23" using assms(1) abs by linarith
  have m: "mins mod 60 \<le> 59" by (simp add: less_Suc_eq_le [symmetric])
  have "number_at 2 0 23 (pad_num 2 (mins div 60) @ r) = Some (mins div 60, r)" for r using h by (intro number_at_pad) simp_all
  moreover have "number_at 2 0 59 (pad_num 2 (mins mod 60)) = Some (mins mod 60, [])"
    using number_at_pad [of "mins mod 60" 2 0 59 "[]"] m by simp
  moreover have "int (mins div 60 * 60 + mins mod 60) * 60 = \<bar>off\<bar>" by (simp add: abs del: of_nat_add of_nat_mult)
  moreover have "off \<le> - 60 \<longleftrightarrow> off < 0" using abs False by (cases mins) auto
  ultimately show ?thesis using False
    by (simp add: zone_at_def zone_text_def Let_def mins_def [symmetric] del: of_nat_add of_nat_mult)
qed (simp add: zone_at_def zone_text_def)

lemma zone_text_hd: "\<exists>c r. zone_text off = c # r \<and> \<not> is_digit c \<and> c \<noteq> CHR ''.''"
  by (simp add: zone_text_def Let_def is_digit_def)

lemma str_nat_zeros: "str_nat (s @ replicate j (CHR ''0'')) = str_nat s * 10 ^ j"
  by (induction j arbitrary: s) (simp_all add: replicate_append_same [symmetric] str_nat_snoc flip: append_assoc)

lemma trailing_zeros: "\<exists>j. s = rev (dropWhile (\<lambda>c. c = CHR ''0'') (rev s)) @ replicate j (CHR ''0'')"
proof -
  have "rev s = takeWhile (\<lambda>c. c = CHR ''0'') (rev s) @ dropWhile (\<lambda>c. c = CHR ''0'') (rev s)" by simp
  moreover have "takeWhile (\<lambda>c. c = CHR ''0'') (rev s) = replicate (length (takeWhile (\<lambda>c. c = CHR ''0'') (rev s))) (CHR ''0'')"
    by (intro replicate_eqI) (auto dest: set_takeWhileD)
  ultimately show ?thesis by (metis rev_append rev_replicate rev_rev_ident)
qed

lemma nanos_at_text:
  assumes "nanos < 10 ^ 9" "r = c # r'" "\<not> is_digit c" "c \<noteq> CHR ''.''"
  shows "fraction_at (nanos_text nanos @ r) = (nanos, r)"
proof (cases "nanos = 0")
  case False
  let ?p = "pad_num 9 nanos"
  define t where "t = rev (dropWhile (\<lambda>c. c = CHR ''0'') (rev ?p))"
  obtain j where j: "?p = t @ replicate j (CHR ''0'')" using trailing_zeros unfolding t_def by blast
  have len: "length t + j = 9" using arg_cong [OF j, of length] by (simp add: pad_num_digits del: pad_num.simps)
  have "str_nat ?p = nanos" by (rule str_nat_pad) (use assms(1) in simp)
  then have val: "str_nat t * 10 ^ j = nanos" unfolding j str_nat_zeros .
  have "list_all is_digit ?p" by (rule pad_num_digits)
  then have dig: "list_all is_digit t" unfolding j by simp
  have ne: "t \<noteq> []" using val False by (auto simp: str_nat_def)
  have "takeWhile is_digit (t @ r) = t" "dropWhile is_digit (t @ r) = r"
    using dig assms(2,3) by (simp_all add: takeWhile_append2 dropWhile_append2 list_all_iff)
  moreover have "take 9 t = t" "9 - length t = j" using len by simp_all
  ultimately show ?thesis using False ne val by (simp add: nanos_text_def fraction_at_def Let_def flip: t_def)
qed (use assms in \<open>simp add: nanos_text_def fraction_at_def\<close>)

text \<open>An instant shown in a zone of whole minutes is read back exactly.\<close>

lemma parse_format:
  assumes "format_time off t = Some s" "off mod 60 = 0"
  shows "parse_rfc3339 s = Some t"
proof -
  define secs where "secs = t div second + off"
  define sod where "sod = secs mod 86400"
  obtain y yd where y: "year_of (secs div 86400 + unix_days) = (y, yd)" by fastforce
  obtain m d where m: "month_of (month_lengths y) yd = (m, d)" by fastforce
  have s: "s = pad_num 4 (nat y) @ CHR ''-'' # pad_num 2 (Suc m) @ CHR ''-'' # pad_num 2 (nat d + 1) @
      CHR ''T'' # pad_num 2 (nat (sod div 3600)) @ CHR '':'' # pad_num 2 (nat (sod div 60 mod 60)) @
      CHR '':'' # pad_num 2 (nat (sod mod 60)) @ nanos_text (nat (t mod second)) @ zone_text off"
    and y0: "0 \<le> y" "y \<le> 9999" and off: "\<bar>off\<bar> < 24 * 3600"
    using assms(1) by (auto simp: format_time_def Let_def secs_def [symmetric] sod_def [symmetric] y m split: if_splits)
  note ys = year_of_spec [OF y]
  have md: "m < 12" "0 \<le> d" "d < month_lengths y ! m" "yd = sum_list (take m (month_lengths y)) + d"
    using month_of_spec [OF m ys(2)] ys(3) by (simp_all add: sum_month_lengths)
  have d31: "d < 31" using md(3) month_lengths_bound [OF md(1), of y] by simp
  have sod: "0 \<le> sod" "sod < 86400" by (simp_all add: sod_def)
  obtain c r where z: "zone_text off = c # r" "\<not> is_digit c" "c \<noteq> CHR ''.''" using zone_text_hd by blast
  have nanos: "nat (t mod second) < 10 ^ 9" "int (nat (t mod second)) = t mod second" by (simp_all add: second_def nat_less_iff)
  have frac: "fraction_at (nanos_text (nat (t mod second)) @ zone_text off) = (nat (t mod second), zone_text off)"
    by (rule nanos_at_text [OF nanos(1) z])
  have y1: "int (nat y) = y" using y0 by simp
  have n4: "number_at 4 0 9999 (pad_num 4 (nat y) @ q) = Some (nat y, q)" for q using y0 by (intro number_at_pad) simp_all
  have nm: "number_at 2 1 12 (pad_num 2 (Suc m) @ q) = Some (Suc m, q)" for q using md(1) by (intro number_at_pad) simp_all
  have nd: "number_at 2 1 (nat (month_lengths y ! m)) (pad_num 2 (nat d + 1) @ q) = Some (nat d + 1, q)" for q
    using md(2,3) d31 by (intro number_at_pad) simp_all
  have nh: "number_at 2 0 23 (pad_num 2 (nat (sod div 3600)) @ q) = Some (nat (sod div 3600), q)" for q
    using sod by (intro number_at_pad) simp_all
  have n60: "number_at 2 0 59 (pad_num 2 (nat (x mod 60)) @ q) = Some (nat (x mod 60), q)" for q and x :: int
  proof -
    have "nat (x mod 60) < 60" by (simp add: nat_less_iff)
    then show ?thesis by (intro number_at_pad) simp_all
  qed
  have sod_eq: "int (nat (sod div 3600) * 3600 + nat (sod div 60 mod 60) * 60 + nat (sod mod 60)) = sod"
  proof -
    have "sod div 60 div 60 = sod div 3600" by (simp add: zdiv_zmult2_eq [symmetric])
    moreover have "sod = sod div 60 * 60 + sod mod 60" "sod div 60 = sod div 60 div 60 * 60 + sod div 60 mod 60" by simp_all
    moreover have "0 \<le> sod div 3600" using sod by simp
    moreover have "int (nat (sod div 3600) * 3600 + nat (sod div 60 mod 60) * 60 + nat (sod mod 60)) =
        sod div 3600 * 3600 + sod div 60 mod 60 * 60 + sod mod 60" using sod by simp
    ultimately show ?thesis by linarith
  qed
  have "parse_rfc3339 s =
      Some (instant (int (nat y)) (Suc m - 1) (int (nat d + 1) - 1)
        (int (nat (sod div 3600) * 3600 + nat (sod div 60 mod 60) * 60 + nat (sod mod 60))) (int (nat (t mod second))) off)"
    by (simp only: s parse_rfc3339_def n4 nm diff_Suc_1 y1 nd nh n60 frac char_at_Cons Option.bind_lunit case_prod_conv Let_def
        zone_at_text [OF off assms(2)] option.map)
  then have "parse_rfc3339 s = Some (instant y m d sod (t mod second) off)" using md(2) by (simp only: y1 diff_Suc_1 sod_eq nanos(2)) simp
  moreover have "instant y m d sod (t mod second) off = t"
  proof -
    have days: "days_before_year y + sum_list (take m (month_lengths y)) + d - unix_days = secs div 86400"
      using ys(1) md(4) by simp
    have "secs div 86400 * 86400 + sod = secs" by (simp add: sod_def)
    then have "secs div 86400 * 86400 + sod - off = t div second" by (simp add: secs_def)
    then show ?thesis by (simp add: instant_def days)
  qed
  ultimately show ?thesis by simp
qed

end
