(* ===== verification/Certs.thy ===== *)
theory Certs
  imports Arrival Times
begin

text \<open>
  The server's own certificates, \<open>internal/server/tls.go\<close>: one long-lived RSA key in a file, and a
  self-signed certificate for every name a lamp asks for. Encodings of keys, random numbers, signing
  and the parser of addresses belong to the library and are arguments; the key file, its loss and its
  replacement, the template of a certificate and what is kept of it are modelled.
\<close>

section \<open>The key\<close>

record ('key, 'cert) cert_source =
  cs_path :: string
  cs_key :: "'key option"
  cs_certs :: "(string \<times> 'cert) list"

definition new_cert_source :: "string \<Rightarrow> ('key, 'cert) cert_source" where
  "new_cert_source path = \<lparr>cs_path = path, cs_key = None, cs_certs = []\<rparr>"

text \<open>What the library makes of key files: both parsers, the second saying whether the key is RSA.\<close>

record 'key key_codec =
  kc_pkcs1 :: "bytes \<Rightarrow> 'key option"
  kc_pkcs8 :: "bytes \<Rightarrow> 'key option option"
  kc_marshal :: "'key \<Rightarrow> bytes"

text \<open>\<open>file\<close> is what reading the path yields; the flag says that an unusable key is reported.\<close>

definition read_key :: "'key key_codec \<Rightarrow> string \<Rightarrow> bytes option \<Rightarrow> 'key option \<times> bool" where
  "read_key kc path file =
     (if path = [] then (None, False)
      else
        (case file of
           None \<Rightarrow> (None, False)
         | Some raw \<Rightarrow>
             (case kc_pkcs1 kc raw of
                Some k \<Rightarrow> (Some k, False)
              | None \<Rightarrow>
                  (case kc_pkcs8 kc raw of
                     Some (Some k) \<Rightarrow> (Some k, False)
                   | _ \<Rightarrow> (None, True)))))"

text \<open>What generating and storing a key may meet: no randomness, no directory or file to write to, a write cut short.\<close>

record 'key key_luck =
  kl_fresh :: "string + 'key"
  kl_mkdir_ok :: bool
  kl_write_cut :: "nat option"

definition store_key :: "'key key_codec \<Rightarrow> 'key key_luck \<Rightarrow> string \<Rightarrow> 'key \<Rightarrow> bytes option \<Rightarrow> bytes option" where
  "store_key kc luck path k file =
     (if path = [] \<or> \<not> kl_mkdir_ok luck then file
      else Some (case kl_write_cut luck of None \<Rightarrow> kc_marshal kc k | Some n \<Rightarrow> take n (kc_marshal kc k)))"

definition load_key ::
  "'key key_codec \<Rightarrow> 'key key_luck \<Rightarrow> ('key, 'cert) cert_source \<Rightarrow> bytes option \<Rightarrow>
    (string + 'key) \<times> ('key, 'cert) cert_source \<times> bytes option" where
  "load_key kc luck c file =
     (case cs_key c of
        Some k \<Rightarrow> (Inr k, c, file)
      | None \<Rightarrow>
          (case fst (read_key kc (cs_path c) file) of
             Some k \<Rightarrow> (Inr k, c\<lparr>cs_key := Some k\<rparr>, file)
           | None \<Rightarrow>
               (case kl_fresh luck of
                  Inl e \<Rightarrow> (Inl (''generating a TLS key: '' @ e), c, file)
                | Inr k \<Rightarrow> (Inr k, c\<lparr>cs_key := Some k\<rparr>, store_key kc luck (cs_path c) k file))))"

section \<open>The certificate\<close>

datatype key_usage = DigitalSignature | KeyEncipherment | CertSign

record 'ip cert_template =
  ct_serial :: nat
  ct_common_name :: string
  ct_organization :: "string list"
  ct_not_before :: time
  ct_not_after :: time
  ct_usage :: "key_usage list"
  ct_server_auth :: bool
  ct_is_ca :: bool
  ct_addresses :: "'ip list"
  ct_dns_names :: "string list"

definition day :: duration where
  "day = 86400 * second"

text \<open>
  \<open>time.AddDate(n, 0, 0)\<close> at an offset from Greenwich: the same date \<open>n\<close> years on, the day after the last
  of February where that year has no leap day.
\<close>

definition add_years :: "int \<Rightarrow> int \<Rightarrow> time \<Rightarrow> time" where
  "add_years off n t =
     (let secs = t div second + off;
          (y, yd) = year_of (secs div 86400 + unix_days);
          (m, d) = month_of (month_lengths y) yd
      in instant (y + n) m d (secs mod 86400) (t mod second) off)"

definition template_for :: "(string \<Rightarrow> 'ip option) \<Rightarrow> nat \<Rightarrow> int \<Rightarrow> time \<Rightarrow> string \<Rightarrow> 'ip cert_template" where
  "template_for parse_ip serial off now name =
     \<lparr>ct_serial = serial, ct_common_name = (if name = [] then ''haigosmart'' else name), ct_organization = [''haigosmart''],
      ct_not_before = now - day, ct_not_after = add_years off 10 now,
      ct_usage = [DigitalSignature, KeyEncipherment, CertSign], ct_server_auth = True, ct_is_ca = True,
      ct_addresses = (case parse_ip name of Some ip \<Rightarrow> [ip] | None \<Rightarrow> []),
      ct_dns_names = (if parse_ip name = None \<and> name \<noteq> [] then [name] else [])\<rparr>"

text \<open>A certificate as it is kept: the signed bytes with the key that goes with them.\<close>

record 'key certificate =
  cert_der :: bytes
  cert_key :: 'key

text \<open>\<open>certificateFor\<close>; \<open>serial\<close> is the random number and \<open>sign\<close> the library's signing with the template's own key.\<close>

definition certificate_for ::
  "'key key_codec \<Rightarrow> 'key key_luck \<Rightarrow> string + nat \<Rightarrow> ('ip cert_template \<Rightarrow> 'key \<Rightarrow> string + bytes) \<Rightarrow> (string \<Rightarrow> string) \<Rightarrow>
    (string \<Rightarrow> 'ip option) \<Rightarrow> int \<Rightarrow> time \<Rightarrow> string \<Rightarrow> ('key, 'key certificate) cert_source \<Rightarrow> bytes option \<Rightarrow>
    (string + 'key certificate) \<times> ('key, 'key certificate) cert_source \<times> bytes option" where
  "certificate_for kc luck serial sign quoted parse_ip off now name c file =
     (case map_of (cs_certs c) name of
        Some cert \<Rightarrow> (Inr cert, c, file)
      | None \<Rightarrow>
          (case load_key kc luck c file of
             (Inl e, c1, file1) \<Rightarrow> (Inl e, c1, file1)
           | (Inr k, c1, file1) \<Rightarrow>
               (case serial of
                  Inl e \<Rightarrow> (Inl (''generating a certificate serial: '' @ e), c1, file1)
                | Inr n \<Rightarrow>
                    (case sign (template_for parse_ip n off now name) k of
                       Inl e \<Rightarrow> (Inl (''creating a certificate for '' @ quoted name @ '': '' @ e), c1, file1)
                     | Inr der \<Rightarrow>
                         (let cert = \<lparr>cert_der = der, cert_key = k\<rparr>
                          in (Inr cert, c1\<lparr>cs_certs := aset name cert (cs_certs c1)\<rparr>, file1))))))"

text \<open>\<open>tlsConfig\<close>: the versions and suites, and the callback that examines a client before it gets a certificate.\<close>

definition tls_min_version :: "16 word" where
  "tls_min_version = 0x0301"

definition get_certificate ::
  "(16 word \<Rightarrow> string) \<Rightarrow> string \<Rightarrow> 16 word list \<Rightarrow> time \<Rightarrow>
    (string \<Rightarrow> ('key, 'key certificate) cert_source \<Rightarrow> bytes option \<Rightarrow>
      (string + 'key certificate) \<times> ('key, 'key certificate) cert_source \<times> bytes option) \<Rightarrow>
    string \<Rightarrow> 'a world_scheme \<Rightarrow> ('key, 'key certificate) cert_source \<Rightarrow> bytes option \<Rightarrow>
    'a world_scheme \<times> (string + 'key certificate) \<times> ('key, 'key certificate) cert_source \<times> bytes option" where
  "get_certificate suite_name remote ids now issue server_name w c file =
     (log_client_hello suite_name remote ids now w, issue server_name c file)"

section \<open>Facts\<close>

lemma load_key_result:
  assumes "load_key kc luck c file = (Inr k, c1, file1)"
  shows "cs_key c1 = Some k" "cs_path c1 = cs_path c" "cs_certs c1 = cs_certs c"
    "cs_key c = Some k \<or> fst (read_key kc (cs_path c) file) = Some k \<or> kl_fresh luck = Inr k"
  using assms by (auto simp: load_key_def split: option.splits sum.splits)

text \<open>Ten years are 3651 days at least, across a century without a leap day, and 3653 at most.\<close>

lemma int_div_less_two: "0 < k \<Longrightarrow> a < 2 * k \<Longrightarrow> a div k < (2 :: int)"
  using zdiv_mono1 [of a "2 * k - 1" k] int_div_pos_eq [of "2 * k - 1" k 1 "k - 1"] by simp

lemma div_plus_bounds:
  assumes "0 < (k :: int)"
  shows "x div k + n div k \<le> (x + n) div k \<and> (x + n) div k \<le> x div k + n div k + 1"
proof -
  have "0 \<le> x mod k + n mod k" "x mod k + n mod k < 2 * k"
    using pos_mod_sign [OF assms] pos_mod_bound [OF assms] by (simp add: add_nonneg_nonneg, smt (verit))
  then have "0 \<le> (x mod k + n mod k) div k" "(x mod k + n mod k) div k < 2"
    using assms by (auto simp: pos_imp_zdiv_nonneg_iff intro: int_div_less_two)
  then show ?thesis using div_add1_eq [of x n k] by linarith
qed

lemma decade_days: "3651 \<le> days_before_year (y + 10) - days_before_year y \<and> days_before_year (y + 10) - days_before_year y \<le> 3654"
  using div_plus_bounds [of 4 "y - 1" 10] div_plus_bounds [of 100 "y - 1" 10] div_plus_bounds [of 400 "y - 1" 10]
  by (simp add: days_before_year_def algebra_simps)

lemma months_differ: "m < 12 \<Longrightarrow> \<bar>sum_list (take m (month_lengths x)) - sum_list (take m (month_lengths y))\<bar> \<le> 1"
  by (auto simp: month_lengths_def take_Cons' eval_nat_numeral)

lemma add_decade:
  "3650 * day \<le> add_years off 10 t - t \<and> add_years off 10 t - t \<le> 3655 * day"
proof -
  define secs where "secs = t div second + off"
  obtain y yd where y: "year_of (secs div 86400 + unix_days) = (y, yd)" by fastforce
  obtain m d where m: "month_of (month_lengths y) yd = (m, d)" by fastforce
  note ys = year_of_spec [OF y]
  have md: "m < 12" "yd = sum_list (take m (month_lengths y)) + d"
    using month_of_spec [OF m ys(2)] ys(3) by (simp_all add: sum_month_lengths)
  define n where "n = days_before_year (y + 10) - days_before_year y +
    (sum_list (take m (month_lengths (y + 10))) - sum_list (take m (month_lengths y)))"
  have n: "3650 \<le> n" "n \<le> 3655" using decade_days [of y] months_differ [OF md(1), of "y + 10" y] by (auto simp: n_def)
  have days: "days_before_year (y + 10) + sum_list (take m (month_lengths (y + 10))) + d - unix_days = secs div 86400 + n"
    using ys(1) md(2) by (simp add: n_def)
  have "add_years off 10 t = ((secs div 86400 + n) * 86400 + secs mod 86400 - off) * second + t mod second"
    unfolding add_years_def Let_def secs_def [symmetric] y m prod.case instant_def days by (rule refl)
  also have "(secs div 86400 + n) * 86400 + secs mod 86400 - off = t div second + n * 86400"
    by (simp add: secs_def algebra_simps minus_mult_div_eq_mod [symmetric])
  also have "(t div second + n * 86400) * second + t mod second = t + n * day"
    by (simp add: algebra_simps day_def)
  finally have "add_years off 10 t - t = n * day" by simp
  moreover have "0 < day" by (simp add: day_def second_def)
  ultimately show ?thesis using n by simp
qed

section \<open>Properties\<close>


text \<open>A codec of numbers as keys, a first run, and a restart that finds the file.\<close>

definition demo_codec :: "nat key_codec" where
  "demo_codec = \<lparr>kc_pkcs1 = (\<lambda>b. Some (length b)), kc_pkcs8 = (\<lambda>b. None), kc_marshal = (\<lambda>k. replicate k 0)\<rparr>"


text \<open>
  A certificate fits the name it is asked for. It is signed over a template that is valid from a day
  before it was made until ten years after, and that names what the lamp asked for once, as an address
  when it is one and as a host name otherwise.
\<close>

theorem certificate_names_server:
  "let ct = template_for parse_ip serial off now name in
   ct_not_before ct < now \<and> 3650 * day \<le> ct_not_after ct - now \<and> ct_not_after ct - now \<le> 3655 * day \<and>
   (case parse_ip name of
      Some ip \<Rightarrow> ct_addresses ct = [ip] \<and> ct_dns_names ct = []
    | None \<Rightarrow> ct_addresses ct = [] \<and> ct_dns_names ct = (if name = [] then [] else [name])) \<and> ct_common_name ct \<noteq> []"
  using add_decade [of off now] by (auto simp: template_for_def Let_def day_def second_def split: option.split)

end
