(* ===== verification/BulbLife.thy ===== *)
theory BulbLife
  imports Fakebulb
begin

text \<open>
  The life of a fake bulb, \<open>internal/bulb/fakebulb/fakebulb.go\<close>: \<open>Dial\<close> with the TLS it offers, sending on a
  connection that may fail or have been hung up, \<open>readLoop\<close> over everything the server sends, and the
  commands put aside for a test. Bytes of a send that failed half way are left out.
\<close>

section \<open>Dialling\<close>

datatype transport =
    PlainTcp
  | ModernTls
  | LimitedTls "16 word" "16 word" "16 word list"

definition fake_transport :: "bool \<Rightarrow> bool \<Rightarrow> transport" where
  "fake_transport tls legacy =
     (if tls \<or> legacy then
        (if legacy then LimitedTls 0x0303 0x0303 [0x0035, 0x003c, 0x002f] else ModernTls)
      else PlainTcp)"

text \<open>\<open>bc_wire n\<close> is what the n-th flush returns; a buffered writer returns its first error ever after.\<close>

record bulb_link =
  bc_bulb :: fake_bulb
  bc_stopped :: bool
  bc_wire :: "nat \<Rightarrow> string option"
  bc_broken :: "string option"
  bc_sent :: "bytes list"
  bc_commands :: "(string \<times> json) list list"

definition link_closed :: string where
  "link_closed = ''use of closed network connection''"

definition bulb_send :: "bytes \<Rightarrow> bulb_link \<Rightarrow> string option \<times> bulb_link" where
  "bulb_send p c =
     (if bc_stopped c then (Some link_closed, c)
      else
        (case bc_broken c of
           Some e \<Rightarrow> (Some e, c)
         | None \<Rightarrow>
             (case bc_wire c (length (bc_sent c)) of
                Some e \<Rightarrow> (Some e, c\<lparr>bc_broken := Some e\<rparr>)
              | None \<Rightarrow> (None, c\<lparr>bc_sent := bc_sent c @ [p]\<rparr>))))"

fun bulb_send_all :: "bytes list \<Rightarrow> bulb_link \<Rightarrow> string option \<times> bulb_link" where
  "bulb_send_all [] c = (None, c)"
| "bulb_send_all (p # ps) c = (case bulb_send p c of (Some e, c1) \<Rightarrow> (Some e, c1) | (None, c1) \<Rightarrow> bulb_send_all ps c1)"

definition bulb_close :: "bulb_link \<Rightarrow> bulb_link" where
  "bulb_close c = c\<lparr>bc_stopped := True\<rparr>"

definition bulb_ping :: "bulb_link \<Rightarrow> string option \<times> bulb_link" where
  "bulb_ping c = bulb_send (encode type_pingreq 0 []) c"

definition bulb_post :: "fake_options \<Rightarrow> string \<times> fake_bulb \<Rightarrow> bulb_link \<Rightarrow> string option \<times> bulb_link" where
  "bulb_post opts posted c =
     bulb_send (encode_publish (fake_topic opts ''thing/event/property/post'') (bytes_of (fst posted))) (c\<lparr>bc_bulb := snd posted\<rparr>)"

datatype dial_error =
    NoRoute string string
  | HelloUnsent string
  | HelloUnread mqtt_error
  | HelloStrange byte
  | HelloBroken mqtt_error
  | HelloRefused byte
  | SetupUnsent string

text \<open>\<open>handshake\<close>: what is left of the server's stream is for \<open>readLoop\<close>.\<close>

definition bulb_handshake :: "fake_options \<Rightarrow> bytes \<Rightarrow> bulb_link \<Rightarrow> (dial_error + bytes) \<times> bulb_link" where
  "bulb_handshake opts stream c =
     (case bulb_send (encode_connect (fake_connect opts)) c of
        (Some e, c1) \<Rightarrow> (Inl (HelloUnsent e), c1)
      | (None, c1) \<Rightarrow>
          (case read_packet stream of
             Inl e \<Rightarrow> (Inl (HelloUnread e), c1)
           | Inr (pkt, rest) \<Rightarrow>
               if ptype pkt \<noteq> type_connack then (Inl (HelloStrange (ptype pkt)), c1)
               else
                 (case decode_connack (pbody pkt) of
                    Inl e \<Rightarrow> (Inl (HelloBroken e), c1)
                  | Inr (_, rc) \<Rightarrow>
                      if rc \<noteq> 0 then (Inl (HelloRefused rc), c1)
                      else if f_malformed opts then
                        (case bulb_send [0x30, 0xff, 0xff, 0xff, 0xff, 0xff] c1 of
                           (Some e, c2) \<Rightarrow> (Inl (SetupUnsent e), c2)
                         | (None, c2) \<Rightarrow> (Inr rest, c2))
                      else
                        (case bulb_send_all (fake_subscribe opts # (if f_version opts \<noteq> [] then [inform_version opts] else [])) c1 of
                           (Some e, c2) \<Rightarrow> (Inl (SetupUnsent e), c2)
                         | (None, c2) \<Rightarrow>
                             (case bulb_post opts (post_full_state (bc_bulb c2)) c2 of
                                (Some e, c3) \<Rightarrow> (Inl (SetupUnsent e), c3)
                              | (None, c3) \<Rightarrow> (Inr rest, c3))))))"

text \<open>\<open>Dial\<close>: \<open>dialled\<close> is what a transport makes of the address.\<close>

definition bulb_dial ::
  "string \<Rightarrow> fake_options \<Rightarrow> bool \<Rightarrow> bool \<Rightarrow> (transport \<Rightarrow> string option) \<Rightarrow> (nat \<Rightarrow> string option) \<Rightarrow> bytes \<Rightarrow> dial_error + (fake_options \<times> bytes \<times> bulb_link)" where
  "bulb_dial addr opts tls legacy dialled wire stream =
     (let o1 = fake_defaults opts
      in case dialled (fake_transport tls legacy) of
           Some e \<Rightarrow> Inl (NoRoute addr e)
         | None \<Rightarrow>
             (case bulb_handshake o1 stream
                \<lparr>bc_bulb = fake_init, bc_stopped = False, bc_wire = wire, bc_broken = None, bc_sent = [], bc_commands = []\<rparr> of
                (Inl e, c) \<Rightarrow> Inl e
              | (Inr rest, c) \<Rightarrow> Inr (o1, rest, c)))"

section \<open>Serving\<close>

text \<open>
  One packet of \<open>readLoop\<close>: the command is offered to the test, which has room for 32, also when the bulb
  takes no notice of it; then the reply and the report. The flag says whether the loop goes on.
\<close>

definition note_command :: "(string \<times> json) list \<Rightarrow> bulb_link \<Rightarrow> bulb_link" where
  "note_command props c = (if length (bc_commands c) < 32 then c\<lparr>bc_commands := bc_commands c @ [props]\<rparr> else c)"

definition bulb_packet :: "fake_options \<Rightarrow> time \<Rightarrow> packet \<Rightarrow> bulb_link \<Rightarrow> bool \<times> bulb_link" where
  "bulb_packet opts now pkt c =
     (if ptype pkt \<noteq> type_publish then (True, c)
      else
        (case decode_publish (pbody pkt) (packet_qos pkt) of
           Inl _ \<Rightarrow> (True, c)
         | Inr pub \<Rightarrow>
             if \<not> has_suffix (topic pub) ''/thing/service/CommonService'' then (True, c)
             else
               (let (i, props, sq) = decode_command (str_of (content pub));
                    c1 = note_command props c
                in if f_silent opts \<or> length props \<noteq> 1 then (True, c1)
                   else
                     (case (if f_no_ack opts then (None, c1)
                            else bulb_send (encode_publish (fake_topic opts ''thing/service/CommonService_reply'')
                                   (bytes_of (service_reply_payload i))) c1) of
                        (Some e, c2) \<Rightarrow> (False, c2)
                      | (None, c2) \<Rightarrow>
                          (case bulb_post opts (post_change (bc_bulb c2) props sq now) c2 of
                             (Some e, c3) \<Rightarrow> (False, c3)
                           | (None, c3) \<Rightarrow> (True, c3))))))"

text \<open>\<open>readLoop\<close>; \<open>clock n\<close> is the time when \<open>n\<close> packets have been read.\<close>

function bulb_loop :: "fake_options \<Rightarrow> (nat \<Rightarrow> time) \<Rightarrow> nat \<Rightarrow> bytes \<Rightarrow> bulb_link \<Rightarrow> bulb_link" where
  "bulb_loop opts clock n r c =
     (case read_packet r of
        Inl e \<Rightarrow> c
      | Inr (pkt, rest) \<Rightarrow>
          (case bulb_packet opts (clock n) pkt c of
             (False, c1) \<Rightarrow> c1
           | (True, c1) \<Rightarrow> bulb_loop opts clock (Suc n) rest c1))"
  by pat_completeness auto
termination
  by (relation "measure (\<lambda>(opts, clock, n, r, c). length r)") (auto dest: read_packet_bounded)

declare bulb_loop.simps [simp del]

section \<open>On a connection that works\<close>

definition healthy :: "bulb_link \<Rightarrow> bool" where
  "healthy c \<longleftrightarrow> \<not> bc_stopped c \<and> bc_broken c = None \<and> (\<forall>n. bc_wire c n = None)"

lemma healthy_updates [simp]:
  "healthy (c\<lparr>bc_sent := ps\<rparr>) = healthy c" "healthy (c\<lparr>bc_bulb := b\<rparr>) = healthy c" "healthy (c\<lparr>bc_commands := cs\<rparr>) = healthy c"
  "healthy (note_command props c) = healthy c"
  by (simp_all add: healthy_def note_command_def)

lemma send_healthy: "healthy c \<Longrightarrow> bulb_send p c = (None, c\<lparr>bc_sent := bc_sent c @ [p]\<rparr>)"
  by (simp add: bulb_send_def healthy_def)

lemma send_all_healthy: "healthy c \<Longrightarrow> bulb_send_all ps c = (None, c\<lparr>bc_sent := bc_sent c @ ps\<rparr>)"
  by (induction ps arbitrary: c) (simp_all add: send_healthy)

lemma note_command_fields [simp]:
  "bc_sent (note_command props c) = bc_sent c" "bc_bulb (note_command props c) = bc_bulb c"
  by (simp_all add: note_command_def)

text \<open>There the bulb is the transition system of \<open>Fakebulb\<close>.\<close>

lemma bulb_packet_step:
  assumes "healthy c"
  shows "\<exists>c'. bulb_packet opts now pkt c = (True, c') \<and> healthy c' \<and>
    bc_sent c' = bc_sent c @ fst (fake_packet opts (bc_bulb c) pkt now) \<and>
    bc_bulb c' = snd (fake_packet opts (bc_bulb c) pkt now)"
  using assms
  by (auto simp: bulb_packet_def fake_packet_def on_command_def bulb_post_def send_healthy case_prod_beta Let_def
      split: sum.split)

fun fake_packets :: "fake_options \<Rightarrow> (nat \<Rightarrow> time) \<Rightarrow> nat \<Rightarrow> packet list \<Rightarrow> fake_bulb \<Rightarrow> bytes list \<times> fake_bulb" where
  "fake_packets opts clock n [] b = ([], b)"
| "fake_packets opts clock n (p # ps) b =
     (let (out, b1) = fake_packet opts b p (clock n); (more, b2) = fake_packets opts clock (Suc n) ps b1
      in (out @ more, b2))"

theorem bulb_loop_serves:
  assumes "healthy c" "list_all packet_ok ps"
  shows "bc_sent (bulb_loop opts clock n (concat (map encode_packet ps)) c) = bc_sent c @ fst (fake_packets opts clock n ps (bc_bulb c)) \<and>
    bc_bulb (bulb_loop opts clock n (concat (map encode_packet ps)) c) = snd (fake_packets opts clock n ps (bc_bulb c))"
  using assms
proof (induction ps arbitrary: n c)
  case Nil
  then show ?case by (simp add: bulb_loop.simps read_packet_def)
next
  case (Cons p ps)
  obtain c1 where c1: "bulb_packet opts (clock n) p c = (True, c1)" "healthy c1"
    "bc_sent c1 = bc_sent c @ fst (fake_packet opts (bc_bulb c) p (clock n))"
    "bc_bulb c1 = snd (fake_packet opts (bc_bulb c) p (clock n))"
    using bulb_packet_step [OF Cons.prems(1)] by blast
  have "read_packet (encode_packet p @ concat (map encode_packet ps)) = Inr (p, concat (map encode_packet ps))"
    using Cons.prems(2) by (intro packets.dec_enc) simp
  then have "bulb_loop opts clock n (concat (map encode_packet (p # ps))) c = bulb_loop opts clock (Suc n) (concat (map encode_packet ps)) c1"
    by (subst bulb_loop.simps) (simp add: c1(1))
  then show ?case
    using Cons.IH [OF c1(2), of "Suc n"] Cons.prems(2) by (simp add: c1(3,4) case_prod_beta Let_def)
qed

lemma handshake_healthy:
  assumes "healthy c" "packet_ok hello" "fake_handshake opts (bc_bulb c) hello = Some (ps, b)"
  shows "\<exists>c'. bulb_handshake opts (encode_packet hello @ rest) c = (Inr rest, c') \<and>
    bc_sent c' = bc_sent c @ encode_connect (fake_connect opts) # ps \<and> bc_bulb c' = b \<and> healthy c'"
proof -
  have r: "read_packet (encode_packet hello @ rest) = Inr (hello, rest)" by (rule packets.dec_enc [OF assms(2)])
  show ?thesis
    using assms(1,3)
    by (auto simp: bulb_handshake_def fake_handshake_def r send_healthy send_all_healthy bulb_post_def Let_def
        simp del: bulb_send_all.simps split: if_splits sum.splits prod.splits)
qed

text \<open>A bulb that the server accepts has said exactly the CONNECT and what \<open>fake_handshake\<close> lists.\<close>

theorem dial_introduces:
  assumes "packet_ok hello" "fake_handshake (fake_defaults opts) fake_init hello = Some (ps, b)"
  shows "\<exists>c. bulb_dial addr opts tls legacy (\<lambda>_. None) (\<lambda>_. None) (encode_packet hello @ rest) = Inr (fake_defaults opts, rest, c) \<and>
    bc_sent c = encode_connect (fake_connect (fake_defaults opts)) # ps \<and> bc_bulb c = b \<and> healthy c"
proof -
  let ?c = "\<lparr>bc_bulb = fake_init, bc_stopped = False, bc_wire = \<lambda>_. None, bc_broken = None, bc_sent = [], bc_commands = []\<rparr> :: bulb_link"
  have "healthy ?c" by (simp add: healthy_def)
  moreover have "fake_handshake (fake_defaults opts) (bc_bulb ?c) hello = Some (ps, b)" using assms(2) by simp
  ultimately obtain c' where "bulb_handshake (fake_defaults opts) (encode_packet hello @ rest) ?c = (Inr rest, c')"
    "bc_sent c' = bc_sent ?c @ encode_connect (fake_connect (fake_defaults opts)) # ps" "bc_bulb c' = b" "healthy c'"
    using handshake_healthy [where c = ?c and rest = rest, OF _ assms(1)] by blast
  then show ?thesis by (simp add: bulb_dial_def)
qed

text \<open>A bulb that hung up, and one whose connection broke, says nothing more.\<close>

lemma hung_up_is_silent: "bc_stopped c \<Longrightarrow> bulb_send p c = (Some link_closed, c)"
  by (simp add: bulb_send_def)

lemma broken_stays_broken: "bc_broken c = Some e \<Longrightarrow> fst (bulb_send p c) \<noteq> None \<and> snd (bulb_send p c) = c"
  by (simp add: bulb_send_def)

end
