(* ===== verification/Config.thy ===== *)
theory Config
  imports Control JsonDecode
begin

text \<open>
  The settings of one instance, \<open>internal/config\<close> (config.go, lamps.go): the configured lamps, the flag
  set with its environment names, the values flags accept, \<open>Load\<close> with its precedence, \<open>Validate\<close>, and
  the startup record. The quoting verb of the formatter is a parameter of the error texts.
\<close>

section \<open>The configured lamps\<close>

record lamp =
  lamp_id :: string
  lamp_name :: string

datatype lamp_error =
    EntryEmpty nat
  | EntryNotPair nat string
  | EntryNoId nat
  | EntryNoName nat string
  | IdRepeated string nat nat
  | NameReused string string string
  | NameIsVerb string

definition lamp_error_text :: "(string \<Rightarrow> string) \<Rightarrow> lamp_error \<Rightarrow> string" where
  "lamp_error_text q e =
     ''HAIGOSMART_LAMPS '' @
     (case e of
        EntryEmpty n \<Rightarrow> ''entry '' @ nat_str n @ '' is empty''
      | EntryNotPair n s \<Rightarrow> ''entry '' @ nat_str n @ '' '' @ q s @ '' is not deviceID=name''
      | EntryNoId n \<Rightarrow> ''entry '' @ nat_str n @ '' has an empty device id''
      | EntryNoName n i \<Rightarrow> ''entry '' @ nat_str n @ '' ('' @ i @ '') has an empty name''
      | IdRepeated i m n \<Rightarrow> ''repeats device id '' @ q i @ '' at entries '' @ nat_str m @ '' and '' @ nat_str n
      | NameReused name i j \<Rightarrow> ''reuses name '' @ q name @ '' for '' @ i @ '' and '' @ j
      | NameIsVerb name \<Rightarrow> ''name '' @ q name @ '' is a terminal command; pick another so the name stays addressable'')"

text \<open>One entry of the loop of \<open>ParseLamps\<close>, with the ids and names seen so far.\<close>

definition parse_entry ::
  "nat \<Rightarrow> string \<Rightarrow> (string \<rightharpoonup> nat) \<Rightarrow> (string \<rightharpoonup> string) \<Rightarrow> lamp_error + lamp" where
  "parse_entry n raw by_id by_name =
     (let entry = trim_space raw
      in if entry = [] then Inl (EntryEmpty n)
         else
           (case cut entry CHR ''='' of
              (i', name', ok) \<Rightarrow>
                if \<not> ok then Inl (EntryNotPair n entry)
                else
                  (let i = trim_space i'; name = trim_space name'
                   in if i = [] then Inl (EntryNoId n)
                      else if name = [] then Inl (EntryNoName n i)
                      else
                        (case by_id i of
                           Some first \<Rightarrow> Inl (IdRepeated i first n)
                         | None \<Rightarrow>
                             (case by_name name of
                                Some owner \<Rightarrow> Inl (NameReused name owner i)
                              | None \<Rightarrow>
                                  if is_verb name then Inl (NameIsVerb name)
                                  else Inr \<lparr>lamp_id = i, lamp_name = name\<rparr>)))))"

fun parse_entries ::
  "nat \<Rightarrow> string list \<Rightarrow> (string \<rightharpoonup> nat) \<Rightarrow> (string \<rightharpoonup> string) \<Rightarrow> lamp_error + lamp list" where
  "parse_entries n [] by_id by_name = Inr []"
| "parse_entries n (raw # raws) by_id by_name =
     and_then (parse_entry n raw by_id by_name) (\<lambda>l.
     and_then (parse_entries (n + 1) raws (by_id(lamp_id l \<mapsto> n)) (by_name(lamp_name l \<mapsto> lamp_id l))) (\<lambda>ls.
       Inr (l # ls)))"

definition parse_lamps :: "string \<Rightarrow> lamp_error + lamp list" where
  "parse_lamps s =
     (if trim_space s = [] then Inr [] else parse_entries 1 (split_at CHR '','' s) Map.empty Map.empty)"

text \<open>The lamps as the startup record lists them.\<close>

definition lamps_text :: "lamp list \<Rightarrow> string" where
  "lamps_text ls = join '','' (map (\<lambda>l. lamp_id l @ ''='' @ lamp_name l) ls)"

section \<open>Facts about lamps\<close>

text \<open>What a configured set must be.\<close>

definition lamp_ok :: "lamp \<Rightarrow> bool" where
  "lamp_ok l \<longleftrightarrow>
     lamp_id l \<noteq> [] \<and> trimmed (lamp_id l) \<and> CHR ''='' \<notin> set (lamp_id l) \<and> CHR '','' \<notin> set (lamp_id l) \<and>
     lamp_name l \<noteq> [] \<and> trimmed (lamp_name l) \<and> CHR '','' \<notin> set (lamp_name l) \<and> \<not> is_verb (lamp_name l)"

definition lamps_ok :: "lamp list \<Rightarrow> bool" where
  "lamps_ok ls \<longleftrightarrow>
     list_all lamp_ok ls \<and> distinct (map lamp_id ls) \<and> distinct (map lamp_name ls)"

lemma set_strip: "set (strip len s) \<subseteq> set s"
  using strip_suffix [of s len] by (metis Un_iff set_append subsetI)

lemma set_trim_space: "set (trim_space s) \<subseteq> set s"
  using set_strip [of rspace_len "rev (strip space_len s)"] set_strip [of space_len s] by (auto simp: trim_space_def)

text \<open>Texts without surrounding white space stay so when joined by an ASCII character.\<close>

lemma space_len_ascii: "s \<noteq> [] \<Longrightarrow> space_len s = 0 \<Longrightarrow> code c < 0x80 \<Longrightarrow> space_len (s @ c # t) = 0"
proof -
  assume c: "code c < 0x80"
  have no: "\<not> space2 a c" "\<not> space3 a b c" "\<not> space3 a c b" for a b
    using c by (auto simp: space2_def space3_def)
  show "s \<noteq> [] \<Longrightarrow> space_len s = 0 \<Longrightarrow> ?thesis"
    by (cases s; cases "tl s"; cases "tl (tl s)") (auto simp: no split: if_splits list.splits)
qed

lemma rspace_len_ascii: "s \<noteq> [] \<Longrightarrow> rspace_len s = 0 \<Longrightarrow> code c < 0x80 \<Longrightarrow> rspace_len (s @ c # t) = 0"
proof -
  assume c: "code c < 0x80"
  have no: "\<not> space2 c a" "\<not> space3 c b a" "\<not> space3 b c a" for a b
    using c by (auto simp: space2_def space3_def)
  show "s \<noteq> [] \<Longrightarrow> rspace_len s = 0 \<Longrightarrow> ?thesis"
    by (cases s; cases "tl s"; cases "tl (tl s)") (auto simp: no split: if_splits list.splits)
qed

lemma trimmed_ascii:
  "trimmed s \<Longrightarrow> trimmed t \<Longrightarrow> s \<noteq> [] \<Longrightarrow> t \<noteq> [] \<Longrightarrow> code c < 0x80 \<Longrightarrow> trimmed (s @ c # t)"
  using space_len_ascii [of s c t] rspace_len_ascii [of "rev t" c "rev s"] by (simp add: trimmed_def)

definition pair_text :: "lamp \<Rightarrow> string" where
  "pair_text l = lamp_id l @ ''='' @ lamp_name l"

lemma pair_text_trimmed: "lamp_ok l \<Longrightarrow> trimmed (pair_text l) \<and> pair_text l \<noteq> [] \<and> CHR '','' \<notin> set (pair_text l)"
  using trimmed_ascii [of "lamp_id l" "lamp_name l" "CHR ''=''"] by (simp add: pair_text_def lamp_ok_def)

lemma lamps_text_pairs: "lamps_text ls = join '','' (map pair_text ls)"
  by (simp add: lamps_text_def pair_text_def [abs_def])

lemma lamps_text_trimmed: "list_all lamp_ok ls \<Longrightarrow> ls \<noteq> [] \<Longrightarrow> trimmed (lamps_text ls) \<and> lamps_text ls \<noteq> []"
  unfolding lamps_text_pairs
proof (induction ls rule: induct_list012)
  case (3 l m ls)
  then have "trimmed (pair_text l)" "pair_text l \<noteq> []" "trimmed (join '','' (map pair_text (m # ls)))" "join '','' (map pair_text (m # ls)) \<noteq> []"
    using pair_text_trimmed by auto
  then show ?case using trimmed_ascii [of "pair_text l" "join '','' (map pair_text (m # ls))" "CHR '',''"] by simp
qed (simp_all add: pair_text_trimmed)

lemma parse_entry_ok:
  assumes "parse_entry n raw by_id by_name = Inr l" "CHR '','' \<notin> set raw"
  shows "lamp_ok l \<and> by_id (lamp_id l) = None \<and> by_name (lamp_name l) = None"
proof -
  obtain i' name' where c: "cut (trim_space raw) CHR ''='' = (i', name', True)"
    and l: "l = \<lparr>lamp_id = trim_space i', lamp_name = trim_space name'\<rparr>" "trim_space i' \<noteq> []" "trim_space name' \<noteq> []"
      "by_id (trim_space i') = None" "by_name (trim_space name') = None" "\<not> is_verb (trim_space name')"
    using assms(1) by (auto simp: parse_entry_def Let_def split: if_splits prod.splits option.splits)
  from c have s: "trim_space raw = i' @ CHR ''='' # name'" "CHR ''='' \<notin> set i'" by (simp_all add: cut_True_iff)
  have "CHR '','' \<notin> set (trim_space raw)" using set_trim_space [of raw] assms(2) by blast
  then have "CHR '','' \<notin> set i'" "CHR '','' \<notin> set name'" unfolding s(1) by simp_all
  then show ?thesis
    using l s(2) set_trim_space [of i'] set_trim_space [of name'] by (auto simp: lamp_ok_def trimmed_trim_space)
qed

lemma parse_entries_ok:
  "parse_entries n raws by_id by_name = Inr ls \<Longrightarrow> \<forall>raw\<in>set raws. CHR '','' \<notin> set raw \<Longrightarrow>
    lamps_ok ls \<and> (\<forall>l\<in>set ls. by_id (lamp_id l) = None \<and> by_name (lamp_name l) = None) \<and> length ls = length raws"
proof (induction n raws by_id by_name arbitrary: ls rule: parse_entries.induct)
  case (2 n raw raws by_id by_name)
  then obtain l ls' where l: "parse_entry n raw by_id by_name = Inr l"
    and ls': "parse_entries (n + 1) raws (by_id(lamp_id l \<mapsto> n)) (by_name(lamp_name l \<mapsto> lamp_id l)) = Inr ls'" and ls: "ls = l # ls'"
    by (auto simp: and_then_Inr_iff)
  have "lamps_ok ls' \<and> (\<forall>m\<in>set ls'. (by_id(lamp_id l \<mapsto> n)) (lamp_id m) = None \<and>
      (by_name(lamp_name l \<mapsto> lamp_id l)) (lamp_name m) = None) \<and> length ls' = length raws"
    using "2.IH" [OF ls'] "2.prems"(2) by simp
  then show ?case
    using parse_entry_ok [OF l] "2.prems"(2) by (fastforce simp: ls lamps_ok_def split: if_splits)
qed (simp add: lamps_ok_def)

lemma parse_entry_pair:
  "lamp_ok l \<Longrightarrow> by_id (lamp_id l) = None \<Longrightarrow> by_name (lamp_name l) = None \<Longrightarrow>
    parse_entry n (pair_text l) by_id by_name = Inr l"
proof -
  assume ok: "lamp_ok l" and free: "by_id (lamp_id l) = None" "by_name (lamp_name l) = None"
  have "cut (pair_text l) CHR ''='' = (lamp_id l, lamp_name l, True)"
    using ok by (simp add: pair_text_def lamp_ok_def)
  then show ?thesis
    using pair_text_trimmed [OF ok] ok free
    by (simp add: parse_entry_def Let_def trim_space_trimmed lamp_ok_def)
qed

lemma parse_entries_pairs:
  "lamps_ok ls \<Longrightarrow> \<forall>l\<in>set ls. by_id (lamp_id l) = None \<and> by_name (lamp_name l) = None \<Longrightarrow>
    parse_entries n (map pair_text ls) by_id by_name = Inr ls"
proof (induction ls arbitrary: n by_id by_name)
  case (Cons l ls)
  have "lamps_ok ls" "\<forall>m\<in>set ls. lamp_id m \<noteq> lamp_id l \<and> lamp_name m \<noteq> lamp_name l"
    using Cons.prems(1) by (auto simp: lamps_ok_def image_iff)
  then have "parse_entries (n + 1) (map pair_text ls) (by_id(lamp_id l \<mapsto> n)) (by_name(lamp_name l \<mapsto> lamp_id l)) = Inr ls"
    using Cons.IH Cons.prems(2) by simp
  moreover have "parse_entry n (pair_text l) by_id by_name = Inr l"
    using Cons.prems by (intro parse_entry_pair) (simp_all add: lamps_ok_def)
  ultimately show ?case by simp
qed simp

lemma parse_lamps_ok: "parse_lamps s = Inr ls \<Longrightarrow> lamps_ok ls"
  using parse_entries_ok [of 1 "split_at CHR '','' s" Map.empty Map.empty ls] split_at_no_sep
  by (auto simp: parse_lamps_def lamps_ok_def split: if_splits)

lemma parse_lamps_text:
  assumes "lamps_ok ls"
  shows "parse_lamps (lamps_text ls) = Inr ls"
proof (cases "ls = []")
  case True
  then show ?thesis by (simp add: parse_lamps_def lamps_text_def)
next
  case False
  have ok: "list_all lamp_ok ls" using assms by (simp add: lamps_ok_def)
  have "split_at CHR '','' (lamps_text ls) = map pair_text ls"
    unfolding lamps_text_pairs using False ok pair_text_trimmed by (intro split_at_join) (auto simp: list_all_iff)
  then show ?thesis
    using lamps_text_trimmed [OF ok False] parse_entries_pairs [OF assms, of Map.empty Map.empty 1]
    by (simp add: parse_lamps_def trim_space_trimmed)
qed

section \<open>Values of flags\<close>

text \<open>\<open>strconv.ParseBool\<close>.\<close>

definition parse_bool :: "string \<Rightarrow> bool option" where
  "parse_bool s =
     (if s \<in> set [''1'', ''t'', ''T'', ''TRUE'', ''true'', ''True''] then Some True
      else if s \<in> set [''0'', ''f'', ''F'', ''FALSE'', ''false'', ''False''] then Some False
      else None)"

text \<open>
  \<open>strconv.ParseInt(s, 0, 64)\<close>: a sign, a base prefix, digits of that base, and underscores only
  between digits.
\<close>

definition base_prefix :: "string \<Rightarrow> int \<times> string" where
  "base_prefix s =
     (if s = [] \<or> hd s \<noteq> CHR ''0'' then (10, s)
      else if 3 \<le> length s \<and> lower_char (s ! 1) = CHR ''b'' then (2, drop 2 s)
      else if 3 \<le> length s \<and> lower_char (s ! 1) = CHR ''o'' then (8, drop 2 s)
      else if 3 \<le> length s \<and> lower_char (s ! 1) = CHR ''x'' then (16, drop 2 s)
      else (8, tl s))"

definition digit_value :: "char \<Rightarrow> int option" where
  "digit_value c =
     (if is_digit c then Some (int (code c - 48))
      else if 97 \<le> code (lower_char c) \<and> code (lower_char c) \<le> 122 then Some (int (code (lower_char c) - 97) + 10)
      else None)"

fun read_digits :: "int \<Rightarrow> int \<Rightarrow> string \<Rightarrow> int option" where
  "read_digits base n [] = Some n"
| "read_digits base n (c # cs) =
     (if c = CHR ''_'' then read_digits base n cs
      else
        (case digit_value c of
           None \<Rightarrow> None
         | Some d \<Rightarrow> if base \<le> d then None else read_digits base (n * base + d) cs))"

datatype seen = SeenNothing | SeenDigit | SeenUnderscore | SeenOther

fun underscores_from :: "bool \<Rightarrow> seen \<Rightarrow> string \<Rightarrow> bool" where
  "underscores_from hex saw [] \<longleftrightarrow> saw \<noteq> SeenUnderscore"
| "underscores_from hex saw (c # cs) \<longleftrightarrow>
     (if is_digit c \<or> hex \<and> 97 \<le> code (lower_char c) \<and> code (lower_char c) \<le> 102 then underscores_from hex SeenDigit cs
      else if c = CHR ''_'' then saw = SeenDigit \<and> underscores_from hex SeenUnderscore cs
      else saw \<noteq> SeenUnderscore \<and> underscores_from hex SeenOther cs)"

definition underscores_ok :: "string \<Rightarrow> bool" where
  "underscores_ok s \<longleftrightarrow>
     (let p = (if s \<noteq> [] \<and> (hd s = CHR ''-'' \<or> hd s = CHR ''+'') then tl s else s)
      in if 2 \<le> length p \<and> hd p = CHR ''0'' \<and> lower_char (p ! 1) \<in> {CHR ''b'', CHR ''o'', CHR ''x''}
         then underscores_from (lower_char (p ! 1) = CHR ''x'') SeenDigit (drop 2 p)
         else underscores_from False SeenNothing p)"

definition parse_int0 :: "string \<Rightarrow> int option" where
  "parse_int0 s =
     (let neg = (s \<noteq> [] \<and> hd s = CHR ''-'');
          u = (if s \<noteq> [] \<and> (hd s = CHR ''-'' \<or> hd s = CHR ''+'') then tl s else s)
      in if u = [] then None
         else
           (case base_prefix u of
              (base, ds) \<Rightarrow>
                (case read_digits base 0 ds of
                   None \<Rightarrow> None
                 | Some n \<Rightarrow>
                     (let v = (if neg then - n else n)
                      in if CHR ''_'' \<in> set ds \<and> \<not> underscores_ok u then None
                         else if int64_range v then Some v else None))))"

text \<open>
  \<open>time.ParseDuration\<close>: a sign and numbers with units. The fraction of a unit is computed in floating
  point; sums are of 64 bits without a sign.
\<close>

definition duration_units :: "(string \<times> int) list" where
  "duration_units =
     [(''ns'', 1), (''us'', 1000), (CHR 0xC2 # CHR 0xB5 # ''s'', 1000), (CHR 0xCE # CHR 0xBC # ''s'', 1000),
      (''ms'', 1000000), (''s'', 1000000000), (''m'', 60000000000), (''h'', 3600000000000)]"

fun leading_fraction :: "int \<Rightarrow> int \<Rightarrow> bool \<Rightarrow> string \<Rightarrow> int \<times> int \<times> string" where
  "leading_fraction x tens full [] = (x, tens, [])"
| "leading_fraction x tens full (c # cs) =
     (if \<not> is_digit c then (x, tens, c # cs)
      else if full \<or> (2 ^ 63 - 1) div 10 < x \<or> 2 ^ 63 < x * 10 + int (code c - 48) then leading_fraction x tens True cs
      else leading_fraction (x * 10 + int (code c - 48)) (tens * 10) False cs)"

definition fraction_value :: "int \<Rightarrow> int \<Rightarrow> int \<Rightarrow> int" where
  "fraction_value f unit tens =
     (case (round_f64 (of_int f), round_f64 (of_int unit / of_int tens)) of
        (Some a, Some b) \<Rightarrow> (case round_f64 (a * b) of None \<Rightarrow> 0 | Some p \<Rightarrow> floor p)
      | _ \<Rightarrow> 0)"

text \<open>One number with its unit: the value in nanoseconds and the rest.\<close>

definition duration_part :: "string \<Rightarrow> (int \<times> string) option" where
  "duration_part s =
     (let ds = takeWhile is_digit s; s1 = dropWhile is_digit s; v = foldl (\<lambda>a c. 10 * a + int (code c - 48)) 0 ds;
          (f, tens, s2) = (if s1 \<noteq> [] \<and> hd s1 = CHR ''.'' then leading_fraction 0 1 False (tl s1) else (0, 1, s1));
          post = (s1 \<noteq> [] \<and> hd s1 = CHR ''.'' \<and> tl s1 \<noteq> s2);
          u = takeWhile (\<lambda>c. c \<noteq> CHR ''.'' \<and> \<not> is_digit c) s2
      in if 2 ^ 63 < v \<or> ds = [] \<and> \<not> post then None
         else
           (case map_of duration_units u of
              None \<Rightarrow> None
            | Some unit \<Rightarrow>
                (let total = v * unit + (if 0 < f then fraction_value f unit tens else 0)
                 in if 2 ^ 63 div unit < v \<or> 2 ^ 63 < total then None else Some (total, drop (length u) s2))))"

function duration_sum :: "int \<Rightarrow> string \<Rightarrow> int option" where
  "duration_sum d s =
     (if s = [] then Some d
      else
        (case duration_part s of
           None \<Rightarrow> None
         | Some (v, rest) \<Rightarrow>
             if length s \<le> length rest then None
             else (let d' = (d + v) mod 2 ^ 64 in if 2 ^ 63 < d' then None else duration_sum d' rest)))"
  by pat_completeness auto
termination
  by (relation "measure (\<lambda>(d, s). length s)") auto

declare duration_sum.simps [simp del]

definition parse_duration :: "string \<Rightarrow> duration option" where
  "parse_duration s =
     (let neg = (s \<noteq> [] \<and> hd s = CHR ''-'');
          u = (if s \<noteq> [] \<and> (hd s = CHR ''-'' \<or> hd s = CHR ''+'') then tl s else s)
      in if u = ''0'' then Some 0
         else if u = [] then None
         else
           (case duration_sum 0 u of
              None \<Rightarrow> None
            | Some d \<Rightarrow> if neg then Some (- d) else if 2 ^ 63 \<le> d then None else Some d))"

text \<open>\<open>Duration.String\<close>: the fraction without trailing zeros, in the largest unit that fits.\<close>

fun fraction_digits :: "nat \<Rightarrow> int \<Rightarrow> string \<Rightarrow> string \<times> int" where
  "fraction_digits 0 v out = (out, v)"
| "fraction_digits (Suc prec) v out =
     fraction_digits prec (v div 10) (if out \<noteq> [] \<or> v mod 10 \<noteq> 0 then digit (nat (v mod 10)) # out else [])"

definition fraction_text :: "int \<Rightarrow> nat \<Rightarrow> string \<times> int" where
  "fraction_text u prec =
     (case fraction_digits prec u [] of (ds, v) \<Rightarrow> (if ds = [] then [] else CHR ''.'' # ds, v))"

definition duration_text :: "duration \<Rightarrow> string" where
  "duration_text d =
     (let u = \<bar>d\<bar>
      in (if d < 0 then ''-'' else []) @
         (if u = 0 then ''0s''
          else if u < 1000 then itoa u @ ''ns''
          else if u < 1000000 then (case fraction_text u 3 of (f, v) \<Rightarrow> itoa v @ f @ CHR 0xC2 # CHR 0xB5 # ''s'')
          else if u < 1000000000 then (case fraction_text u 6 of (f, v) \<Rightarrow> itoa v @ f @ ''ms'')
          else
            (case fraction_text u 9 of
               (f, v) \<Rightarrow>
                 (let mins = v div 60; hours = mins div 60
                  in (if 0 < hours then itoa hours @ ''h'' else []) @
                     (if 0 < mins then itoa (mins mod 60) @ ''m'' else []) @ itoa (v mod 60) @ f @ ''s''))))"


section \<open>The flag set\<close>

datatype setting = SBool bool | SInt int | SDuration duration | SString string

type_synonym settings = "string \<rightharpoonup> setting"

definition env_prefix :: string where
  "env_prefix = ''HAIGOSMART_''"

definition env_name :: "string \<Rightarrow> string" where
  "env_name flag = env_prefix @ map (\<lambda>c. upper_char (if c = CHR ''-'' then CHR ''_'' else c)) flag"

text \<open>Every setting with its default; \<open>home\<close> is the registry path the platform suggests, if any.\<close>

definition default_registry_path :: "string option \<Rightarrow> string" where
  "default_registry_path home = (case home of Some p \<Rightarrow> p | None \<Rightarrow> ''registry.json'')"

definition flags :: "string option \<Rightarrow> (string \<times> setting) list" where
  "flags home =
     [(''lamps'', SString []), (''listen'', SString '':1883''), (''headless'', SBool False), (''v'', SBool False),
      (''log'', SString []), (''registry'', SString (default_registry_path home)),
      (''command-timeout'', SDuration (5 * second)),
      (''mqtt-broker'', SString []), (''mqtt-username'', SString []), (''mqtt-password'', SString []),
      (''mqtt-client-id'', SString ''haigosmart''), (''mqtt-prefix'', SString ''haigosmart''),
      (''mqtt-discovery-prefix'', SString ''homeassistant''),
      (''ct-min-kelvin'', SInt 2700), (''ct-max-kelvin'', SInt 6500)]"

definition default_settings :: "string option \<Rightarrow> settings" where
  "default_settings home = map_of (flags home)"

text \<open>\<open>VisitAll\<close> walks the flags in the order of their names.\<close>

definition flag_names :: "string list" where
  "flag_names = sort (map fst (flags None))"

definition kind_of :: "setting \<Rightarrow> string" where
  "kind_of s =
     (case s of
        SBool _ \<Rightarrow> ''boolean (true or false)''
      | SInt _ \<Rightarrow> ''whole number''
      | SDuration _ \<Rightarrow> ''duration (for example 5s or 2m)''
      | SString _ \<Rightarrow> ''string'')"

text \<open>\<open>Value.Set\<close> of a flag of the kind of the old value.\<close>

definition read_setting :: "setting \<Rightarrow> string \<Rightarrow> setting option" where
  "read_setting old v =
     (case old of
        SBool _ \<Rightarrow> map_option SBool (parse_bool v)
      | SInt _ \<Rightarrow> map_option SInt (parse_int0 v)
      | SDuration _ \<Rightarrow> map_option SDuration (parse_duration v)
      | SString _ \<Rightarrow> Some (SString v))"

definition set_flag :: "string \<Rightarrow> string \<Rightarrow> settings \<Rightarrow> settings option" where
  "set_flag n v s =
     (case s n of
        None \<Rightarrow> None
      | Some old \<Rightarrow> map_option (\<lambda>new. s(n \<mapsto> new)) (read_setting old v))"

datatype flag_error = BadSyntax string | HelpWanted | NotDefined string | NeedsArgument string | InvalidValue string string

text \<open>
  \<open>parseOne\<close> of the flag package up to setting the value: the flag at the head of the arguments with its
  value and the arguments left, or None where the flags end.
\<close>

definition parse_one :: "settings \<Rightarrow> string list \<Rightarrow> flag_error + ((string \<times> string) \<times> string list) option" where
  "parse_one s args =
     (case args of
        [] \<Rightarrow> Inr None
      | a # rest \<Rightarrow>
          if length a < 2 \<or> hd a \<noteq> CHR ''-'' \<or> a = ''--'' then Inr None
          else
            (let word = (if a ! 1 = CHR ''-'' then drop 2 a else tl a)
             in if word = [] \<or> hd word = CHR ''-'' \<or> hd word = CHR ''='' then Inl (BadSyntax a)
                else
                  (case cut word CHR ''='' of
                     (n, v, given) \<Rightarrow>
                       (case s n of
                          None \<Rightarrow> Inl (if n = ''help'' \<or> n = ''h'' then HelpWanted else NotDefined n)
                        | Some (SBool _) \<Rightarrow> Inr (Some ((n, if given then v else ''true''), rest))
                        | Some _ \<Rightarrow>
                            if given then Inr (Some ((n, v), rest))
                            else (case rest of [] \<Rightarrow> Inl (NeedsArgument n) | v' # rest' \<Rightarrow> Inr (Some ((n, v'), rest')))))))"

lemma parse_one_shorter: "parse_one s args = Inr (Some (nv, rest)) \<Longrightarrow> length rest < length args"
  by (auto simp: parse_one_def Let_def split: list.splits if_splits prod.splits option.splits setting.splits)

text \<open>\<open>Parse\<close>, with the names of the flags seen.\<close>

function parse_flags :: "string list \<Rightarrow> settings \<Rightarrow> string list \<Rightarrow> flag_error + (settings \<times> string list)" where
  "parse_flags args s seen =
     (case parse_one s args of
        Inl e \<Rightarrow> Inl e
      | Inr None \<Rightarrow> Inr (s, seen)
      | Inr (Some ((n, v), rest)) \<Rightarrow>
          (case set_flag n v s of
             None \<Rightarrow> Inl (InvalidValue n v)
           | Some s' \<Rightarrow> parse_flags rest s' (n # seen)))"
  by pat_completeness auto
termination
  by (relation "measure (\<lambda>(args, s, seen). length args)") (auto dest: parse_one_shorter)

declare parse_flags.simps [simp del]

section \<open>Loading\<close>

datatype config_error = BadEnv string string string | BadFlags flag_error | BadLamps lamp_error

fun apply_env :: "(string \<Rightarrow> string) \<Rightarrow> string list \<Rightarrow> settings \<Rightarrow> string list \<Rightarrow> config_error + (settings \<times> string list)" where
  "apply_env env [] s from_env = Inr (s, from_env)"
| "apply_env env (n # ns) s from_env =
     (let v = env (env_name n)
      in if v = [] then apply_env env ns s from_env
         else
           (case set_flag n v s of
              None \<Rightarrow> Inl (BadEnv (env_name n) v (case s n of None \<Rightarrow> [] | Some old \<Rightarrow> kind_of old))
            | Some s' \<Rightarrow> apply_env env ns s' (n # from_env)))"

definition flags_given_on :: "string option \<Rightarrow> string list \<Rightarrow> string list" where
  "flags_given_on home args =
     (case parse_flags args (default_settings home) [] of Inl e \<Rightarrow> [] | Inr (_, seen) \<Rightarrow> seen)"

record config =
  cf_listen :: string
  cf_headless :: bool
  cf_verbose :: bool
  cf_log_path :: string
  cf_registry_path :: string
  cf_command_timeout :: duration
  cf_lamps :: "lamp list"
  cf_mqtt_broker :: string
  cf_mqtt_username :: string
  cf_mqtt_password :: string
  cf_mqtt_client_id :: string
  cf_mqtt_prefix :: string
  cf_discovery_prefix :: string
  cf_min_kelvin :: int
  cf_max_kelvin :: int
  cf_overrides :: "string list"

definition bool_of :: "settings \<Rightarrow> string \<Rightarrow> bool" where
  "bool_of s n = (case s n of Some (SBool b) \<Rightarrow> b | _ \<Rightarrow> False)"

definition int_of :: "settings \<Rightarrow> string \<Rightarrow> int" where
  "int_of s n = (case s n of Some (SInt k) \<Rightarrow> k | Some (SDuration d) \<Rightarrow> d | _ \<Rightarrow> 0)"

definition string_of :: "settings \<Rightarrow> string \<Rightarrow> string" where
  "string_of s n = (case s n of Some (SString v) \<Rightarrow> v | _ \<Rightarrow> [])"

definition config_of :: "settings \<Rightarrow> lamp list \<Rightarrow> string list \<Rightarrow> config" where
  "config_of s lamps over =
     \<lparr>cf_listen = string_of s ''listen'', cf_headless = bool_of s ''headless'', cf_verbose = bool_of s ''v'',
      cf_log_path = string_of s ''log'', cf_registry_path = string_of s ''registry'',
      cf_command_timeout = int_of s ''command-timeout'', cf_lamps = lamps,
      cf_mqtt_broker = string_of s ''mqtt-broker'', cf_mqtt_username = string_of s ''mqtt-username'',
      cf_mqtt_password = string_of s ''mqtt-password'', cf_mqtt_client_id = string_of s ''mqtt-client-id'',
      cf_mqtt_prefix = string_of s ''mqtt-prefix'', cf_discovery_prefix = string_of s ''mqtt-discovery-prefix'',
      cf_min_kelvin = int_of s ''ct-min-kelvin'', cf_max_kelvin = int_of s ''ct-max-kelvin'', cf_overrides = over\<rparr>"

text \<open>\<open>Load\<close>: defaults, then the environment, then the command line.\<close>

definition load_settings ::
  "string option \<Rightarrow> string list \<Rightarrow> (string \<Rightarrow> string) \<Rightarrow> config_error + (settings \<times> string list)" where
  "load_settings home args env =
     and_then (apply_env env flag_names (default_settings home) []) (\<lambda>(s, from_env).
     and_then (map_err BadFlags (parse_flags args s [])) (\<lambda>(s', _).
       Inr (s', filter (\<lambda>n. n \<in> set (flags_given_on home args) \<and> n \<in> set from_env) flag_names)))"

definition load_config :: "string option \<Rightarrow> string list \<Rightarrow> (string \<Rightarrow> string) \<Rightarrow> config_error + config" where
  "load_config home args env =
     and_then (load_settings home args env) (\<lambda>(s, over).
     and_then (map_err BadLamps (parse_lamps (string_of s ''lamps''))) (\<lambda>ls. Inr (config_of s ls over)))"

section \<open>Checking\<close>

text \<open>\<open>net.SplitHostPort\<close>; every refusal is None.\<close>

definition split_host_port :: "string \<Rightarrow> (string \<times> string) option" where
  "split_host_port a =
     (if CHR '':'' \<notin> set a then None
      else
        (let port = rev (takeWhile (\<lambda>c. c \<noteq> CHR '':'') (rev a)); i = length a - length port - 1
         in if hd a = CHR ''['' then
              (let e = length (takeWhile (\<lambda>c. c \<noteq> CHR '']'') a)
               in if e = length a \<or> e + 1 \<noteq> i then None
                  else if CHR ''['' \<in> set (drop 1 a) \<or> CHR '']'' \<in> set (drop (e + 1) a) then None
                  else Some (take (e - 1) (drop 1 a), port))
            else
              (let h = take i a
               in if CHR '':'' \<in> set h \<or> CHR ''['' \<in> set a \<or> CHR '']'' \<in> set a then None else Some (h, port))))"

datatype invalid = RangeInverted int int | TimeoutNotPositive duration | ListenInvalid string | NoLampsConfigured

definition invalid_text :: "(string \<Rightarrow> string) \<Rightarrow> invalid \<Rightarrow> string" where
  "invalid_text q e =
     (case e of
        RangeInverted lo hi \<Rightarrow>
          ''ct-min-kelvin ('' @ itoa lo @ '') must be below ct-max-kelvin ('' @ itoa hi @
          ''); an inverted range would reverse every warmth value shown in Home Assistant''
      | TimeoutNotPositive d \<Rightarrow>
          ''command-timeout is '' @ duration_text d @
          ''; it must be positive, or every command would be reported unconfirmed before the bulb could answer''
      | ListenInvalid s \<Rightarrow>
          ''listen is '' @ q s @ '', which is not a host:port address (for example :1883 or 192.168.1.10:1883)''
      | NoLampsConfigured \<Rightarrow>
          ''no lamps are configured: set HAIGOSMART_LAMPS (or -lamps) to deviceID=name pairs. '' @
          ''An unattended instance serves only the lamps it is told about, so one with an empty set would refuse every connection'')"

definition validate :: "config \<Rightarrow> invalid option" where
  "validate c =
     (if cf_max_kelvin c \<le> cf_min_kelvin c then Some (RangeInverted (cf_min_kelvin c) (cf_max_kelvin c))
      else if cf_command_timeout c \<le> 0 then Some (TimeoutNotPositive (cf_command_timeout c))
      else if split_host_port (cf_listen c) = None then Some (ListenInvalid (cf_listen c))
      else if cf_headless c \<and> cf_lamps c = [] then Some NoLampsConfigured
      else None)"

text \<open>\<open>LogValue\<close>: the attributes of the startup record.\<close>

definition log_value :: "config \<Rightarrow> (string \<times> setting) list" where
  "log_value c =
     [(''listen'', SString (cf_listen c)), (''headless'', SBool (cf_headless c)), (''v'', SBool (cf_verbose c)),
      (''log'', SString (cf_log_path c)), (''registry'', SString (cf_registry_path c)),
      (''command-timeout'', SString (duration_text (cf_command_timeout c))), (''lamps'', SString (lamps_text (cf_lamps c))),
      (''mqtt-broker'', SString (cf_mqtt_broker c)), (''mqtt-username'', SString (cf_mqtt_username c)),
      (''mqtt-password'', SString (if cf_mqtt_password c \<noteq> [] then ''(set)'' else ''(unset)'')),
      (''mqtt-client-id'', SString (cf_mqtt_client_id c)), (''mqtt-prefix'', SString (cf_mqtt_prefix c)),
      (''mqtt-discovery-prefix'', SString (cf_discovery_prefix c)),
      (''ct-min-kelvin'', SInt (cf_min_kelvin c)), (''ct-max-kelvin'', SInt (cf_max_kelvin c))]"

section \<open>Facts about settings\<close>

lemma map_err_Inr_iff: "map_err g r = Inr y \<longleftrightarrow> r = Inr y"
  by (cases r) auto

definition same_kinds :: "settings \<Rightarrow> settings \<Rightarrow> bool" where
  "same_kinds s t \<longleftrightarrow> (\<forall>n. map_option kind_of (s n) = map_option kind_of (t n))"

lemma kind_of_eq [simp]:
  "kind_of (SBool b) = kind_of s \<longleftrightarrow> (\<exists>c. s = SBool c)" "kind_of (SInt k) = kind_of s \<longleftrightarrow> (\<exists>c. s = SInt c)"
  "kind_of (SDuration d) = kind_of s \<longleftrightarrow> (\<exists>c. s = SDuration c)" "kind_of (SString v) = kind_of s \<longleftrightarrow> (\<exists>c. s = SString c)"
  by (cases s; simp add: kind_of_def)+

lemma read_setting_kind: "kind_of old = kind_of old' \<Longrightarrow> read_setting old v = read_setting old' v"
  by (cases old) (auto simp: read_setting_def)

lemma kind_read_setting: "read_setting old v = Some new \<Longrightarrow> kind_of new = kind_of old"
  by (cases old) (auto simp: read_setting_def kind_of_def)

lemma same_kinds_refl [simp]: "same_kinds s s"
  by (simp add: same_kinds_def)

lemma same_kinds_trans: "same_kinds s t \<Longrightarrow> same_kinds t u \<Longrightarrow> same_kinds s u"
  by (simp add: same_kinds_def)

lemma same_kinds_cases:
  assumes "same_kinds s t"
  obtains "s n = None" "t n = None" | a b where "s n = Some a" "t n = Some b" "kind_of a = kind_of b"
  using assms unfolding same_kinds_def by (metis map_option_eq_Some not_Some_eq option.map_disc_iff)

lemma set_flag_Some:
  assumes "set_flag n v s = Some s'"
  obtains old new where "s n = Some old" "read_setting old v = Some new" "s' = s(n \<mapsto> new)" "same_kinds s s'"
  using assms kind_read_setting by (fastforce simp: set_flag_def same_kinds_def split: option.splits)

lemma parse_one_kinds: "same_kinds s t \<Longrightarrow> parse_one s args = parse_one t args"
proof -
  assume k: "same_kinds s t"
  have "(case s n of None \<Rightarrow> e | Some (SBool _) \<Rightarrow> x | Some _ \<Rightarrow> y) = (case t n of None \<Rightarrow> e | Some (SBool _) \<Rightarrow> x | Some _ \<Rightarrow> y)"
    for n and e x y :: "flag_error + ((string \<times> string) \<times> string list) option"
    using k by (cases rule: same_kinds_cases [where n = n]) (auto simp: kind_of_def split: setting.splits)
  then show ?thesis by (simp add: parse_one_def Let_def split: list.split prod.split)
qed

text \<open>What the command line assigns, read without setting anything.\<close>

function assignments :: "settings \<Rightarrow> string list \<Rightarrow> (string \<times> string) list" where
  "assignments s args =
     (case parse_one s args of Inr (Some (nv, rest)) \<Rightarrow> nv # assignments s rest | _ \<Rightarrow> [])"
  by pat_completeness auto
termination
  by (relation "measure (\<lambda>(s, args). length args)") (auto dest: parse_one_shorter)

declare assignments.simps [simp del]

definition read_as :: "settings \<Rightarrow> string \<Rightarrow> string \<Rightarrow> setting option" where
  "read_as s n v = (case s n of None \<Rightarrow> None | Some old \<Rightarrow> read_setting old v)"

lemma read_as_kinds: "same_kinds s t \<Longrightarrow> read_as s n v = read_as t n v"
  by (erule same_kinds_cases [where n = n]) (auto simp: read_as_def intro: read_setting_kind)

lemma parse_flags_assigns:
  "parse_flags args s seen = Inr (s', seen') \<Longrightarrow> same_kinds d s \<Longrightarrow>
    same_kinds d s' \<and> seen' = rev (map fst (assignments d args)) @ seen \<and>
    (\<forall>n. s' n = (case map_of (rev (assignments d args)) n of None \<Rightarrow> s n | Some v \<Rightarrow> read_as d n v))"
proof (induction args s seen rule: parse_flags.induct)
  case (1 args s seen)
  note one = parse_one_kinds [OF "1.prems"(2), of args]
  consider (stop) "parse_one s args = Inr None" "s' = s" "seen' = seen"
    | (go) n v rest s1 where "parse_one s args = Inr (Some ((n, v), rest))" "set_flag n v s = Some s1"
        "parse_flags rest s1 (n # seen) = Inr (s', seen')"
    using "1.prems"(1) by (subst (asm) parse_flags.simps) (auto split: sum.splits option.splits prod.splits)
  then show ?case
  proof cases
    case stop
    then show ?thesis using "1.prems"(2) one by (subst (1 2) assignments.simps) simp
  next
    case go
    from go(2) obtain old new where s1: "s n = Some old" "read_setting old v = Some new" "s1 = s(n \<mapsto> new)" "same_kinds s s1"
      by (rule set_flag_Some)
    have k: "same_kinds d s1" using "1.prems"(2) s1(4) by (rule same_kinds_trans)
    have as: "assignments d args = (n, v) # assignments d rest"
      using one go(1) by (subst assignments.simps) simp
    have "read_as d n v = Some new"
      using read_as_kinds [OF "1.prems"(2), of n v] s1(1,2) by (simp add: read_as_def)
    have a: "same_kinds d s'" and b: "seen' = rev (map fst (assignments d rest)) @ n # seen"
      and c: "\<And>n. s' n = (case map_of (rev (assignments d rest)) n of None \<Rightarrow> s1 n | Some v \<Rightarrow> read_as d n v)"
      using "1.IH" [OF go(1) refl refl refl go(2,3) k] by blast+
    have "s' m = (case map_of (rev (assignments d args)) m of None \<Rightarrow> s m | Some v \<Rightarrow> read_as d m v)" for m
      using \<open>read_as d n v = Some new\<close> by (auto simp: as c [of m] s1(3) map_add_def split: option.splits)
    moreover have "seen' = rev (map fst (assignments d args)) @ seen" using b by (simp add: as)
    ultimately show ?thesis using a by blast
  qed
qed

lemma set_flag_kinds:
  assumes "same_kinds s t" "set_flag n v s = Some s'"
  obtains t' where "set_flag n v t = Some t'" "same_kinds s' t'"
proof -
  from assms(2) obtain old new where w: "s n = Some old" "read_setting old v = Some new" "s' = s(n \<mapsto> new)"
    by (rule set_flag_Some)
  then have "read_as t n v = Some new" using read_as_kinds [OF assms(1), of n v] by (simp add: read_as_def)
  then have "set_flag n v t = Some (t(n \<mapsto> new))" by (auto simp: read_as_def set_flag_def split: option.splits)
  moreover have "same_kinds s' (t(n \<mapsto> new))" using assms(1) w(3) by (simp add: same_kinds_def)
  ultimately show thesis by (rule that)
qed

text \<open>Whether arguments are accepted does not depend on the values before.\<close>

lemma parse_flags_accepts:
  "same_kinds t s \<Longrightarrow> parse_flags args s seen = Inr (s', seen') \<Longrightarrow> \<exists>t' seen'. parse_flags args t seen2 = Inr (t', seen')"
proof (induction args s seen arbitrary: t seen2 rule: parse_flags.induct)
  case (1 args s seen)
  note one = parse_one_kinds [OF "1.prems"(1), of args]
  consider (stop) "parse_one s args = Inr None"
    | (go) n v rest s1 where "parse_one s args = Inr (Some ((n, v), rest))" "set_flag n v s = Some s1"
        "parse_flags rest s1 (n # seen) = Inr (s', seen')"
    using "1.prems"(2) by (subst (asm) parse_flags.simps) (auto split: sum.splits option.splits prod.splits)
  then show ?case
  proof cases
    case stop
    then show ?thesis using one by (subst parse_flags.simps) simp
  next
    case go
    have "same_kinds s t" using "1.prems"(1) by (simp add: same_kinds_def)
    from this go(2) obtain t1 where t1: "set_flag n v t = Some t1" "same_kinds s1 t1" by (rule set_flag_kinds)
    have "same_kinds t1 s1" using t1(2) by (simp add: same_kinds_def)
    from "1.IH" [OF go(1) refl refl refl go(2) this go(3)] show ?thesis
      using one go(1) t1(1) by (subst parse_flags.simps) simp
  qed
qed

lemma apply_env_assigns:
  "apply_env env ns s from_env = Inr (s', from_env') \<Longrightarrow> distinct ns \<Longrightarrow>
    same_kinds s s' \<and> set from_env' = set from_env \<union> {n \<in> set ns. env (env_name n) \<noteq> []} \<and>
    (\<forall>n. s' n = (if n \<in> set ns \<and> env (env_name n) \<noteq> [] then read_as s n (env (env_name n)) else s n))"
proof (induction env ns s from_env rule: apply_env.induct)
  case (2 env n ns s from_env)
  show ?case
  proof (cases "env (env_name n) = []")
    case True
    then have "apply_env env ns s from_env = Inr (s', from_env')" "distinct ns" using "2.prems" by simp_all
    from "2.IH"(1) [OF refl True this] have a: "same_kinds s s'"
      and b: "set from_env' = set from_env \<union> {n \<in> set ns. env (env_name n) \<noteq> []}"
      and c: "\<And>n. s' n = (if n \<in> set ns \<and> env (env_name n) \<noteq> [] then read_as s n (env (env_name n)) else s n)" by blast+
    have "s' m = (if m \<in> set (n # ns) \<and> env (env_name m) \<noteq> [] then read_as s m (env (env_name m)) else s m)" for m
      using True by (auto simp: c [of m])
    moreover have "set from_env' = set from_env \<union> {m \<in> set (n # ns). env (env_name m) \<noteq> []}" using b True by auto
    ultimately show ?thesis using a by blast
  next
    case False
    then obtain s1 where s1: "set_flag n (env (env_name n)) s = Some s1" "apply_env env ns s1 (n # from_env) = Inr (s', from_env')"
      using "2.prems"(1) by (auto simp: Let_def split: option.splits)
    from s1(1) obtain old new where w: "s n = Some old" "read_setting old (env (env_name n)) = Some new" "s1 = s(n \<mapsto> new)" "same_kinds s s1"
      by (rule set_flag_Some)
    have r: "read_as s n (env (env_name n)) = Some new" using w(1,2) by (simp add: read_as_def)
    have same: "read_as s1 = read_as s" by (intro ext read_as_kinds [OF w(4), symmetric])
    from "2.IH"(2) [OF refl False s1] "2.prems"(2) have a: "same_kinds s1 s'"
      and b: "set from_env' = set (n # from_env) \<union> {n \<in> set ns. env (env_name n) \<noteq> []}"
      and c: "\<And>n. s' n = (if n \<in> set ns \<and> env (env_name n) \<noteq> [] then read_as s1 n (env (env_name n)) else s1 n)" by simp_all
    have "s' m = (if m \<in> set (n # ns) \<and> env (env_name m) \<noteq> [] then read_as s m (env (env_name m)) else s m)" for m
    proof -
      have "s1 m = (if m = n then Some new else s m)" by (simp add: w(3))
      then show ?thesis using False "2.prems"(2) r by (auto simp: c [of m] same)
    qed
    moreover have "set from_env' = set from_env \<union> {m \<in> set (n # ns). env (env_name m) \<noteq> []}" using b False by auto
    ultimately show ?thesis using same_kinds_trans [OF w(4) a] by blast
  qed
qed simp

lemma flag_names_facts: "distinct flag_names" "set flag_names = dom (default_settings home)"
proof -
  show "distinct flag_names" by (simp add: flag_names_def flags_def)
  have "set flag_names = set (map fst (flags None))" by (simp add: flag_names_def)
  also have "\<dots> = set (map fst (flags home))" by (simp add: flags_def)
  also have "\<dots> = dom (default_settings home)" by (simp add: default_settings_def dom_map_of_conv_image_fst)
  finally show "set flag_names = dom (default_settings home)" .
qed

text \<open>The value a setting is given: the last on the command line, else that of the environment.\<close>

definition chosen :: "string option \<Rightarrow> string list \<Rightarrow> (string \<Rightarrow> string) \<Rightarrow> string \<Rightarrow> string option" where
  "chosen home args env n =
     (case map_of (rev (assignments (default_settings home) args)) n of
        Some v \<Rightarrow> Some v
      | None \<Rightarrow> if env (env_name n) = [] then None else Some (env (env_name n)))"

section \<open>Properties\<close>

text \<open>
  C33: one precedence for every setting. When \<open>Load\<close> accepts, a setting has the last value the command
  line gave it, else its environment variable's when that is not empty, else its default; and the
  settings reported as overridden are exactly those given in both places.
\<close>

theorem settings_precedence:
  assumes "load_settings home args env = Inr (s, over)" "n \<in> set flag_names"
  shows "s n = (case chosen home args env n of
      None \<Rightarrow> default_settings home n
    | Some v \<Rightarrow> read_as (default_settings home) n v) \<and>
    (n \<in> set over \<longleftrightarrow> n \<in> fst ` set (assignments (default_settings home) args) \<and> env (env_name n) \<noteq> [])"
proof -
  let ?d = "default_settings home"
  obtain s1 fe seen where e: "apply_env env flag_names ?d [] = Inr (s1, fe)"
    and p: "parse_flags args s1 [] = Inr (s, seen)"
    and over: "over = filter (\<lambda>n. n \<in> set (flags_given_on home args) \<and> n \<in> set fe) flag_names"
    using assms(1) unfolding load_settings_def
    by (auto simp: and_then_Inr_iff map_err_Inr_iff split: prod.splits)
  from apply_env_assigns [OF e flag_names_facts(1)] have k: "same_kinds ?d s1"
    and fe: "set fe = {n \<in> set flag_names. env (env_name n) \<noteq> []}"
    and s1: "s1 n = (if env (env_name n) \<noteq> [] then read_as ?d n (env (env_name n)) else ?d n)"
    using assms(2) by auto
  from parse_flags_assigns [OF p k]
  have s: "s n = (case map_of (rev (assignments ?d args)) n of None \<Rightarrow> s1 n | Some v \<Rightarrow> read_as ?d n v)" by blast
  obtain s' seen' where "parse_flags args ?d [] = Inr (s', seen')"
    using parse_flags_accepts [OF k p] by blast
  then have "set (flags_given_on home args) = fst ` set (assignments ?d args)"
    using parse_flags_assigns [of args ?d "[]" s' seen' ?d] by (simp add: flags_given_on_def)
  then show ?thesis using s s1 fe assms(2) by (auto simp: chosen_def over split: option.splits)
qed

definition demo_env :: "string \<Rightarrow> string" where
  "demo_env n = (if n = ''HAIGOSMART_LISTEN'' then '':9'' else [])"

theorem settings_precedence_witness:
  "\<exists>s over. load_settings None [''-listen'', '':7''] demo_env = Inr (s, over) \<and> s ''listen'' = Some (SString '':7'') \<and> ''listen'' \<in> set over"
proof -
  have "\<not> isl (load_settings None [''-listen'', '':7''] demo_env)" by code_simp
  then obtain s over where l: "load_settings None [''-listen'', '':7''] demo_env = Inr (s, over)"
    by (cases "load_settings None [''-listen'', '':7''] demo_env") auto
  have n: "''listen'' \<in> set flag_names" by (simp add: flag_names_def flags_def)
  have c: "chosen None [''-listen'', '':7''] demo_env ''listen'' = Some '':7''" by code_simp
  have r: "read_as (default_settings None) ''listen'' '':7'' = Some (SString '':7'')" by code_simp
  have "map fst (assignments (default_settings None) [''-listen'', '':7'']) = [''listen'']" by code_simp
  then have a: "''listen'' \<in> fst ` set (assignments (default_settings None) [''-listen'', '':7''])" by (metis list.set_intros(1) set_map)
  have "demo_env (env_name ''listen'') \<noteq> []" by code_simp
  then show ?thesis using settings_precedence [OF l n] l c r a by (intro exI [of _ s] exI [of _ over]) simp
qed

text \<open>
  The configured lamps are exactly the well-formed sets: ids and names present, trimmed, free of the
  separators, each used once, no name a command word. Every such set is read back from the form the
  startup record shows it in, and nothing else is ever returned.
\<close>

theorem lamps_roundtrip:
  "((\<exists>s. parse_lamps s = Inr ls) \<longleftrightarrow> lamps_ok ls) \<and> (lamps_ok ls \<longrightarrow> parse_lamps (lamps_text ls) = Inr ls)"
  using parse_lamps_ok parse_lamps_text by blast

theorem lamps_roundtrip_witness:
  "parse_lamps ''a1=desk,b2=hall lamp'' = Inr [\<lparr>lamp_id = ''a1'', lamp_name = ''desk''\<rparr>, \<lparr>lamp_id = ''b2'', lamp_name = ''hall lamp''\<rparr>]"
proof -
  let ?ls = "[\<lparr>lamp_id = ''a1'', lamp_name = ''desk''\<rparr>, \<lparr>lamp_id = ''b2'', lamp_name = ''hall lamp''\<rparr>]"
  have "lamps_ok ?ls" "lamps_text ?ls = ''a1=desk,b2=hall lamp''" by code_simp+
  then show ?thesis using lamps_roundtrip [of ?ls] by simp
qed

text \<open>
  The broker's password never reaches the log: two configurations that differ in nothing but a
  password that is set give the same startup record.
\<close>

theorem password_not_logged:
  "log_value (c\<lparr>cf_mqtt_password := x # p\<rparr>) = log_value (c\<lparr>cf_mqtt_password := y # q\<rparr>)"
  by (simp add: log_value_def)

end
