(* ===== verification/Persist.thy ===== *)
theory Persist
  imports Registry
begin

text \<open>
  The registry file, \<open>internal/registry/persist.go\<close>: what is stored of a bulb, what a file must
  satisfy to be loaded, and the store that coalesces changes into one write. The file is modelled as
  the value \<open>json.MarshalIndent\<close> is given and \<open>json.Unmarshal\<close> returns; its bytes and the wording of the
  errors are in RegText, its replacement on disk in Saving.
\<close>

section \<open>The file\<close>

record stored_bulb =
  s_device_id :: string
  s_name :: string
  s_first_seen :: time
  s_last_seen :: time
  s_capabilities :: capabilities
  s_firmware :: string
  s_state :: light_state

record reg_file =
  file_version :: int
  file_bulbs :: "stored_bulb list"

definition current_version :: int where
  "current_version = 1"

definition store_bulb :: "bulb \<Rightarrow> stored_bulb" where
  "store_bulb b =
     \<lparr>s_device_id = device_id b, s_name = bulb_name b, s_first_seen = first_seen b, s_last_seen = last_seen b,
      s_capabilities = bulb_caps b, s_firmware = firmware b, s_state = light b\<rparr>"

definition file_of :: "registry \<Rightarrow> reg_file" where
  "file_of r = \<lparr>file_version = current_version, file_bulbs = map store_bulb (snapshot r)\<rparr>"

definition restore_bulb :: "stored_bulb \<Rightarrow> bulb" where
  "restore_bulb sb =
     zero_bulb\<lparr>device_id := s_device_id sb, bulb_name := s_name sb, status := Disconnected, light := s_state sb,
       bulb_caps := s_capabilities sb, firmware := s_firmware sb, first_seen := s_first_seen sb,
       last_seen := s_last_seen sb\<rparr>"

datatype load_error =
    WrongVersion int
  | NoDeviceId
  | DuplicateDevice string
  | ReusedName string string string

text \<open>The loop of \<open>Load\<close>, with the ids seen and the owners of the names so far.\<close>

fun load_loop :: "string list \<Rightarrow> (string \<times> string) list \<Rightarrow> stored_bulb list \<Rightarrow> registry \<Rightarrow> load_error + registry" where
  "load_loop seen names [] r = Inr r"
| "load_loop seen names (sb # sbs) r =
     (if s_device_id sb = [] then Inl NoDeviceId
      else if s_device_id sb \<in> set seen then Inl (DuplicateDevice (s_device_id sb))
      else
        (case map_of names (s_name sb) of
           Some owner \<Rightarrow> Inl (ReusedName (s_name sb) owner (s_device_id sb))
         | None \<Rightarrow>
             load_loop (s_device_id sb # seen) (aset (s_name sb) (s_device_id sb) names) sbs
               (put_bulb (s_device_id sb) (restore_bulb sb) r)))"

definition load_file :: "reg_file option \<Rightarrow> load_error + registry" where
  "load_file f =
     (case f of
        None \<Rightarrow> Inr new_registry
      | Some f \<Rightarrow>
          if file_version f \<noteq> current_version then Inl (WrongVersion (file_version f))
          else load_loop [] [] (file_bulbs f) new_registry)"

section \<open>What a file must satisfy\<close>

definition file_ok :: "reg_file \<Rightarrow> bool" where
  "file_ok f \<longleftrightarrow> file_version f = current_version \<and> [] \<notin> set (map s_device_id (file_bulbs f)) \<and>
     distinct (map s_device_id (file_bulbs f)) \<and> distinct (map s_name (file_bulbs f))"

lemma load_loop_Inr:
  assumes "fst ` set names = set used"
  shows "(\<exists>r'. load_loop seen names sbs r = Inr r') \<longleftrightarrow>
    [] \<notin> set (map s_device_id sbs) \<and> distinct (map s_device_id sbs) \<and> set seen \<inter> set (map s_device_id sbs) = {} \<and>
    distinct (map s_name sbs) \<and> set used \<inter> set (map s_name sbs) = {}"
  using assms
proof (induction sbs arbitrary: seen names used r)
  case Nil
  then show ?case by simp
next
  case (Cons sb sbs)
  have keys: "fst ` set (aset (s_name sb) (s_device_id sb) names) = set (s_name sb # used)"
    using Cons.prems by (simp add: keys_aset)
  have none: "map_of names (s_name sb) = None \<longleftrightarrow> s_name sb \<notin> set used"
    using Cons.prems by (simp add: map_of_eq_None_iff)
  show ?case
    using Cons.IH [OF keys, of "s_device_id sb # seen" "put_bulb (s_device_id sb) (restore_bulb sb) r"] none
    by (cases "map_of names (s_name sb)") auto
qed

lemma load_loop_lookup:
  "load_loop seen names sbs r = Inr r' \<Longrightarrow>
    lookup_bulb r' i = (case map_of (map (\<lambda>sb. (s_device_id sb, restore_bulb sb)) sbs) i of
       Some b \<Rightarrow> Some b | None \<Rightarrow> lookup_bulb r i)"
proof (induction sbs arbitrary: seen names r)
  case (Cons sb sbs)
  have len: "s_device_id sb \<notin> s_device_id ` set sbs"
  proof -
    have "\<exists>r'. load_loop [] [] [] r = Inr r'" by simp
    from Cons.prems obtain nm where "load_loop (s_device_id sb # seen) nm sbs (put_bulb (s_device_id sb) (restore_bulb sb) r) = Inr r'"
      by (auto split: if_splits option.splits)
    then have "\<exists>r'. load_loop (s_device_id sb # seen) nm sbs (put_bulb (s_device_id sb) (restore_bulb sb) r) = Inr r'" by blast
    then show ?thesis
      using load_loop_Inr [of nm "map fst nm"] by auto
  qed
  then have "map_of (map (\<lambda>sb. (s_device_id sb, restore_bulb sb)) sbs) (s_device_id sb) = None"
    by (auto simp: map_of_eq_None_iff)
  with Cons show ?case
    by (auto simp: reg_simps split: if_splits option.splits)
qed simp

lemma load_loop_reg_ok: "load_loop seen names sbs r = Inr r' \<Longrightarrow> reg_ok r \<Longrightarrow> reg_ok r'"
proof (induction sbs arbitrary: seen names r)
  case (Cons sb sbs)
  have "bulb_ok (s_device_id sb) (restore_bulb sb)" by (simp add: bulb_ok_def restore_bulb_def zero_bulb_def)
  with Cons show ?case by (auto split: if_splits option.splits intro: reg_ok_put)
qed simp

section \<open>What must survive a restart\<close>

text \<open>
  Everything stored but the times a bulb was last heard of, which keep-alives move without a save.
\<close>

type_synonym core = "string \<times> time \<times> capabilities \<times> string \<times> bool \<times> byte \<times> byte \<times> mode"

definition core_of :: "bulb \<Rightarrow> core" where
  "core_of b = (bulb_name b, first_seen b, bulb_caps b, firmware b,
     power (light b), brightness (light b), color_temp (light b), light_mode (light b))"

definition durable :: "registry \<Rightarrow> string \<Rightarrow> core option" where
  "durable r i = map_option core_of (lookup_bulb r i)"

definition durable_file :: "reg_file option \<Rightarrow> string \<Rightarrow> core option" where
  "durable_file f i =
     (case f of None \<Rightarrow> None
      | Some f \<Rightarrow> map_of (map (\<lambda>sb. (s_device_id sb, core_of (restore_bulb sb))) (file_bulbs f)) i)"

lemma core_restore [simp]: "core_of (restore_bulb (store_bulb b)) = core_of b"
  by (simp add: core_of_def restore_bulb_def store_bulb_def)

lemma durable_file_of:
  assumes "reg_ok r"
  shows "durable_file (Some (file_of r)) = durable r"
proof
  fix i
  let ?kv = "\<lambda>b. (device_id b, core_of b)"
  have set: "set (snapshot r) = set (map snd (bulbs r))"
    by (simp add: snapshot_def list_bulbs_def)
  have dist: "distinct (map device_id (snapshot r))"
  proof -
    have ids: "map (\<lambda>p. device_id (snd p)) (bulbs r) = map fst (bulbs r)"
      using assms reg_ok_member [OF assms] by (auto simp: bulb_ok_def dest: reg_ok_lookup)
    have "mset (map device_id (snapshot r)) = mset (map fst (bulbs r))"
      by (simp add: snapshot_def list_bulbs_def multiset.map_comp comp_def flip: ids)
    then have "distinct (map device_id (snapshot r)) = distinct (map fst (bulbs r))"
      by (rule mset_eq_imp_distinct_iff)
    then show ?thesis using assms by (simp add: reg_ok_def)
  qed
  have "durable_file (Some (file_of r)) i = map_of (map ?kv (snapshot r)) i"
    by (simp add: durable_file_def file_of_def comp_def) (simp add: store_bulb_def comp_def core_of_def restore_bulb_def)
  also have "\<dots> = durable r i"
  proof (cases "lookup_bulb r i")
    case None
    then have "i \<notin> device_id ` set (snapshot r)"
      unfolding set by (metis imageE option.distinct(1) set_bulbs [OF assms])
    then have "map_of (map ?kv (snapshot r)) i = None" by (auto simp: map_of_eq_None_iff)
    with None show ?thesis by (simp add: durable_def)
  next
    case (Some b)
    then have "device_id b = i" using reg_ok_lookup [OF assms Some] by (simp add: bulb_ok_def)
    then have "b \<in> set (snapshot r)" unfolding set using Some set_bulbs [OF assms, of b] by simp
    then have "(i, core_of b) \<in> set (map ?kv (snapshot r))" using \<open>device_id b = i\<close> by force
    then have "map_of (map ?kv (snapshot r)) i = Some (core_of b)"
      using dist by (intro map_of_is_SomeI) (simp_all add: comp_def)
    with Some show ?thesis by (simp add: durable_def)
  qed
  finally show "durable_file (Some (file_of r)) i = durable r i" .
qed

text \<open>Every operation that changes any of it calls the callback.\<close>

lemma same_light_core:
  "same_light (light b) s \<Longrightarrow> core_of (b\<lparr>light := s, last_seen := t, desired := d\<rparr>) = core_of b"
  by (simp add: core_of_def same_light_def)

lemma durable_put: "durable (put_bulb i b r) = (durable r)(i := Some (core_of b))"
  by (auto simp: durable_def reg_simps)

lemma durable_same: "lookup_bulb r i = Some e \<Longrightarrow> core_of b = core_of e \<Longrightarrow> durable (put_bulb i b r) = durable r"
  by (auto simp: durable_put durable_def)

lemma durable_dirty [simp]: "durable (mark_dirty r) = durable r"
  by (simp add: durable_def reg_simps fun_eq_iff)

lemma op_dirty: "dirty (run_op op r) = dirty r \<Longrightarrow> durable (run_op op r) = durable r"
proof (cases op)
  case (OpSetState i s now)
  assume "dirty (run_op op r) = dirty r"
  with OpSetState show ?thesis
    by (auto simp: set_state_def Let_def reg_simps diff_state_Nil_iff split: option.splits if_splits
        intro!: durable_same same_light_core)
qed (auto simp: reg_defs Let_def reg_simps core_of_def split: option.splits if_splits intro!: durable_same)

section \<open>The store\<close>

text \<open>
  \<open>schedule\<close>, \<open>Flush\<close>, \<open>save\<close> and \<open>Close\<close> as the steps their locks allow: a flush takes the pending
  mark, then takes its snapshot, then replaces the file, and anything may happen in between. A
  goroutine inside \<open>Flush\<close> is in \<open>flights\<close>; \<open>armed\<close> is the debounce timer. Both the timer's function
  and \<open>Close\<close> start a flush.
\<close>

datatype flush = Taking | Snapping | Writing reg_file

record store =
  reg :: registry
  pending :: bool
  armed :: bool
  flights :: "flush list"
  disk :: "reg_file option"

definition schedule :: "store \<Rightarrow> store" where
  "schedule s = s\<lparr>pending := True, armed := True\<rparr>"

text \<open>A call on the registry, with the callback it was built with.\<close>

definition change :: "reg_op \<Rightarrow> store \<Rightarrow> store" where
  "change op s =
     (let r' = run_op op (reg s);
          s' = s\<lparr>reg := r'\<rparr>
      in if dirty r' \<noteq> dirty (reg s) then schedule s' else s')"

definition start_flush :: "store \<Rightarrow> store" where
  "start_flush s = s\<lparr>armed := False, flights := flights s @ [Taking]\<rparr>"

definition take_pending :: "flush list \<Rightarrow> flush list \<Rightarrow> store \<Rightarrow> store" where
  "take_pending xs ys s =
     s\<lparr>pending := False, flights := (if pending s then xs @ Snapping # ys else xs @ ys)\<rparr>"

text \<open>The two switches: whether a write may fail, and whether two flushes may overlap.\<close>

inductive store_step :: "bool \<Rightarrow> bool \<Rightarrow> store \<Rightarrow> store \<Rightarrow> bool" for failing overlap :: bool where
  changed: "store_step failing overlap s (change op s)"
| fired: "armed s \<Longrightarrow> overlap \<or> flights s = [] \<Longrightarrow> store_step failing overlap s (start_flush s)"
| closed: "overlap \<or> flights s = [] \<Longrightarrow> store_step failing overlap s (start_flush s)"
| taken: "flights s = xs @ Taking # ys \<Longrightarrow> store_step failing overlap s (take_pending xs ys s)"
| snapped: "flights s = xs @ Snapping # ys \<Longrightarrow>
    store_step failing overlap s (s\<lparr>flights := xs @ Writing (file_of (reg s)) # ys\<rparr>)"
| written: "flights s = xs @ Writing f # ys \<Longrightarrow>
    store_step failing overlap s (s\<lparr>flights := xs @ ys, disk := Some f\<rparr>)"
| write_failed: "failing \<Longrightarrow> flights s = xs @ Writing f # ys \<Longrightarrow> store_step failing overlap s (s\<lparr>flights := xs @ ys\<rparr>)"

inductive_cases store_stepE: "store_step failing overlap s t"

text \<open>At the start the registry has just been loaded.\<close>

definition store_start :: "store \<Rightarrow> bool" where
  "store_start s \<longleftrightarrow> load_file (disk s) = Inr (reg s) \<and> \<not> pending s \<and> \<not> armed s \<and> flights s = []"

definition store_inv :: "store \<Rightarrow> bool" where
  "store_inv s \<longleftrightarrow> reg_ok (reg s) \<and> (pending s \<longrightarrow> armed s \<or> flights s = [Taking]) \<and>
     (case flights s of
        [] \<Rightarrow> pending s \<or> durable_file (disk s) = durable (reg s)
      | [Taking] \<Rightarrow> pending s \<or> durable_file (disk s) = durable (reg s)
      | [Snapping] \<Rightarrow> True
      | [Writing f] \<Rightarrow> pending s \<or> durable_file (Some f) = durable (reg s)
      | _ \<Rightarrow> False)"

lemma durable_load:
  assumes "load_file f = Inr r"
  shows "durable_file f = durable r" "reg_ok r"
proof -
  show "reg_ok r"
    using assms by (auto simp: load_file_def split: option.splits if_splits intro: load_loop_reg_ok)
  show "durable_file f = durable r"
  proof (cases f)
    case None
    with assms show ?thesis
      by (auto simp: load_file_def durable_file_def durable_def lookup_bulb_def new_registry_def)
  next
    case (Some g)
    with assms have "load_loop [] [] (file_bulbs g) new_registry = Inr r"
      by (auto simp: load_file_def split: if_splits)
    note look = load_loop_lookup [OF this]
    have core: "map_of (map (\<lambda>sb. (s_device_id sb, core_of (restore_bulb sb))) l) i =
        map_option core_of (map_of (map (\<lambda>sb. (s_device_id sb, restore_bulb sb)) l) i)" for i l
      by (induction l) auto
    have "lookup_bulb new_registry i = None" for i by (simp add: lookup_bulb_def new_registry_def)
    then show ?thesis
      by (auto simp: durable_def durable_file_def Some fun_eq_iff look core split: option.split)
  qed
qed

lemma change_cases:
  "reg (change op s) = run_op op (reg s)" "flights (change op s) = flights s" "disk (change op s) = disk s"
  "pending s \<Longrightarrow> pending (change op s)" "armed s \<Longrightarrow> armed (change op s)"
  "pending (change op s) \<Longrightarrow> pending s \<or> armed (change op s)"
  "\<not> pending (change op s) \<Longrightarrow> durable (run_op op (reg s)) = durable (reg s)"
  by (auto simp: change_def Let_def schedule_def op_dirty split: if_splits)

lemma store_inv_change: "store_inv s \<Longrightarrow> store_inv (change op s)"
  using change_cases [where op = op and s = s]
  by (auto simp: store_inv_def reg_ok_op split: list.splits flush.splits)

lemma one_flight: "xs @ p # ys = [q] \<longleftrightarrow> xs = [] \<and> ys = [] \<and> p = q"
  by (cases xs) auto

lemma store_inv_flights:
  "store_inv s \<Longrightarrow> flights s = xs @ p # ys \<Longrightarrow> xs = [] \<and> ys = [] \<and> flights s = [p]"
  by (cases xs; cases ys) (auto simp: store_inv_def split: list.splits flush.splits)

lemma store_inv_step: "store_inv s \<Longrightarrow> store_step False False s t \<Longrightarrow> store_inv t"
proof (erule store_stepE, goal_cases)
  case (1 op)
  then show ?case by (simp add: store_inv_change)
next
  case 2
  then show ?case by (auto simp: store_inv_def start_flush_def)
next
  case 3
  then show ?case by (auto simp: store_inv_def start_flush_def)
next
  case (4 xs ys)
  then show ?case
    using store_inv_flights [of s xs Taking ys] by (auto simp: store_inv_def take_pending_def)
next
  case (5 xs ys)
  then show ?case
    using store_inv_flights [of s xs Snapping ys] by (auto simp: store_inv_def durable_file_of)
next
  case (6 xs f ys)
  then show ?case
    using store_inv_flights [of s xs "Writing f" ys] by (auto simp: store_inv_def)
next
  case (7 xs f ys)
  then show ?case by simp
qed

interpretation store: invariant_system store_start "store_step False False" store_inv
proof unfold_locales
  show "store_start s \<Longrightarrow> store_inv s" for s
    using durable_load [of "disk s" "reg s"] by (simp add: store_start_def store_inv_def)
qed (rule store_inv_step)

section \<open>Saving and loading\<close>

lemma load_accepts: "(\<exists>r. load_file (Some f) = Inr r) \<longleftrightarrow> file_ok f"
  using load_loop_Inr [of "[]" "[]" "[]" "file_bulbs f" new_registry]
  by (auto simp: load_file_def file_ok_def)

lemma distinct_snapshot_ids: "reg_ok r \<Longrightarrow> distinct (map device_id (snapshot r))"
proof -
  assume r: "reg_ok r"
  have ids: "map (\<lambda>p. device_id (snd p)) (bulbs r) = map fst (bulbs r)"
    using r reg_ok_member [OF r] by (auto simp: bulb_ok_def dest: reg_ok_lookup)
  have "mset (map device_id (snapshot r)) = mset (map fst (bulbs r))"
    by (simp add: snapshot_def list_bulbs_def multiset.map_comp comp_def flip: ids)
  then have "distinct (map device_id (snapshot r)) = distinct (map fst (bulbs r))"
    by (rule mset_eq_imp_distinct_iff)
  then show ?thesis using r by (simp add: reg_ok_def)
qed

lemma set_snapshot: "set (snapshot r) = set (map snd (bulbs r))"
  by (simp add: snapshot_def list_bulbs_def)

lemma distinct_snapshot_names:
  assumes "reg_ok r" "names_unique r"
  shows "distinct (map bulb_name (snapshot r))"
  unfolding distinct_map
proof
  show "distinct (snapshot r)" using distinct_snapshot_ids [OF assms(1)] by (simp add: distinct_map)
  show "inj_on bulb_name (set (snapshot r))"
    using names_unique_bulbs [OF assms] by (auto simp: inj_on_def set_snapshot)
qed

lemma file_of_ok:
  assumes "reg_ok r" "names_unique r" "lookup_bulb r [] = None"
  shows "file_ok (file_of r)"
proof -
  have "[] \<notin> device_id ` set (snapshot r)"
  proof
    assume "[] \<in> device_id ` set (snapshot r)"
    then obtain b where b: "b \<in> set (snapshot r)" "device_id b = []" by (elim imageE) simp
    from b(1) have "b \<in> set (map snd (bulbs r))" by (simp only: set_snapshot)
    with set_bulbs [OF assms(1), of b] assms(3) b(2) show False by simp
  qed
  then show ?thesis
    using distinct_snapshot_ids [OF assms(1)] distinct_snapshot_names [OF assms(1,2)]
    by (simp add: file_ok_def file_of_def comp_def image_image) (simp add: store_bulb_def)
qed

lemma load_file_of:
  assumes "reg_ok r" "load_file (Some (file_of r)) = Inr r'"
  shows "lookup_bulb r' i = map_option (\<lambda>b. restore_bulb (store_bulb b)) (lookup_bulb r i)"
proof -
  let ?kv = "\<lambda>b. (device_id b, restore_bulb (store_bulb b))"
  have "load_loop [] [] (map store_bulb (snapshot r)) new_registry = Inr r'"
    using assms(2) by (simp add: load_file_def file_of_def)
  from load_loop_lookup [OF this, of i]
  have look: "lookup_bulb r' i = map_of (map ?kv (snapshot r)) i"
    by (simp add: comp_def lookup_bulb_def new_registry_def split: option.split) (simp add: store_bulb_def)
  show ?thesis
  proof (cases "lookup_bulb r i")
    case None
    then have "i \<notin> device_id ` set (snapshot r)"
      unfolding set_snapshot by (metis imageE option.distinct(1) set_bulbs [OF assms(1)])
    then have "map_of (map ?kv (snapshot r)) i = None" by (auto simp: map_of_eq_None_iff)
    with None look show ?thesis by simp
  next
    case (Some b)
    then have "device_id b = i" using reg_ok_lookup [OF assms(1) Some] by (simp add: bulb_ok_def)
    then have "b \<in> set (snapshot r)" unfolding set_snapshot using Some set_bulbs [OF assms(1), of b] by simp
    then have "(i, restore_bulb (store_bulb b)) \<in> set (map ?kv (snapshot r))" using \<open>device_id b = i\<close> by force
    then have "map_of (map ?kv (snapshot r)) i = Some (restore_bulb (store_bulb b))"
      using distinct_snapshot_ids [OF assms(1)] by (intro map_of_is_SomeI) (simp_all add: comp_def)
    with Some look show ?thesis by simp
  qed
qed

lemma store_rest:
  assumes "store_inv s" "flights s = []" "\<not> armed s"
  shows "durable_file (disk s) = durable (reg s)"
  using assms by (auto simp: store_inv_def)

lemma store_writes:
  assumes "store_inv s" "flights s = [Writing f]"
  shows "\<exists>t. (store_step False False)\<^sup>*\<^sup>* s t \<and> reg t = reg s \<and> flights t = [] \<and> armed t = armed s"
proof -
  have "store_step False False s (s\<lparr>flights := [] @ [], disk := Some f\<rparr>)"
    by (rule store_step.written) (simp add: assms)
  then show ?thesis by (intro exI [of _ "s\<lparr>flights := [] @ [], disk := Some f\<rparr>"]) auto
qed

lemma store_snaps:
  assumes "store_inv s" "flights s = [Snapping]"
  shows "\<exists>t. (store_step False False)\<^sup>*\<^sup>* s t \<and> reg t = reg s \<and> flights t = [] \<and> armed t = armed s"
proof -
  let ?u = "s\<lparr>flights := [] @ Writing (file_of (reg s)) # []\<rparr>"
  have step: "store_step False False s ?u"
    by (rule store_step.snapped) (simp add: assms)
  then have "store_inv ?u" using assms(1) by (rule store_inv_step [rotated])
  from store_writes [OF this, of "file_of (reg s)"] step show ?thesis
    by (auto intro: converse_rtranclp_into_rtranclp)
qed

lemma store_takes:
  assumes "store_inv s" "flights s = [Taking]"
  shows "\<exists>t. (store_step False False)\<^sup>*\<^sup>* s t \<and> reg t = reg s \<and> flights t = [] \<and> armed t = armed s"
proof -
  have step: "store_step False False s (take_pending [] [] s)"
    by (rule store_step.taken) (simp add: assms)
  then have "store_inv (take_pending [] [] s)" using assms(1) by (rule store_inv_step [rotated])
  from store_snaps [OF this] step show ?thesis
    by (cases "pending s") (auto simp: take_pending_def intro: converse_rtranclp_into_rtranclp)
qed

lemma store_drains:
  assumes "store_inv s"
  shows "\<exists>t. (store_step False False)\<^sup>*\<^sup>* s t \<and> reg t = reg s \<and> flights t = [] \<and> armed t = armed s"
proof -
  consider "flights s = []" | "flights s = [Taking]" | "flights s = [Snapping]" | f where "flights s = [Writing f]"
    using assms by (auto simp: store_inv_def split: list.splits flush.splits)
  then show ?thesis
    using store_takes [OF assms] store_snaps [OF assms] store_writes [OF assms] by cases blast+
qed

section \<open>Properties\<close>

text \<open>
  \<open>Load\<close> accepts a file exactly when it has the current version, every bulb has a device id, and
  neither ids nor names repeat; anything else is an error and yields no registry.
\<close>

theorem load_accepts_iff:
  "((\<exists>r. load_file (Some f) = Inr r) \<longleftrightarrow>
     file_version f = 1 \<and> [] \<notin> set (map s_device_id (file_bulbs f)) \<and>
     distinct (map s_device_id (file_bulbs f)) \<and> distinct (map s_name (file_bulbs f))) \<and>
   load_file None = Inr new_registry"
  using load_accepts [of f] by (simp add: file_ok_def current_version_def load_file_def)

text \<open>
  C19: when writes succeed and flushes do not overlap, a change is never forgotten: whenever the
  debounce timer is not running and no flush is in progress, the file holds everything durable the
  registry does; and while it does not, a save is on its way.
\<close>

theorem store_never_forgets:
  assumes "reachable store_start (store_step False False) s"
  shows "(\<not> armed s \<and> flights s = [] \<longrightarrow> durable_file (disk s) = durable (reg s)) \<and>
    (durable_file (disk s) \<noteq> durable (reg s) \<longrightarrow> armed s \<or> flights s \<noteq> []) \<and> length (flights s) \<le> 1"
proof -
  have "store_inv s" using assms by (rule store.reachable_inv)
  then show ?thesis by (auto simp: store_inv_def split: list.splits flush.splits)
qed

theorem store_never_forgets_witness:
  "durable_file None = durable new_registry"
proof -
  let ?s = "\<lparr>reg = new_registry, pending = False, armed = False, flights = [], disk = None\<rparr>"
  have "reachable store_start (store_step False False) ?s"
    by (rule reachable.reach_start) (simp add: store_start_def load_file_def)
  from store_never_forgets [OF this] show ?thesis by simp
qed

text \<open>
  And the save arrives. From any such state, firing the timer and letting the flush run brings the
  file up to date without another change.
\<close>

theorem save_arrives:
  assumes "reachable store_start (store_step False False) s"
  shows "\<exists>t. (store_step False False)\<^sup>*\<^sup>* s t \<and> reg t = reg s \<and> durable_file (disk t) = durable (reg s)"
proof -
  have "store_inv s" using assms by (rule store.reachable_inv)
  from store_drains [OF this] obtain t where t: "(store_step False False)\<^sup>*\<^sup>* s t" "reg t = reg s" "flights t = []"
    by blast
  have inv: "store_inv t" using store.steps_inv [OF t(1) \<open>store_inv s\<close>] .
  have step: "store_step False False t (start_flush t)" by (rule store_step.closed) (simp add: t)
  have "store_inv (start_flush t)" using inv step by (rule store_inv_step)
  from store_drains [OF this] obtain u where
    u: "(store_step False False)\<^sup>*\<^sup>* (start_flush t) u" "reg u = reg t" "flights u = []" "\<not> armed u"
    by (auto simp: start_flush_def)
  have "store_inv u" using store.steps_inv [OF u(1) \<open>store_inv (start_flush t)\<close>] .
  from store_rest [OF this u(3,4)] have "durable_file (disk u) = durable (reg u)" .
  moreover have "(store_step False False)\<^sup>*\<^sup>* s u"
    using t(1) step u(1) by (meson converse_rtranclp_into_rtranclp rtranclp_trans)
  ultimately show ?thesis using t(2) u(2) by auto
qed


theorem save_arrives_witness:
  "\<exists>t. (store_step False False)\<^sup>*\<^sup>*
      (change (OpUpsert ''a'' ''addr'' no_caps 5) \<lparr>reg = new_registry, pending = False, armed = False, flights = [], disk = None\<rparr>) t \<and>
    durable_file (disk t) = durable (run_op (OpUpsert ''a'' ''addr'' no_caps 5) new_registry)"
proof -
  let ?s = "\<lparr>reg = new_registry, pending = False, armed = False, flights = [], disk = None\<rparr>"
  have "reachable store_start (store_step False False) ?s"
    by (rule reachable.reach_start) (simp add: store_start_def load_file_def)
  then have "reachable store_start (store_step False False) (change (OpUpsert ''a'' ''addr'' no_caps 5) ?s)"
    by (rule reachable.reach_step) (rule store_step.changed)
  from save_arrives [OF this] show ?thesis by (auto simp: change_cases(1))
qed

section \<open>Where the code falls short\<close>

text \<open>
  \<open>Flush\<close> clears the pending mark before it saves and does not set it again when the save fails: after
  one failed write the store is at rest, with nothing scheduled and the change not in the file, and
  the final save of \<open>Close\<close> writes nothing either.
\<close>

definition one_bulb :: "store \<Rightarrow> store" where
  "one_bulb s = change (OpUpsert ''a'' ''addr'' no_caps 5) s"

lemma failed_save_is_forgotten:
  "\<exists>s. reachable store_start (store_step True False) s \<and> durable_file (disk s) \<noteq> durable (reg s) \<and>
    \<not> pending s \<and> \<not> armed s \<and> flights s = [] \<and> take_pending [] [] (start_flush s) = s"
proof -
  let ?s0 = "\<lparr>reg = new_registry, pending = False, armed = False, flights = [], disk = None\<rparr>"
  let ?r = "run_op (OpUpsert ''a'' ''addr'' no_caps 5) new_registry"
  have dirty: "dirty ?r \<noteq> dirty new_registry"
    by (simp add: upsert_def lookup_bulb_def new_registry_def Let_def reg_simps)
  have "reachable store_start (store_step True False) ?s0"
    by (rule reachable.reach_start) (simp add: store_start_def load_file_def)
  then have "reachable store_start (store_step True False) (one_bulb ?s0)"
    unfolding one_bulb_def by (rule reachable.reach_step) (rule store_step.changed)
  then have "reachable store_start (store_step True False) \<lparr>reg = ?r, pending = True, armed = True, flights = [], disk = None\<rparr>"
    using dirty by (simp add: one_bulb_def change_def schedule_def Let_def del: run_op.simps)
  from reachable.reach_step [OF this store_step.fired]
  have "reachable store_start (store_step True False) \<lparr>reg = ?r, pending = True, armed = False, flights = [Taking], disk = None\<rparr>"
    by (simp add: start_flush_def del: run_op.simps)
  from reachable.reach_step [OF this store_step.taken [of _ "[]" "[]"]]
  have "reachable store_start (store_step True False) \<lparr>reg = ?r, pending = False, armed = False, flights = [Snapping], disk = None\<rparr>"
    by (simp add: take_pending_def del: run_op.simps)
  from reachable.reach_step [OF this store_step.snapped [of _ "[]" "[]"]]
  have "reachable store_start (store_step True False) \<lparr>reg = ?r, pending = False, armed = False, flights = [Writing (file_of ?r)], disk = None\<rparr>"
    by (simp del: run_op.simps)
  from reachable.reach_step [OF this store_step.write_failed [of _ _ "[]" "file_of ?r" "[]"]]
  have "reachable store_start (store_step True False) \<lparr>reg = ?r, pending = False, armed = False, flights = [], disk = None\<rparr>"
    by (simp del: run_op.simps)
  moreover have "durable_file None \<noteq> durable ?r"
    by (auto simp: durable_file_def durable_def upsert_def lookup_bulb_def new_registry_def Let_def reg_simps fun_eq_iff
        intro!: exI [of _ "''a''"])
  ultimately show ?thesis
    by (intro exI conjI) (assumption | simp add: take_pending_def start_flush_def)+
qed

text \<open>
  Nothing keeps two flushes apart: a snapshot taken before a change can replace the file written after
  it, and then the newer state is lost although every write succeeded.
\<close>

lemma overlapping_saves_go_back:
  "\<exists>s. reachable store_start (store_step False True) s \<and> durable_file (disk s) \<noteq> durable (reg s) \<and>
    \<not> pending s \<and> \<not> armed s \<and> flights s = []"
proof -
  let ?s0 = "\<lparr>reg = new_registry, pending = False, armed = False, flights = [], disk = None\<rparr>"
  let ?a = "OpUpsert ''a'' ''addr'' no_caps 5" and ?b = "OpUpsert ''b'' ''addr'' no_caps 5"
  define r1 where "r1 = run_op ?a new_registry"
  define r2 where "r2 = run_op ?b r1"
  have dirty: "dirty r1 \<noteq> dirty new_registry" "dirty r2 \<noteq> dirty r1"
    by (simp_all add: r1_def r2_def upsert_def lookup_bulb_def new_registry_def Let_def reg_simps)
  note go = reachable.reach_step [where step = "store_step False True" and start = store_start]
  have "reachable store_start (store_step False True) ?s0"
    by (rule reachable.reach_start) (simp add: store_start_def load_file_def)
  from go [OF this store_step.changed [of _ _ _ ?a]]
  have "reachable store_start (store_step False True) \<lparr>reg = r1, pending = True, armed = True, flights = [], disk = None\<rparr>"
    using dirty by (simp add: change_def schedule_def Let_def flip: r1_def del: run_op.simps)
  from go [OF this store_step.fired]
  have "reachable store_start (store_step False True) \<lparr>reg = r1, pending = True, armed = False, flights = [Taking], disk = None\<rparr>"
    by (simp add: start_flush_def)
  from go [OF this store_step.taken [of _ "[]" "[]"]]
  have "reachable store_start (store_step False True) \<lparr>reg = r1, pending = False, armed = False, flights = [Snapping], disk = None\<rparr>"
    by (simp add: take_pending_def)
  from go [OF this store_step.snapped [of _ "[]" "[]"]]
  have "reachable store_start (store_step False True) \<lparr>reg = r1, pending = False, armed = False, flights = [Writing (file_of r1)], disk = None\<rparr>"
    by simp
  from go [OF this store_step.changed [of _ _ _ ?b]]
  have "reachable store_start (store_step False True) \<lparr>reg = r2, pending = True, armed = True, flights = [Writing (file_of r1)], disk = None\<rparr>"
    using dirty by (simp add: change_def schedule_def Let_def flip: r2_def del: run_op.simps)
  from go [OF this store_step.fired]
  have "reachable store_start (store_step False True) \<lparr>reg = r2, pending = True, armed = False, flights = [Writing (file_of r1), Taking], disk = None\<rparr>"
    by (simp add: start_flush_def)
  from go [OF this store_step.taken [of _ "[Writing (file_of r1)]" "[]"]]
  have "reachable store_start (store_step False True) \<lparr>reg = r2, pending = False, armed = False, flights = [Writing (file_of r1), Snapping], disk = None\<rparr>"
    by (simp add: take_pending_def)
  from go [OF this store_step.snapped [of _ "[Writing (file_of r1)]" "[]"]]
  have "reachable store_start (store_step False True) \<lparr>reg = r2, pending = False, armed = False, flights = [Writing (file_of r1), Writing (file_of r2)], disk = None\<rparr>"
    by simp
  from go [OF this store_step.written [of _ "[Writing (file_of r1)]" "file_of r2" "[]"]]
  have "reachable store_start (store_step False True) \<lparr>reg = r2, pending = False, armed = False, flights = [Writing (file_of r1)], disk = Some (file_of r2)\<rparr>"
    by simp
  from go [OF this store_step.written [of _ "[]" "file_of r1" "[]"]]
  have end_state: "reachable store_start (store_step False True) \<lparr>reg = r2, pending = False, armed = False, flights = [], disk = Some (file_of r1)\<rparr>"
    by simp
  have "reg_ok r1" unfolding r1_def by (rule reg_ok_op [OF reg_ok_new])
  then have "durable_file (Some (file_of r1)) = durable r1" by (rule durable_file_of)
  moreover have "durable r1 ''b'' = None" "durable r2 ''b'' \<noteq> None"
    by (simp_all add: durable_def r1_def r2_def upsert_def lookup_bulb_def new_registry_def Let_def reg_simps)
  then have "durable r1 \<noteq> durable r2" by metis
  ultimately show ?thesis using end_state
    by (intro exI conjI) (assumption | simp)+
qed

end
