(* ===== verification/Broker.thy ===== *)
theory Broker
  imports Mqtt
begin

text \<open>
  The broker the tests run against, \<open>internal/mqtt/mqtttest\<close> (broker.go): connections with their
  subscriptions and last wills, retained messages, and delivery. Sessions are numbered; what is written
  to each is recorded in order.
\<close>

section \<open>State\<close>

record message =
  m_topic :: string
  m_payload :: bytes
  m_retained :: bool

record broker_session =
  bs_topics :: "string list"
  bs_will :: "message option"
  bs_up :: bool

record broker =
  bk_messages :: "message list"
  bk_retained :: "(string \<times> message) list"
  bk_subscribers :: "nat list"
  bk_sessions :: "nat \<rightharpoonup> broker_session"
  bk_connects :: nat
  bk_credentials :: "(string \<times> string) list"
  bk_refuse :: byte
  bk_closed :: bool
  bk_out :: "(nat \<times> bytes) list"

definition new_broker :: broker where
  "new_broker =
     \<lparr>bk_messages = [], bk_retained = [], bk_subscribers = [], bk_sessions = Map.empty, bk_connects = 0,
      bk_credentials = [], bk_refuse = 0, bk_closed = False, bk_out = []\<rparr>"

definition upd_broker_session :: "nat \<Rightarrow> (broker_session \<Rightarrow> broker_session) \<Rightarrow> broker \<Rightarrow> broker" where
  "upd_broker_session d f b = b\<lparr>bk_sessions := (bk_sessions b)(d := map_option f (bk_sessions b d))\<rparr>"

definition refuse_with :: "byte \<Rightarrow> broker \<Rightarrow> broker" where
  "refuse_with rc b = b\<lparr>bk_refuse := rc\<rparr>"

definition broker_topic_matches :: "string \<Rightarrow> string \<Rightarrow> bool" where
  "broker_topic_matches filt t = match_levels (split_at CHR ''/'' filt) (split_at CHR ''/'' t)"

section \<open>Delivery\<close>

text \<open>\<open>conn.Write\<close>; the flag says whether it succeeded.\<close>

definition broker_write :: "nat \<Rightarrow> bytes \<Rightarrow> broker \<Rightarrow> bool \<times> broker" where
  "broker_write d p b =
     (case bk_sessions b d of
        None \<Rightarrow> (False, b)
      | Some s \<Rightarrow> if bs_up s then (True, b\<lparr>bk_out := bk_out b @ [(d, p)]\<rparr>) else (False, b))"

definition send_message :: "nat \<Rightarrow> message \<Rightarrow> broker \<Rightarrow> bool \<times> broker" where
  "send_message d m b = broker_write d (encode_publish (m_topic m) (m_payload m)) b"

definition retain_message :: "message \<Rightarrow> (string \<times> message) list \<Rightarrow> (string \<times> message) list" where
  "retain_message m rs =
     (if \<not> m_retained m then rs
      else if m_payload m = [] then adel (m_topic m) rs
      else aset (m_topic m) m rs)"

definition deliver_to :: "message \<Rightarrow> nat \<Rightarrow> broker \<Rightarrow> broker" where
  "deliver_to m d b =
     (case bk_sessions b d of
        None \<Rightarrow> b
      | Some s \<Rightarrow> if list_ex (\<lambda>f. broker_topic_matches f (m_topic m)) (bs_topics s) then snd (send_message d m b) else b)"

definition broker_deliver :: "message \<Rightarrow> broker \<Rightarrow> broker" where
  "broker_deliver m b =
     fold (deliver_to m) (bk_subscribers b)
       (b\<lparr>bk_messages := bk_messages b @ [m], bk_retained := retain_message m (bk_retained b)\<rparr>)"

definition broker_inject :: "string \<Rightarrow> bytes \<Rightarrow> broker \<Rightarrow> broker" where
  "broker_inject t p b = broker_deliver \<lparr>m_topic = t, m_payload = p, m_retained = False\<rparr> b"

definition retained_matching :: "string \<Rightarrow> broker \<Rightarrow> message list" where
  "retained_matching filt b = map snd (filter (\<lambda>(t, m). broker_topic_matches filt t) (bk_retained b))"

definition remove_session :: "nat \<Rightarrow> broker \<Rightarrow> broker" where
  "remove_session d b = b\<lparr>bk_subscribers := remove1 d (bk_subscribers b)\<rparr>"

section \<open>Wills\<close>

definition will_string :: "bytes \<Rightarrow> nat \<Rightarrow> (bytes \<times> nat) option" where
  "will_string p i =
     (if length p < i + 2 then None
      else
        (let n = unat (p ! i) * 256 + unat (p ! (i + 1))
         in if length p < i + 2 + n then None else Some (take n (drop (i + 2) p), i + 2 + n)))"

definition capture_will :: "bytes \<Rightarrow> message option" where
  "capture_will p =
     (if length p < 10 then None
      else if p ! 7 AND 4 = 0 then None
      else
        (case will_string p 10 of
           None \<Rightarrow> None
         | Some (_, i) \<Rightarrow>
             (case will_string p i of
                None \<Rightarrow> None
              | Some (t, j) \<Rightarrow>
                  (case will_string p j of
                     None \<Rightarrow> None
                   | Some (body, _) \<Rightarrow>
                       Some \<lparr>m_topic = str_of t, m_payload = body, m_retained = (p ! 7 AND 32 \<noteq> 0)\<rparr>))))"

definition publish_will :: "nat \<Rightarrow> broker \<Rightarrow> broker" where
  "publish_will d b =
     (case bk_sessions b d of
        None \<Rightarrow> b
      | Some s \<Rightarrow>
          (let b1 = upd_broker_session d (\<lambda>s. s\<lparr>bs_will := None\<rparr>) b
           in case bs_will s of None \<Rightarrow> b1 | Some m \<Rightarrow> broker_deliver m b1))"

section \<open>A connection\<close>

text \<open>The first packet of session \<open>d\<close>; the flag says whether the session goes on.\<close>

definition broker_connect :: "nat \<Rightarrow> packet \<Rightarrow> broker \<Rightarrow> bool \<times> broker" where
  "broker_connect d pkt b =
     (if ptype pkt \<noteq> type_connect then (False, b)
      else
        (case decode_connect (pbody pkt) of
           Inl e \<Rightarrow> (False, b)
         | Inr c \<Rightarrow>
             (let rc = bk_refuse b; b1 = b\<lparr>bk_refuse := 0\<rparr>;
                  b2 = (if rc = 0
                        then b1\<lparr>bk_connects := bk_connects b1 + 1,
                                bk_credentials := bk_credentials b1 @ [(username c, password c)],
                                bk_subscribers := bk_subscribers b1 @ [d]\<rparr>
                        else b1)
              in if rc \<noteq> 0 then (False, snd (broker_write d [push_bit 4 type_connack, 2, 0, rc] b2))
                 else
                   (case broker_write d connack_accepted b2 of
                      (False, b3) \<Rightarrow> (False, b3)
                    | (True, b3) \<Rightarrow>
                        (True,
                         case capture_will (pbody pkt) of
                           None \<Rightarrow> b3
                         | Some m \<Rightarrow> upd_broker_session d (\<lambda>s. s\<lparr>bs_will := Some m\<rparr>) b3)))))"

fun replay :: "nat \<Rightarrow> message list \<Rightarrow> broker \<Rightarrow> bool \<times> broker" where
  "replay d [] b = (True, b)"
| "replay d (m # ms) b = (case send_message d m b of (False, b1) \<Rightarrow> (False, b1) | (True, b1) \<Rightarrow> replay d ms b1)"

fun replay_filters :: "nat \<Rightarrow> string list \<Rightarrow> broker \<Rightarrow> bool \<times> broker" where
  "replay_filters d [] b = (True, b)"
| "replay_filters d (f # fs) b =
     (case replay d (retained_matching f b) b of (False, b1) \<Rightarrow> (False, b1) | (True, b1) \<Rightarrow> replay_filters d fs b1)"

definition broker_handle :: "nat \<Rightarrow> packet \<Rightarrow> broker \<Rightarrow> bool \<times> broker" where
  "broker_handle d pkt b =
     (if ptype pkt = type_pingreq then broker_write d pingresp b
      else if ptype pkt = type_subscribe then
        (case decode_subscribe (pbody pkt) of
           Inl e \<Rightarrow> (False, b)
         | Inr (i, topics) \<Rightarrow>
             (let b1 = upd_broker_session d (\<lambda>s. s\<lparr>bs_topics := bs_topics s @ topics\<rparr>) b
              in case broker_write d (encode_suback i (length topics)) b1 of
                   (False, b2) \<Rightarrow> (False, b2)
                 | (True, b2) \<Rightarrow> replay_filters d topics b2))
      else if ptype pkt = type_publish then
        (case decode_publish (pbody pkt) (packet_qos pkt) of
           Inl e \<Rightarrow> (False, b)
         | Inr pub \<Rightarrow>
             (case (if packet_qos pkt = 1 then broker_write d (encode_puback (packet_id pub)) b else (True, b)) of
                (False, b1) \<Rightarrow> (False, b1)
              | (True, b1) \<Rightarrow>
                  (True, broker_deliver \<lparr>m_topic = topic pub, m_payload = content pub, m_retained = packet_retained pkt\<rparr> b1)))
      else if ptype pkt = type_disconnect then (False, upd_broker_session d (\<lambda>s. s\<lparr>bs_will := None\<rparr>) b)
      else (True, b))"

text \<open>One turn of the loop on the bytes left in the stream: a read error publishes the will.\<close>

definition broker_turn :: "nat \<Rightarrow> bytes \<Rightarrow> broker \<Rightarrow> bytes option \<times> broker" where
  "broker_turn d r b =
     (case read_packet r of
        Inl e \<Rightarrow> (None, remove_session d (publish_will d b))
      | Inr (pkt, rest) \<Rightarrow>
          (case broker_handle d pkt b of
             (True, b1) \<Rightarrow> (Some rest, b1)
           | (False, b1) \<Rightarrow> (None, remove_session d b1)))"

definition drop_connections :: "broker \<Rightarrow> broker" where
  "drop_connections b =
     fold (\<lambda>d b. upd_broker_session d (\<lambda>s. s\<lparr>bs_up := False\<rparr>) (publish_will d b)) (bk_subscribers b) (b\<lparr>bk_subscribers := []\<rparr>)"

definition broker_close :: "broker \<Rightarrow> broker" where
  "broker_close b =
     (if bk_closed b then b
      else
        fold (\<lambda>d b. upd_broker_session d (\<lambda>s. s\<lparr>bs_up := False\<rparr>) b) (bk_subscribers b)
          (b\<lparr>bk_closed := True, bk_subscribers := []\<rparr>))"

section \<open>Facts\<close>

lemma broker_write_keeps [simp]:
  "bk_retained (snd (broker_write d p b)) = bk_retained b" "bk_sessions (snd (broker_write d p b)) = bk_sessions b"
  "bk_subscribers (snd (broker_write d p b)) = bk_subscribers b" "bk_messages (snd (broker_write d p b)) = bk_messages b"
  by (simp_all add: broker_write_def split: option.split)

lemma deliver_to_keeps [simp]:
  "bk_retained (deliver_to m d b) = bk_retained b" "bk_sessions (deliver_to m d b) = bk_sessions b"
  "bk_messages (deliver_to m d b) = bk_messages b"
  by (simp_all add: deliver_to_def send_message_def split: option.split)

lemma fold_deliver_keeps [simp]:
  "bk_retained (fold (deliver_to m) ds b) = bk_retained b" "bk_sessions (fold (deliver_to m) ds b) = bk_sessions b"
  "bk_messages (fold (deliver_to m) ds b) = bk_messages b"
  by (induction ds arbitrary: b) simp_all

lemma deliver_keeps [simp]:
  "bk_retained (broker_deliver m b) = retain_message m (bk_retained b)" "bk_sessions (broker_deliver m b) = bk_sessions b"
  "bk_messages (broker_deliver m b) = bk_messages b @ [m]"
  by (simp_all add: broker_deliver_def)

lemma map_of_retain:
  "map_of (retain_message m rs) t =
    (if m_retained m \<and> m_topic m = t then if m_payload m = [] then None else Some m else map_of rs t)"
  by (simp add: retain_message_def)

text \<open>What a topic holds: the last retained message about it, unless that one was empty.\<close>

fun last_retained :: "string \<Rightarrow> message list \<Rightarrow> message option \<Rightarrow> message option" where
  "last_retained t [] old = old"
| "last_retained t (m # ms) old =
     last_retained t ms (if m_retained m \<and> m_topic m = t then if m_payload m = [] then None else Some m else old)"

lemma fold_deliver_retained:
  "map_of (bk_retained (fold broker_deliver ms b)) t = last_retained t ms (map_of (bk_retained b) t)"
  by (induction ms arbitrary: b) (simp_all add: map_of_retain)

lemma topic_matches_same: "broker_topic_matches f t = topic_matches f t"
  by (simp add: broker_topic_matches_def topic_matches_def split_topic_eq)

lemma read_publish_packet:
  assumes "length t < 2 ^ 16" "length t + length p + 2 \<le> max_packet_size"
  shows "read_packet (encode_publish t p @ rest) = Inr (\<lparr>ptype = type_publish, pflags = 0, pbody = wire_string t @ p\<rparr>, rest)"
    "read_packet (encode_publish_retained t p @ rest) = Inr (\<lparr>ptype = type_publish, pflags = 1, pbody = wire_string t @ p\<rparr>, rest)"
  using assms
  by (simp_all add: encode_publish_def encode_publish_retained_def append_string_eq read_encode type_publish_def)

lemma read_subscribe_packet:
  assumes "length f < 2 ^ 16"
  shows "read_packet (encode_subscribe i 0 [f] @ rest) =
    Inr (\<lparr>ptype = type_subscribe, pflags = 2, pbody = put16 i @ wire_string f @ [0]\<rparr>, rest)"
  using assms by (simp add: encode_subscribe_def append_string_eq read_encode type_subscribe_def max_packet_size_def)

lemma decode_subscribe_one: "length f < 2 ^ 16 \<Longrightarrow> decode_subscribe (put16 i @ wire_string f @ [0]) = Inr (i, [f])"
  using decode_subscribe_body [of "[f]" 0 i] by (simp add: append_string_eq)

lemma turn_publish_retained:
  assumes "length t < 2 ^ 16" "length t + length p + 2 \<le> max_packet_size"
  shows "broker_turn d (encode_publish_retained t p @ rest) b =
    (Some rest, broker_deliver \<lparr>m_topic = t, m_payload = p, m_retained = True\<rparr> b)"
  using assms
  by (simp add: broker_turn_def read_publish_packet broker_handle_def decode_publish_qos0 packet_qos_def packet_retained_def
      type_publish_def type_pingreq_def type_subscribe_def)

lemma send_up: "bk_sessions b d = Some s \<Longrightarrow> bs_up s \<Longrightarrow>
    send_message d m b = (True, b\<lparr>bk_out := bk_out b @ [(d, encode_publish (m_topic m) (m_payload m))]\<rparr>)"
  by (simp add: send_message_def broker_write_def)

lemma replay_up:
  "bk_sessions b d = Some s \<Longrightarrow> bs_up s \<Longrightarrow>
    replay d ms b = (True, b\<lparr>bk_out := bk_out b @ map (\<lambda>m. (d, encode_publish (m_topic m) (m_payload m))) ms\<rparr>)"
  by (induction ms arbitrary: b) (simp_all add: send_up)

lemma turn_subscribe:
  assumes "length f < 2 ^ 16" "bk_sessions b d = Some s" "bs_up s"
  shows "\<exists>b'. broker_turn d (encode_subscribe i 0 [f] @ rest) b = (Some rest, b') \<and>
    bk_out b' = bk_out b @ [(d, encode_suback i 1)] @ map (\<lambda>m. (d, encode_publish (m_topic m) (m_payload m))) (retained_matching f b)"
  using assms
  by (simp add: broker_turn_def read_subscribe_packet broker_handle_def decode_subscribe_one upd_broker_session_def
      broker_write_def replay_up [of _ d "s\<lparr>bs_topics := bs_topics s @ [f]\<rparr>"] retained_matching_def
      type_publish_def type_pingreq_def type_subscribe_def)

lemma retained_matchingI:
  "map_of (bk_retained b) t = Some m \<Longrightarrow> topic_matches f t \<Longrightarrow> m \<in> set (retained_matching f b)"
  by (force simp: retained_matching_def topic_matches_same dest: map_of_SomeD)

lemma unat_be16: "unat (be16 hi lo) = unat hi * 256 + unat lo"
proof -
  have "unat hi < 256" "unat lo < 256" by (rule unat_byte_lt)+
  then have "unat hi * 256 + unat lo < 65536" by linarith
  then show ?thesis unfolding be16_def unat_of_nat by simp
qed

lemma will_string_read:
  "will_string p i = (case read_string p i of Inl e \<Rightarrow> None | Inr (s, j) \<Rightarrow> Some (bytes_of s, j))"
  by (simp add: will_string_def read_string_def unat_be16 Let_def)

lemma connect_flag_will:
  "connect_flags co AND 32 \<noteq> 0 \<longleftrightarrow> o_will_topic co \<noteq> [] \<and> o_will_retain co"
proof -
  have "bit (connect_flags co) 5 \<longleftrightarrow> o_will_topic co \<noteq> [] \<and> o_will_retain co"
    by (simp add: connect_flags_def Let_def bit_or_iff bit_push_bit_iff bit_and_iff bit_numeral_rec)
  then show ?thesis using and_exp_eq_0_iff_not_bit [of "connect_flags co" 5] by simp
qed

lemma capture_will_connect:
  assumes "connect_fits co"
  shows "capture_will (connect_body co) =
    (if o_will_topic co = [] then None
     else Some \<lparr>m_topic = o_will_topic co, m_payload = o_will_payload co, m_retained = o_will_retain co\<rparr>)"
proof -
  define h where "h = wire_string ''MQTT'' @ [4, connect_flags co] @ put16 (o_keep_alive co)"
  define tl where "tl = wire_opt (o_username co \<noteq> []) (o_username co) @ wire_opt (o_password co \<noteq> []) (o_password co)"
  have h: "length h = 10" by (simp add: h_def)
  have f: "connect_body co ! 7 = connect_flags co"
    by (simp add: connect_body_eq wire_string_def put16_def)
  have l: "\<not> length (connect_body co) < 10" by (simp add: connect_body_eq)
  show ?thesis
  proof (cases "o_will_topic co = []")
    case True
    then show ?thesis using connect_flag_bits(1) [of co] by (simp add: capture_will_def f l)
  next
    case False
    have b: "connect_body co = h @ wire_string (o_client_id co) @ wire_string (o_will_topic co) @
        wire_string (str_of (o_will_payload co)) @ tl"
      using False by (simp add: connect_body_eq h_def tl_def wire_opt_def)
    have fits: "length (o_client_id co) < 2 ^ 16" "length (o_will_topic co) < 2 ^ 16" "length (str_of (o_will_payload co)) < 2 ^ 16"
      using assms by (simp_all add: connect_fits_def)
    have 1: "read_string (connect_body co) 10 = Inr (o_client_id co, 12 + length (o_client_id co))"
      using read_string_at [OF b _ fits(1), of 10] h by simp
    have 2: "read_string (connect_body co) (12 + length (o_client_id co)) =
        Inr (o_will_topic co, 14 + length (o_client_id co) + length (o_will_topic co))"
      using read_string_at [of "connect_body co" "h @ wire_string (o_client_id co)" _ _ "12 + length (o_client_id co)", OF _ _ fits(2)] b h by simp
    have 3: "read_string (connect_body co) (14 + length (o_client_id co) + length (o_will_topic co)) =
        Inr (str_of (o_will_payload co), 16 + length (o_client_id co) + length (o_will_topic co) + length (o_will_payload co))"
      using read_string_at [of "connect_body co" "h @ wire_string (o_client_id co) @ wire_string (o_will_topic co)" _ _
          "14 + length (o_client_id co) + length (o_will_topic co)", OF _ _ fits(3)] b h by simp
    show ?thesis
      using False connect_flag_bits(1) [of co] connect_flag_will [of co]
      by (simp add: capture_will_def f l will_string_read 1 2 3)
  qed
qed

section \<open>Properties\<close>

text \<open>
  The last will a client registers is the one the broker keeps: topic, payload and retain flag are
  recovered from the bytes of the CONNECT, and a CONNECT without a will registers none.
\<close>

theorem will_roundtrip:
  assumes "connect_fits co"
  shows "\<exists>pkt. read_packet (encode_connect co @ rest) = Inr (pkt, rest) \<and> capture_will (pbody pkt) =
    (if o_will_topic co = [] then None
     else Some \<lparr>m_topic = o_will_topic co, m_payload = o_will_payload co, m_retained = o_will_retain co\<rparr>)"
  using capture_will_connect [OF assms] length_connect_body [OF assms]
  by (simp add: encode_connect_def read_encode type_connect_def)

theorem will_roundtrip_witness:
  "\<exists>pkt. read_packet (encode_connect \<lparr>o_client_id = ''c'', o_keep_alive = 30, o_username = [], o_password = ''p'',
      o_will_topic = ''s'', o_will_payload = [1, 2], o_will_retain = True, o_will_qos = 0, o_clean_session = True\<rparr> @ []) = Inr (pkt, []) \<and>
    capture_will (pbody pkt) = Some \<lparr>m_topic = ''s'', m_payload = [1, 2], m_retained = True\<rparr>"
  using will_roundtrip [of "\<lparr>o_client_id = ''c'', o_keep_alive = 30, o_username = [], o_password = ''p'',
      o_will_topic = ''s'', o_will_payload = [1, 2], o_will_retain = True, o_will_qos = 0, o_clean_session = True\<rparr>" "[]"]
  by (simp add: connect_fits_def)


definition demo_client :: "bool mqtt_client" where
  "demo_client = new_client\<lparr>mc_conn := Some 1, mc_handlers := [(''a/+'', True)]\<rparr>"

definition demo_broker :: broker where
  "demo_broker = new_broker\<lparr>bk_sessions := [1 \<mapsto> \<lparr>bs_topics = [], bs_will = None, bs_up = True\<rparr>]\<rparr>"


text \<open>After any messages in any order, a topic holds the last retained one about it, and nothing when that was empty.\<close>

theorem broker_holds_last:
  "map_of (bk_retained (fold broker_deliver ms b)) t = last_retained t ms (map_of (bk_retained b) t) \<and>
    bk_messages (fold broker_deliver ms b) = bk_messages b @ ms"
  by (simp add: fold_deliver_retained) (induction ms arbitrary: b; simp)

end
