(* ===== verification/Daemon.thy ===== *)
theory Daemon
  imports Config Persist Sessions Broker Bridge
begin

text \<open>
  How an instance is put together, \<open>cmd/haigosmartd/main.go\<close>: the version answer, the configured lamps
  declared before the listener opens, admission, the Home Assistant settings and the last will, and
  what \<open>run\<close> refuses before it serves. With it the two pieces of \<open>internal/logging\<close> that decide
  something: the elapsed time of a record, and the writer that ends the process.
\<close>

section \<open>Logging\<close>

text \<open>\<open>Truncate\<close> rounds toward zero.\<close>

definition truncate_span :: "duration \<Rightarrow> duration \<Rightarrow> duration" where
  "truncate_span d m = (if m \<le> 0 then d else d - go_mod d m)"

definition since_text :: "time \<Rightarrow> time \<Rightarrow> string" where
  "since_text start now = duration_text (truncate_span (now - start) 1000000)"

record fatal_writer =
  fw_fired :: bool
  fw_stderr :: "string list"
  fw_exits :: "int list"

text \<open>\<open>FatalWriter.Write\<close>, given what the writer below returned.\<close>

definition fatal_write :: "int \<times> string option \<Rightarrow> fatal_writer \<Rightarrow> (int \<times> string option) \<times> fatal_writer" where
  "fatal_write res f =
     (case snd res of
        None \<Rightarrow> (res, f)
      | Some e \<Rightarrow>
          (res,
           if fw_fired f then f
           else f\<lparr>fw_fired := True,
                  fw_stderr := fw_stderr f @ [''haigosmart: cannot write the record stream: '' @ e],
                  fw_exits := fw_exits f @ [1]\<rparr>))"

text \<open>
  \<open>newLogger\<close>: where the records go and whether debug records are among them. Only an instance without a
  terminal may write to standard output, and there a failed write ends the process.
\<close>

datatype log_target = FatalStdout | LogFile string

definition new_logger :: "string \<Rightarrow> string \<Rightarrow> bool \<Rightarrow> bool \<Rightarrow> string option \<Rightarrow> string + (log_target \<times> bool)" where
  "new_logger temp_dir path headless verbose open_error =
     (if path = [] \<and> headless then Inr (FatalStdout, verbose)
      else
        (let file = (if path = [] then temp_dir @ ''/haigosmart.log'' else path)
         in case open_error of
              Some e \<Rightarrow> Inl (''opening log file '' @ file @ '': '' @ e @ ''. pass -log to choose another path'')
            | None \<Rightarrow> Inr (LogFile file, verbose)))"

definition signal_name :: "string list \<Rightarrow> string" where
  "signal_name sigs = (case sigs of [] \<Rightarrow> ''unknown'' | s # _ \<Rightarrow> s)"

section \<open>Putting an instance together\<close>

definition wants_version :: "string list \<Rightarrow> bool" where
  "wants_version args \<longleftrightarrow> list_ex (\<lambda>a. a = ''-version'' \<or> a = ''--version'') args"

text \<open>\<open>declareLamps\<close>: each configured lamp with whether it was created and renamed, then the lamps left over.\<close>

fun declare_all :: "lamp list \<Rightarrow> registry \<Rightarrow> (lamp \<times> registry_error) + ((lamp \<times> bool \<times> bool) list \<times> registry)" where
  "declare_all [] r = Inr ([], r)"
| "declare_all (l # ls) r =
     (case declare_bulb (lamp_id l) (lamp_name l) r of
        Inl e \<Rightarrow> Inl (l, e)
      | Inr ((created, renamed), r1) \<Rightarrow>
          and_then (declare_all ls r1) (\<lambda>(ds, r2). Inr ((l, created, renamed) # ds, r2)))"

definition declare_lamps ::
  "config \<Rightarrow> registry \<Rightarrow> (lamp \<times> registry_error) + ((lamp \<times> bool \<times> bool) list \<times> bulb list \<times> registry)" where
  "declare_lamps cfg r =
     and_then (declare_all (cf_lamps cfg) r) (\<lambda>(ds, r1).
       Inr (ds,
            if cf_lamps cfg = [] then []
            else filter (\<lambda>b. device_id b \<notin> set (map lamp_id (cf_lamps cfg))) (list_bulbs r1),
            r1))"

definition admit_of :: "config \<Rightarrow> (string \<Rightarrow> bool) option" where
  "admit_of cfg = (if cf_headless cfg then Some (\<lambda>i. i \<in> set (map lamp_id (cf_lamps cfg))) else None)"

definition hass_of :: "config \<Rightarrow> hass_config" where
  "hass_of cfg =
     \<lparr>discovery_prefix = cf_discovery_prefix cfg, own_prefix = cf_mqtt_prefix cfg,
      min_kelvin = cf_min_kelvin cfg, max_kelvin = cf_max_kelvin cfg\<rparr>"

definition mqtt_of :: "config \<Rightarrow> mqtt_options option" where
  "mqtt_of cfg =
     (if cf_mqtt_broker cfg = [] then None
      else Some
        \<lparr>mo_client_id = cf_mqtt_client_id cfg, mo_username = cf_mqtt_username cfg, mo_password = cf_mqtt_password cfg,
         mo_keep_alive = 0, mo_will_topic = status_topic (hass_of cfg), mo_will_payload = bytes_of offline,
         mo_will_retain = True\<rparr>)"

text \<open>\<open>server.New\<close>.\<close>

definition new_server :: "registry \<Rightarrow> world" where
  "new_server r =
     \<lparr>w_reg = r, w_sessions = Map.empty, w_commands = Map.empty, w_next = 0, w_takeovers = Map.empty,
      w_rejects = Map.empty, w_events = [], w_sent = []\<rparr>"

datatype startup_error =
    ConfigRefused config_error
  | ConfigInvalid invalid
  | RegistryUnreadable load_error
  | LampRefused lamp registry_error

text \<open>\<open>run\<close> up to the listener: the settings and the server it starts with, or why it does not start.\<close>

definition start_up ::
  "string option \<Rightarrow> string list \<Rightarrow> (string \<Rightarrow> string) \<Rightarrow> reg_file option \<Rightarrow> startup_error + (config \<times> world)" where
  "start_up home args env file =
     and_then (map_err ConfigRefused (load_config home args env)) (\<lambda>cfg.
     and_then (case validate cfg of None \<Rightarrow> Inr () | Some e \<Rightarrow> Inl (ConfigInvalid e)) (\<lambda>_.
     and_then (map_err RegistryUnreadable (load_file file)) (\<lambda>r.
     and_then (map_err (\<lambda>(l, e). LampRefused l e) (declare_lamps cfg r)) (\<lambda>(_, _, r1).
       Inr (cfg, new_server r1)))))"

section \<open>Facts\<close>

text \<open>Records never reach the stream the terminal interface draws on.\<close>

lemma display_is_left_alone: "new_logger tmp path False verbose err = Inr (target, dbg) \<Longrightarrow> target \<noteq> FatalStdout"
  by (auto simp: new_logger_def Let_def split: if_splits option.splits)

text \<open>What declaring a lamp makes of its entry: everything learned stays.\<close>

definition declared :: "string \<Rightarrow> bulb option \<Rightarrow> bulb" where
  "declared name old =
     (case old of
        None \<Rightarrow> zero_bulb\<lparr>bulb_name := name, status := Disconnected\<rparr>
      | Some b \<Rightarrow> b\<lparr>bulb_name := name, status := (if status b = Discovered then Connected else status b)\<rparr>)"

lemma declare_bulb_Inr:
  assumes "declare_bulb i name r = Inr (cr, r')"
  shows "lookup_bulb r' i = Some ((declared name (lookup_bulb r i))\<lparr>device_id := (case lookup_bulb r i of None \<Rightarrow> i | Some b \<Rightarrow> device_id b)\<rparr>)"
    "j \<noteq> i \<Longrightarrow> lookup_bulb r' j = lookup_bulb r j"
    "fst cr \<longleftrightarrow> lookup_bulb r i = None" "snd cr \<longleftrightarrow> (\<exists>b. lookup_bulb r i = Some b \<and> bulb_name b \<noteq> name)"
  using assms
  by (auto simp: declare_bulb_def declared_def Let_def reg_simps zero_bulb_def split: if_splits option.splits)

lemma declare_all_Inr:
  "declare_all ls r = Inr (ds, r') \<Longrightarrow> reg_ok r \<Longrightarrow> distinct (map lamp_id ls) \<Longrightarrow>
    reg_ok r' \<and>
    (\<forall>l\<in>set ls. lookup_bulb r' (lamp_id l) = Some ((declared (lamp_name l) (lookup_bulb r (lamp_id l)))\<lparr>device_id := lamp_id l\<rparr>)) \<and>
    (\<forall>i. i \<notin> set (map lamp_id ls) \<longrightarrow> lookup_bulb r' i = lookup_bulb r i)"
proof (induction ls arbitrary: r ds)
  case (Cons l ls)
  obtain cr r1 ds' where d: "declare_bulb (lamp_id l) (lamp_name l) r = Inr (cr, r1)" and rest: "declare_all ls r1 = Inr (ds', r')"
    using Cons.prems(1) by (auto simp: and_then_Inr_iff split: sum.splits)
  have ok: "reg_ok r1" using reg_ok_op [OF Cons.prems(2), of "OpDeclare (lamp_id l) (lamp_name l)"] d by simp
  have id: "(case lookup_bulb r (lamp_id l) of None \<Rightarrow> lamp_id l | Some b \<Rightarrow> device_id b) = lamp_id l"
    using reg_ok_lookup [OF Cons.prems(2), of "lamp_id l"] by (auto simp: bulb_ok_def split: option.split)
  have own: "lookup_bulb r1 (lamp_id l) = Some ((declared (lamp_name l) (lookup_bulb r (lamp_id l)))\<lparr>device_id := lamp_id l\<rparr>)"
    using declare_bulb_Inr(1) [OF d] id by simp
  have ls: "distinct (map lamp_id ls)" "lamp_id l \<notin> lamp_id ` set ls" using Cons.prems(3) by simp_all
  then have same: "\<forall>m\<in>set ls. lookup_bulb r1 (lamp_id m) = lookup_bulb r (lamp_id m)"
    using declare_bulb_Inr(2) [OF d] by (metis imageI)
  show ?case using Cons.IH [OF rest ok ls(1)] own declare_bulb_Inr(2) [OF d] ls(2) same by auto
qed simp

lemma start_up_Inr:
  assumes "start_up home args env file = Inr (cfg, w)"
  obtains r ds rest r1 where "load_config home args env = Inr cfg" "validate cfg = None" "load_file file = Inr r"
    "declare_lamps cfg r = Inr (ds, rest, r1)" "w = new_server r1"
  using assms unfolding start_up_def
  by (auto simp: and_then_Inr_iff map_err_Inr_iff split: option.splits prod.splits)

lemma load_config_lamps:
  assumes "load_config home args env = Inr cfg"
  shows "lamps_ok (cf_lamps cfg)"
proof -
  obtain s over ls where "parse_lamps (string_of s ''lamps'') = Inr ls" "cfg = config_of s ls over"
    using assms by (auto simp: load_config_def and_then_Inr_iff map_err_Inr_iff split: prod.splits)
  then show ?thesis using parse_lamps_ok by (simp add: config_of_def)
qed

lemma declare_lamps_Inr:
  assumes "declare_lamps cfg r = Inr (ds, rest, r1)" "reg_ok r" "lamps_ok (cf_lamps cfg)"
  shows "reg_ok r1"
    "l \<in> set (cf_lamps cfg) \<Longrightarrow>
      lookup_bulb r1 (lamp_id l) = Some ((declared (lamp_name l) (lookup_bulb r (lamp_id l)))\<lparr>device_id := lamp_id l\<rparr>)"
    "i \<notin> set (map lamp_id (cf_lamps cfg)) \<Longrightarrow> lookup_bulb r1 i = lookup_bulb r i"
proof -
  from assms(1) have "declare_all (cf_lamps cfg) r = Inr (ds, r1)" by (auto simp: declare_lamps_def and_then_Inr_iff)
  from declare_all_Inr [OF this assms(2)] assms(3)
  show "reg_ok r1"
    "l \<in> set (cf_lamps cfg) \<Longrightarrow>
      lookup_bulb r1 (lamp_id l) = Some ((declared (lamp_name l) (lookup_bulb r (lamp_id l)))\<lparr>device_id := lamp_id l\<rparr>)"
    "i \<notin> set (map lamp_id (cf_lamps cfg)) \<Longrightarrow> lookup_bulb r1 i = lookup_bulb r i"
    by (simp_all add: lamps_ok_def)
qed

text \<open>A registry that was just loaded has no live connection.\<close>

lemma load_file_offline:
  assumes "load_file f = Inr r" "lookup_bulb r i = Some b"
  shows "driver b = None \<and> status b = Disconnected"
proof (cases f)
  case None
  then show ?thesis using assms by (auto simp: load_file_def lookup_bulb_def new_registry_def)
next
  case (Some g)
  then have l: "load_loop [] [] (file_bulbs g) new_registry = Inr r"
    using assms(1) by (auto simp: load_file_def split: if_splits)
  have "map_of (map (\<lambda>sb. (s_device_id sb, restore_bulb sb)) (file_bulbs g)) i = Some b"
    using load_loop_lookup [OF l, of i] assms(2) by (simp add: lookup_bulb_def new_registry_def split: option.splits)
  from map_of_SomeD [OF this] obtain sb where "b = restore_bulb sb" by auto
  then show ?thesis by (simp add: restore_bulb_def zero_bulb_def)
qed

lemma start_up_server:
  assumes "start_up home args env file = Inr (cfg, w)"
  shows "srv_start (\<lambda>i. lookup_bulb (w_reg w) i \<noteq> None) w"
    "lookup_bulb (w_reg w) i = Some b \<Longrightarrow> driver b = None \<and> status b = Disconnected"
proof -
  from assms obtain r ds rest r1 where s: "load_config home args env = Inr cfg" "load_file file = Inr r"
    "declare_lamps cfg r = Inr (ds, rest, r1)" "w = new_server r1" by (rule start_up_Inr)
  note d = declare_lamps_Inr [OF s(3) durable_load(2) [OF s(2)] load_config_lamps [OF s(1)]]
  show off: "driver b = None \<and> status b = Disconnected" if "lookup_bulb (w_reg w) i = Some b" for i b
  proof (cases "i \<in> set (map lamp_id (cf_lamps cfg))")
    case True
    then obtain l where l: "l \<in> set (cf_lamps cfg)" "i = lamp_id l" by auto
    show ?thesis
      using that d(2) [OF l(1)] load_file_offline [OF s(2), of i]
      by (auto simp: s(4) new_server_def l(2) declared_def zero_bulb_def split: option.splits)
  next
    case False
    then show ?thesis using that d(3) [OF False] load_file_offline [OF s(2), of i b] by (simp add: s(4) new_server_def)
  qed
  show "srv_start (\<lambda>i. lookup_bulb (w_reg w) i \<noteq> None) w"
    using d(1) off by (force simp: srv_start_def s(4) new_server_def links_def)
qed

section \<open>Properties\<close>

text \<open>
  C32: the configured set is what runs. When an instance starts, every configured lamp is in the registry,
  adopted, under its configured name and waiting to connect, with everything learned about it kept;
  every other entry is as the registry file had it.
\<close>

theorem configured_lamps_declared:
  assumes "start_up home args env file = Inr (cfg, w)" "load_file file = Inr r"
  shows "(\<forall>l\<in>set (cf_lamps cfg). \<exists>b. lookup_bulb (w_reg w) (lamp_id l) = Some b \<and> device_id b = lamp_id l \<and>
      bulb_name b = lamp_name l \<and> adopted b \<and> status b = Disconnected \<and>
      (\<forall>old. lookup_bulb r (lamp_id l) = Some old \<longrightarrow>
        light b = light old \<and> bulb_caps b = bulb_caps old \<and> firmware b = firmware old \<and> first_seen b = first_seen old)) \<and>
    (\<forall>i. i \<notin> set (map lamp_id (cf_lamps cfg)) \<longrightarrow> lookup_bulb (w_reg w) i = lookup_bulb r i)"
proof -
  from assms(1) obtain r' ds rest r1 where s: "load_config home args env = Inr cfg" "load_file file = Inr r'"
    "declare_lamps cfg r' = Inr (ds, rest, r1)" "w = new_server r1" by (rule start_up_Inr)
  have r: "r' = r" using s(2) assms(2) by simp
  note d = declare_lamps_Inr [OF s(3) durable_load(2) [OF s(2)] load_config_lamps [OF s(1)]]
  show ?thesis
  proof (intro conjI ballI allI impI)
    fix l assume l: "l \<in> set (cf_lamps cfg)"
    let ?b = "(declared (lamp_name l) (lookup_bulb r (lamp_id l)))\<lparr>device_id := lamp_id l\<rparr>"
    have b: "lookup_bulb (w_reg w) (lamp_id l) = Some ?b" using d(2) [OF l] by (simp add: s(4) new_server_def r)
    have "status ?b = Disconnected" using start_up_server(2) [OF assms(1) b] by simp
    then show "\<exists>b. lookup_bulb (w_reg w) (lamp_id l) = Some b \<and> device_id b = lamp_id l \<and> bulb_name b = lamp_name l \<and> adopted b \<and>
        status b = Disconnected \<and> (\<forall>old. lookup_bulb r (lamp_id l) = Some old \<longrightarrow> light b = light old \<and> bulb_caps b = bulb_caps old \<and>
          firmware b = firmware old \<and> first_seen b = first_seen old)"
      by (intro exI [of _ ?b]) (simp add: b adopted_def declared_def split: option.split)
  next
    show "i \<notin> set (map lamp_id (cf_lamps cfg)) \<Longrightarrow> lookup_bulb (w_reg w) i = lookup_bulb r i" for i
      using d(3) by (simp add: s(4) new_server_def r)
  qed
qed

text \<open>
  C6: an unattended instance serves the configured lamps and no others. Whatever devices connect to it,
  and in whatever order things happen, a lamp that can be controlled is one the configuration names,
  and no device the configuration does not name enters the registry.
\<close>

theorem headless_serves_configured:
  assumes "start_up home args env file = Inr (cfg, w0)" "cf_headless cfg"
    "reachable (\<lambda>w. w = w0) (srv_step (admit_of cfg)) w"
  shows "(driver_of i (w_reg w) = Some d \<longrightarrow> (\<exists>l\<in>set (cf_lamps cfg). lamp_id l = i)) \<and>
    (lookup_bulb (w_reg w) i \<noteq> None \<longrightarrow> lookup_bulb (w_reg w0) i \<noteq> None)"
proof -
  let ?known = "\<lambda>i. lookup_bulb (w_reg w0) i \<noteq> None"
  have "reachable (srv_start ?known) (srv_step (admit_of cfg)) w"
    using assms(3)
  proof (induction rule: reachable.induct)
    case (reach_start s)
    then show ?case using start_up_server(1) [OF assms(1)] by (simp only: reachable.reach_start)
  qed (rule reachable.reach_step)
  then have inv: "srv_inv (admit_of cfg) ?known w" by (rule server.reachable_inv)
  have adm: "admits (admit_of cfg) i \<Longrightarrow> \<exists>l\<in>set (cf_lamps cfg). lamp_id l = i" for i
    using assms(2) by (auto simp: admit_of_def admits_def)
  have conf: "?known (lamp_id l)" if l: "l \<in> set (cf_lamps cfg)" for l
  proof -
    from assms(1) obtain r ds rest r1 where s: "load_config home args env = Inr cfg" "load_file file = Inr r"
      "declare_lamps cfg r = Inr (ds, rest, r1)" "w0 = new_server r1" by (rule start_up_Inr)
    show ?thesis
      using declare_lamps_Inr(2) [OF s(3) durable_load(2) [OF s(2)] load_config_lamps [OF s(1)] l] by (simp add: s(4) new_server_def)
  qed
  have "driver_of i (w_reg w) = Some d \<Longrightarrow> admits (admit_of cfg) i"
    using srv_inv_link [OF inv] srv_inv_session [OF inv] unfolding driver_of_links by (fastforce simp: enrolled_def)
  moreover have "lookup_bulb (w_reg w) i \<noteq> None \<Longrightarrow> ?known i \<or> admits (admit_of cfg) i"
    using srv_inv_ids [OF inv, of i] by (simp add: links_def)
  ultimately show ?thesis using adm conf by blast
qed

definition demo_args :: "string list" where
  "demo_args = [''-headless'', ''-lamps'', ''lamp=desk'', ''-mqtt-broker'', ''b:1'']"

definition demo_config :: config where
  "demo_config =
     \<lparr>cf_listen = '':1883'', cf_headless = True, cf_verbose = False, cf_log_path = [], cf_registry_path = ''registry.json'',
      cf_command_timeout = 5 * second, cf_lamps = [\<lparr>lamp_id = ''lamp'', lamp_name = ''desk''\<rparr>], cf_mqtt_broker = ''b:1'',
      cf_mqtt_username = [], cf_mqtt_password = [], cf_mqtt_client_id = ''haigosmart'', cf_mqtt_prefix = ''haigosmart'',
      cf_discovery_prefix = ''homeassistant'', cf_min_kelvin = 2700, cf_max_kelvin = 6500, cf_overrides = []\<rparr>"

definition demo_declared :: registry where
  "demo_declared =
     mark_dirty (put_bulb ''lamp'' (zero_bulb\<lparr>device_id := ''lamp'', bulb_name := ''desk'', status := Disconnected\<rparr>) new_registry)"

lemma demo_load: "load_config None demo_args (\<lambda>_. []) = Inr demo_config"
  by code_simp

lemma demo_start: "start_up None demo_args (\<lambda>_. []) None = Inr (demo_config, new_server demo_declared)"
proof -
  have "validate demo_config = None" by code_simp
  moreover have "declare_bulb ''lamp'' ''desk'' new_registry = Inr ((True, False), demo_declared)" by code_simp
  moreover have "cf_lamps demo_config = [\<lparr>lamp_id = ''lamp'', lamp_name = ''desk''\<rparr>]" by (simp add: demo_config_def)
  ultimately show ?thesis by (simp add: start_up_def demo_load load_file_def declare_lamps_def)
qed

lemma demo_start_values:
  "w_sessions (new_server demo_declared) 0 = None"
  "fst (handshake (Some (\<lambda>i. i = ''lamp'')) 0 demo_hello (demo_run (new_server demo_declared) False 1)) = None"
  "fst (register_entry 0 1 (demo_run (new_server demo_declared) False 2)) = False"
  "map_option ses_phase (w_sessions (demo_run (new_server demo_declared) False 1) 0) = Some Handshaking"
  "map_option ses_phase (w_sessions (demo_run (new_server demo_declared) False 2) 0) = Some Admitted"
  "map_option ses_phase (w_sessions (demo_run (new_server demo_declared) False 3) 0) = Some (Upserted False)"
  "driver_of ''lamp'' (w_reg (demo_run (new_server demo_declared) False 4)) = Some 0"
  by code_simp+

theorem configured_lamps_declared_witness:
  "\<exists>b. lookup_bulb (w_reg (new_server demo_declared)) ''lamp'' = Some b \<and> bulb_name b = ''desk'' \<and> adopted b \<and> status b = Disconnected"
proof -
  have "load_file None = Inr new_registry" by (simp add: load_file_def)
  from configured_lamps_declared [OF demo_start this] show ?thesis by (auto simp: demo_config_def)
qed

theorem headless_serves_configured_witness:
  "let w = demo_run (new_server demo_declared) False 4
   in driver_of ''lamp'' (w_reg w) = Some 0 \<and> (\<exists>l\<in>set (cf_lamps (demo_config)). lamp_id l = ''lamp'')"
proof -
  have a: "admit_of (demo_config) = Some (\<lambda>i. i = ''lamp'')"
    by (simp add: admit_of_def demo_config_def)
  have "reachable (\<lambda>w. w = new_server demo_declared) (srv_step (Some (\<lambda>i. i = ''lamp''))) (demo_run (new_server demo_declared) False 4)"
    by (rule demo_run_reachable [OF refl demo_start_values(1-6)])
  from headless_serves_configured [OF demo_start _ this [folded a], of "''lamp''" 0]
  show ?thesis using demo_start_values(7) by (simp add: Let_def demo_config_def del: demo_run.simps)
qed



section \<open>Where the configuration falls short\<close>

text \<open>
  The configured set is applied lamp by lamp against the names the registry file still has, so
  exchanging the names of two lamps in the configuration keeps the instance from starting.
\<close>

lemma swapped_names_refused:
  assumes "lookup_bulb r ''a1'' = Some b" "lookup_bulb r ''b2'' = Some c" "bulb_name c = ''desk''" "reg_ok r"
  shows "\<exists>e. declare_all [\<lparr>lamp_id = ''a1'', lamp_name = ''desk''\<rparr>, \<lparr>lamp_id = ''b2'', lamp_name = ''hall''\<rparr>] r
    = Inl (\<lparr>lamp_id = ''a1'', lamp_name = ''desk''\<rparr>, e)"
proof -
  have "name_owner r ''a1'' ''desk'' \<noteq> None"
  proof
    assume "name_owner r ''a1'' ''desk'' = None"
    then have free: "\<forall>j c. j \<noteq> ''a1'' \<longrightarrow> lookup_bulb r j = Some c \<longrightarrow> bulb_name c \<noteq> ''desk''"
      by (simp only: name_owner_None [OF assms(4)])
    have "''b2'' \<noteq> ''a1''" by simp
    from free [rule_format, OF this assms(2)] show False using assms(3) by simp
  qed
  moreover have "trim_space ''a1'' \<noteq> []" "trim_space ''desk'' \<noteq> []" by code_simp+
  ultimately show ?thesis by (auto simp: declare_bulb_def)
qed

text \<open>
  \<open>Validate\<close> compares the two ends of the warmth range before the defaults replace one that is not
  positive, so a range it accepts can be inverted where it is used; every warmth is then the warmest.
\<close>

lemma inverted_range_accepted:
  fixes cfg :: config
  assumes "cf_min_kelvin cfg = 0" "cf_max_kelvin cfg = 2000" "0 < cf_command_timeout cfg"
    "split_host_port (cf_listen cfg) \<noteq> None" "\<not> cf_headless cfg"
  shows "validate cfg = None \<and> max_kelvin (with_defaults (hass_of cfg)) < min_kelvin (with_defaults (hass_of cfg)) \<and>
    percent_from_kelvin (hass_of cfg) k = 0"
  using assms
  by (simp add: validate_def hass_of_def with_defaults_def default_config_def percent_from_kelvin_def)

text \<open>
  On shutdown the client says goodbye and the bridge publishes \<open>offline\<close>, both on the same cancellation
  and neither waiting for the other. When the goodbye comes first the will is discarded, what is kept
  stays \<open>online\<close>, and the bridge can no longer correct it.
\<close>

lemma goodbye_keeps_online:
  assumes "bk_sessions b d = Some s"
  shows "\<exists>b1. broker_turn d encode_disconnect b = (None, b1) \<and> bk_retained b1 = bk_retained b \<and>
    map_option bs_will (bk_sessions b1 d) = Some None"
    "\<not> b_up br \<Longrightarrow> b_retained (publish_offline c br) = b_retained br"
proof -
  have "read_packet (encode_disconnect @ []) = Inr (\<lparr>ptype = type_disconnect, pflags = 0, pbody = []\<rparr>, [])"
    by code_simp
  then have r: "read_packet encode_disconnect = Inr (\<lparr>ptype = type_disconnect, pflags = 0, pbody = []\<rparr>, [])" by simp
  show "\<exists>b1. broker_turn d encode_disconnect b = (None, b1) \<and> bk_retained b1 = bk_retained b \<and>
    map_option bs_will (bk_sessions b1 d) = Some None"
    by (simp add: broker_turn_def r broker_handle_def type_disconnect_def type_pingreq_def type_subscribe_def type_publish_def
        remove_session_def upd_broker_session_def assms)
  show "\<not> b_up br \<Longrightarrow> b_retained (publish_offline c br) = b_retained br"
    by (simp add: publish_offline_def bridge_publish_def)
qed

text \<open>
  A lamp that says goodbye, or whose packet cannot be read, is reported as a protocol error and not as
  disconnected, and the bridge does nothing with such an event: Home Assistant goes on showing the lamp
  as available although its connection is gone.
\<close>

lemma goodbye_unseen:
  fixes w :: world
  assumes "ptype pkt = type_disconnect \<or> fst (handle d pkt now w) \<noteq> None"
  shows "\<exists>e w1. serve_packet wording d pkt now w = (False, emit e w1) \<and> ev_kind e = ProtocolError \<and>
    (\<forall>c r b. bridge_handle c r e b = b)"
proof -
  obtain err w1 where h: "handle d pkt now w = (Some err, w1)"
    using assms
    by (cases "handle d pkt now w")
      (auto simp: handle_def Let_def type_disconnect_def type_pingreq_def type_subscribe_def)
  let ?e = "session_event d ProtocolError (wording err) now w1"
  have k: "ev_kind ?e = ProtocolError" by (simp add: session_event_def split: prod.split)
  then have "bridge_handle c r ?e b = b" for c r b by (simp add: bridge_handle_def split: sum.split)
  then show ?thesis using k by (intro exI [of _ ?e] exI [of _ w1]) (simp add: serve_packet_def h)
qed

end
