(* ===== verification/Logs.thy ===== *)
theory Logs
  imports Daemon Times Json
begin

text \<open>
  The record stream, \<open>internal/logging/logging.go\<close>: a handler that adds the elapsed time to every record
  and hands it to the library's JSON handler, whose time stamps are rewritten. A line is given as its
  members, each with the groups it lies in; the library's writing of them as text is left out.
\<close>

section \<open>Attributes\<close>

datatype log_value = LogTime time | LogOther json

type_synonym log_attr = "string \<times> log_value"

record log_record =
  lr_time :: time
  lr_level :: int
  lr_msg :: string
  lr_attrs :: "log_attr list"

text \<open>\<open>Format(TimeLayout)\<close>: fields of fixed width, and milliseconds cut off rather than rounded.\<close>

definition year_text :: "int \<Rightarrow> string" where
  "year_text y = (let ds = nat_str (nat \<bar>y\<bar>) in (if y < 0 then ''-'' else []) @ replicate (4 - length ds) CHR ''0'' @ ds)"

definition stamp_text :: "int \<Rightarrow> time \<Rightarrow> string" where
  "stamp_text off t =
     (let secs = t div second + off;
          (y, yd) = year_of (secs div 86400 + unix_days);
          (m, d) = month_of (month_lengths y) yd;
          sod = secs mod 86400
      in year_text y @ CHR ''-'' # pad_num 2 (Suc m) @ CHR ''-'' # pad_num 2 (nat d + 1) @
         CHR '' '' # pad_num 2 (nat (sod div 3600)) @ CHR '':'' # pad_num 2 (nat (sod div 60 mod 60)) @
         CHR '':'' # pad_num 2 (nat (sod mod 60)) @ CHR ''.'' # pad_num 3 (nat (t mod second div 1000000)))"

text \<open>\<open>zone\<close> is the offset the host shows an instant at.\<close>

definition compact_time :: "(time \<Rightarrow> int) \<Rightarrow> string list \<Rightarrow> log_attr \<Rightarrow> log_attr" where
  "compact_time zone groups a =
     (case a of
        (k, LogTime t) \<Rightarrow> if groups = [] \<and> k = ''time'' then (k, LogOther (JStr (stamp_text (zone t) t))) else a
      | _ \<Rightarrow> a)"

section \<open>Handlers\<close>

text \<open>What the library's handler keeps, and the members of the line it makes of a record.\<close>

record json_handler =
  jh_level :: int
  jh_replace :: "string list \<Rightarrow> log_attr \<Rightarrow> log_attr"
  jh_groups :: "string list"
  jh_attrs :: "(string list \<times> log_attr) list"

definition json_with_attrs :: "log_attr list \<Rightarrow> json_handler \<Rightarrow> json_handler" where
  "json_with_attrs attrs h = h\<lparr>jh_attrs := jh_attrs h @ map (Pair (jh_groups h)) attrs\<rparr>"

definition json_with_group :: "string \<Rightarrow> json_handler \<Rightarrow> json_handler" where
  "json_with_group g h = h\<lparr>jh_groups := jh_groups h @ [g]\<rparr>"

text \<open>\<open>Level.String\<close>: the name of the level at or below, with what is above it.\<close>

definition level_text :: "int \<Rightarrow> string" where
  "level_text l =
     (let str = (\<lambda>base n. if n = 0 then base else base @ (if 0 < n then ''+'' else []) @ itoa n)
      in if l < 0 then str ''DEBUG'' (l + 4)
         else if l < 4 then str ''INFO'' l
         else if l < 8 then str ''WARN'' (l - 4)
         else str ''ERROR'' (l - 8))"

definition json_line :: "json_handler \<Rightarrow> log_record \<Rightarrow> (string list \<times> log_attr) list" where
  "json_line h r =
     map (\<lambda>(gs, a). (gs, jh_replace h gs a))
       ((if lr_time r = zero_time then [] else [([], (''time'', LogTime (lr_time r)))]) @ ([], (''level'', LogOther (JStr (level_text (lr_level r))))) #
        ([], (''msg'', LogOther (JStr (lr_msg r)))) # jh_attrs h @ map (Pair (jh_groups h)) (lr_attrs r))"

record elapsed_handler =
  eh_inner :: json_handler
  eh_start :: time
  eh_now :: "(unit \<Rightarrow> time) option"

definition elapsed_line :: "elapsed_handler \<Rightarrow> log_record \<Rightarrow> (string list \<times> log_attr) list" where
  "elapsed_line h r =
     (let r1 = (case eh_now h of None \<Rightarrow> r | Some now \<Rightarrow> r\<lparr>lr_time := now ()\<rparr>)
      in json_line (eh_inner h)
           (r1\<lparr>lr_attrs := lr_attrs r1 @ [(''since'', LogOther (JStr (since_text (eh_start h) (lr_time r1))))]\<rparr>))"

definition elapsed_with_attrs :: "log_attr list \<Rightarrow> elapsed_handler \<Rightarrow> elapsed_handler" where
  "elapsed_with_attrs attrs h = \<lparr>eh_inner = json_with_attrs attrs (eh_inner h), eh_start = eh_start h, eh_now = eh_now h\<rparr>"

definition elapsed_with_group :: "string \<Rightarrow> elapsed_handler \<Rightarrow> elapsed_handler" where
  "elapsed_with_group g h = \<lparr>eh_inner = json_with_group g (eh_inner h), eh_start = eh_start h, eh_now = eh_now h\<rparr>"

definition new_at :: "(time \<Rightarrow> int) \<Rightarrow> int \<Rightarrow> time \<Rightarrow> (unit \<Rightarrow> time) option \<Rightarrow> elapsed_handler" where
  "new_at zone level start now =
     \<lparr>eh_inner = \<lparr>jh_level = level, jh_replace = compact_time zone, jh_groups = [], jh_attrs = []\<rparr>, eh_start = start, eh_now = now\<rparr>"

definition new_logging :: "(time \<Rightarrow> int) \<Rightarrow> int \<Rightarrow> time \<Rightarrow> elapsed_handler" where
  "new_logging zone level start = new_at zone level start None"

text \<open>A call of a logger: below its level nothing is written.\<close>

definition log_call :: "elapsed_handler \<Rightarrow> log_record \<Rightarrow> (string list \<times> log_attr) list option" where
  "log_call h r = (if jh_level (eh_inner h) \<le> lr_level r then Some (elapsed_line h r) else None)"

text \<open>Loggers are derived from loggers by attributes and groups.\<close>

datatype derivation = WithAttrs "log_attr list" | WithGroup string

fun derive :: "derivation \<Rightarrow> elapsed_handler \<Rightarrow> elapsed_handler" where
  "derive (WithAttrs attrs) h = elapsed_with_attrs attrs h"
| "derive (WithGroup g) h = elapsed_with_group g h"

section \<open>Every record says how far into the run it is\<close>

fun group_names :: "derivation list \<Rightarrow> string list" where
  "group_names [] = []"
| "group_names (WithGroup g # ds) = g # group_names ds"
| "group_names (WithAttrs _ # ds) = group_names ds"

lemma derive_fields:
  "eh_start (fold derive ds h) = eh_start h" "eh_now (fold derive ds h) = eh_now h"
  "jh_level (eh_inner (fold derive ds h)) = jh_level (eh_inner h)"
  "jh_replace (eh_inner (fold derive ds h)) = jh_replace (eh_inner h)"
  "jh_groups (eh_inner (fold derive ds h)) = jh_groups (eh_inner h) @ group_names ds"
  by (induction ds arbitrary: h rule: group_names.induct)
    (simp_all add: elapsed_with_attrs_def elapsed_with_group_def json_with_attrs_def json_with_group_def)

text \<open>
  However a logger was derived, what it writes starts with the stamp of the record and ends with the
  elapsed time, in the group it was derived into last.
\<close>

theorem every_record_elapsed:
  assumes "log_call (fold derive ds (new_logging zone level start)) r = Some line" "lr_time r \<noteq> zero_time"
  shows "hd line = ([], (''time'', LogOther (JStr (stamp_text (zone (lr_time r)) (lr_time r))))) \<and>
    last line = (group_names ds, (''since'', LogOther (JStr (since_text start (lr_time r)))))"
  using assms
  by (auto simp: log_call_def elapsed_line_def json_line_def derive_fields new_logging_def new_at_def compact_time_def
      split: if_splits)

section \<open>Where the stamp falls short\<close>

text \<open>
  The stamp is called unambiguous without its offset. In the hour that local time repeats in autumn it
  is neither that nor sortable: of two records half an hour apart the later has the smaller stamp.
\<close>

definition central_europe :: "time \<Rightarrow> int" where
  "central_europe t = (if t < 1729990800 * second then 7200 else 3600)"

lemma stamps_repeat:
  "stamp_text (central_europe (1729989000 * second)) (1729989000 * second) = ''2024-10-27 02:30:00.000''"
  "stamp_text (central_europe (1729992600 * second)) (1729992600 * second) = ''2024-10-27 02:30:00.000''"
  "stamp_text (central_europe (1729990800 * second)) (1729990800 * second) = ''2024-10-27 02:00:00.000''"
  by code_simp+

end
