(* ===== verification/Overlap.thy ===== *)
theory Overlap
  imports Bridge
begin

text \<open>
  The goroutines of the bridge, \<open>internal/hass/bridge.go\<close>, against each other: \<open>OnConnect\<close> runs in one of its
  own for every connection, beside the one of \<open>Run\<close> that takes events. The mutex of the bridge covers
  single accesses to its maps, so anything may happen between looking a lamp up, publishing and noting
  it. A goroutine is the list of what it has still to do; \<open>Bridge\<close> is the case that nobody interferes.
\<close>

section \<open>What a goroutine does\<close>

datatype act =
    Tell string string
  | Subscribes
  | Snapshots
  | Reads event
  | Check bulb
  | Send bulb
  | Note bulb
  | Hear string bulb
  | AskHeard string bulb
  | Unhear string
  | Unnote string

fun do_act :: "hass_config \<Rightarrow> registry \<Rightarrow> act \<Rightarrow> bridge \<Rightarrow> act list \<times> bridge" where
  "do_act c r (Tell t p) b = ([], snd (bridge_publish t p b))"
| "do_act c r Subscribes b = ([], b\<lparr>b_subscribed := True\<rparr>)"
| "do_act c r Snapshots b = (map Check (list_bulbs r), b)"
| "do_act c r (Reads e) b =
     (if ev_device e = [] then ([], b)
      else
        (case get_lamp (ev_device e) r of
           Inl _ \<Rightarrow> ([], b)
         | Inr lamp \<Rightarrow>
             (case ev_kind e of
                KConnected \<Rightarrow> ([Check lamp], b)
              | Renamed \<Rightarrow> ([Check lamp, AskHeard (ev_device e) lamp], b)
              | KDisconnected \<Rightarrow> ([Unhear (ev_device e), Tell (availability_topic c (device_id lamp)) offline], b)
              | StateChanged \<Rightarrow> ([Hear (ev_device e) lamp], b)
              | _ \<Rightarrow> ([], b))))"
| "do_act c r (Check lamp) b =
     (if \<not> adopted lamp \<or> (case b_announced b (device_id lamp) of None \<Rightarrow> [] | Some n \<Rightarrow> n) = bulb_name lamp then ([], b)
      else ([Send lamp], b))"
| "do_act c r (Send lamp) b =
     (case bridge_publish (config_topic c (device_id lamp)) (discovery c lamp) b of
        (False, b1) \<Rightarrow> ([], b1)
      | (True, b1) \<Rightarrow> ([Note lamp], b1))"
| "do_act c r (Note lamp) b = ([], b\<lparr>b_announced := (b_announced b)(device_id lamp \<mapsto> bulb_name lamp)\<rparr>)"
| "do_act c r (Hear i lamp) b =
     ([Check lamp, Tell (state_topic c (device_id lamp)) (state_payload c lamp)] @
        (if i \<notin> b_reported b then [Tell (availability_topic c (device_id lamp)) online] else []),
      b\<lparr>b_reported := insert i (b_reported b)\<rparr>)"
| "do_act c r (AskHeard i lamp) b =
     (if i \<in> b_reported b \<or> status lamp = Connected
      then [Tell (state_topic c (device_id lamp)) (state_payload c lamp), Tell (availability_topic c (device_id lamp)) (availability lamp)]
      else [], b)"
| "do_act c r (Unhear i) b = ([], b\<lparr>b_reported := b_reported b - {i}\<rparr>)"
| "do_act c r (Unnote i) b = ([], b\<lparr>b_announced := (b_announced b)(i := None), b_reported := b_reported b - {i}\<rparr>)"

definition connect_acts :: "hass_config \<Rightarrow> act list" where
  "connect_acts c =
     [Tell (bridge_config_topic c) (bridge_discovery c bridge_version), Tell (status_topic c) online, Subscribes, Snapshots]"

definition remove_acts :: "hass_config \<Rightarrow> string \<Rightarrow> act list" where
  "remove_acts c i = [Tell (config_topic c i) [], Unnote i]"

definition stop_acts :: "hass_config \<Rightarrow> act list" where
  "stop_acts c = [Tell (status_topic c) offline]"

section \<open>Left alone\<close>

text \<open>A goroutine that nobody interferes with, and a registry that does not move, come to the end in one piece.\<close>

inductive alone :: "hass_config \<Rightarrow> registry \<Rightarrow> act list \<Rightarrow> bridge \<Rightarrow> bridge \<Rightarrow> bool" for c :: hass_config and r :: registry where
  alone_done: "alone c r [] b b"
| alone_act: "do_act c r a b = (todo, b1) \<Longrightarrow> alone c r (todo @ as) b1 b2 \<Longrightarrow> alone c r (a # as) b b2"

lemma alone_append: "alone c r as b b1 \<Longrightarrow> alone c r bs b1 b2 \<Longrightarrow> alone c r (as @ bs) b b2"
  by (induction rule: alone.induct) (auto intro: alone_act)

lemma alone_step: "alone c r (fst (do_act c r a b) @ as) (snd (do_act c r a b)) b2 \<Longrightarrow> alone c r (a # as) b b2"
  by (rule alone_act [OF prod.collapse [symmetric]])

lemma alone_tell: "alone c r as (snd (bridge_publish t p b)) b2 \<Longrightarrow> alone c r (Tell t p # as) b b2"
  by (rule alone_step) simp

lemma alone_check: "alone c r as (announce c lamp b) b2 \<Longrightarrow> alone c r (Check lamp # as) b b2"
proof (cases "\<not> adopted lamp \<or> (case b_announced b (device_id lamp) of None \<Rightarrow> [] | Some n \<Rightarrow> n) = bulb_name lamp")
  case True
  assume "alone c r as (announce c lamp b) b2"
  moreover have "announce c lamp b = b" using True by (auto simp: announce_def)
  ultimately show ?thesis using True by (intro alone_step) simp
next
  case False
  assume a: "alone c r as (announce c lamp b) b2"
  obtain sent b1 where p: "bridge_publish (config_topic c (device_id lamp)) (discovery c lamp) b = (sent, b1)" by fastforce
  have "alone c r (Send lamp # as) b b2"
  proof (cases sent)
    case True
    then have "announce c lamp b = b1\<lparr>b_announced := (b_announced b1)(device_id lamp \<mapsto> bulb_name lamp)\<rparr>"
      using False p by (simp add: announce_def)
    then have "alone c r (Note lamp # as) b1 b2" using a by (intro alone_step) simp
    then show ?thesis using True p by (intro alone_step) simp
  next
    case no: False
    then have "announce c lamp b = b1" using False p by (simp add: announce_def)
    then show ?thesis using no p a by (intro alone_step) simp
  qed
  then show ?thesis using False by (intro alone_step [of _ _ "Check lamp"]) simp
qed

lemma alone_checks: "alone c r (map Check ls) b (fold (announce c) ls b)"
proof (induction ls arbitrary: b)
  case (Cons l ls)
  show ?case using alone_check [OF Cons] by simp
qed (simp add: alone_done)

text \<open>Then the goroutines are the handlers of \<open>Bridge\<close>.\<close>

lemma alone_event:
  assumes "ev_device e \<noteq> []" "get_lamp (ev_device e) r = Inr lamp"
  shows "alone c r [Reads e] b (bridge_handle c r e b)"
proof -
  have state: "alone c r [Check lamp, Tell (state_topic c (device_id lamp)) (state_payload c lamp)] b
      (publish_state c lamp (announce c lamp b))" for b
    by (intro alone_check alone_tell) (simp add: publish_state_def alone_done)
  have shown: "alone c r [Tell (state_topic c (device_id lamp)) (state_payload c lamp), Tell (availability_topic c (device_id lamp)) v] b
      (publish_availability c (device_id lamp) v (publish_state c lamp b))" for v b
    by (intro alone_tell) (simp add: publish_state_def publish_availability_def alone_done)
  have told: "alone c r [Check lamp, Tell (state_topic c (device_id lamp)) (state_payload c lamp), Tell (availability_topic c (device_id lamp)) v] b
      (publish_availability c (device_id lamp) v (publish_state c lamp (announce c lamp b)))" for v b
    by (rule alone_check [OF shown])
  have asked: "alone c r [Check lamp, AskHeard (ev_device e) lamp] b
      (let b1 = announce c lamp b
       in if ev_device e \<in> b_reported b1 \<or> status lamp = Connected
          then publish_availability c (device_id lamp) (availability lamp) (publish_state c lamp b1) else b1)"
    using shown by (intro alone_check alone_step [of _ _ "AskHeard _ _"]) (simp add: Let_def alone_done)
  have heard: "alone c r [Hear (ev_device e) lamp] b
      (let first = (ev_device e \<notin> b_reported b);
           b2 = publish_state c lamp (announce c lamp (b\<lparr>b_reported := insert (ev_device e) (b_reported b)\<rparr>))
       in if first then publish_availability c (device_id lamp) online b2 else b2)"
    using state told by (intro alone_step [of _ _ "Hear _ _"]) (simp add: Let_def)
  have gone: "alone c r [Unhear (ev_device e), Tell (availability_topic c (device_id lamp)) offline] b
      (publish_availability c (device_id lamp) offline (b\<lparr>b_reported := b_reported b - {ev_device e}\<rparr>))"
    by (intro alone_step [of _ _ "Unhear _"]) (simp add: publish_availability_def alone_tell alone_done)
  show ?thesis
    using assms asked heard gone alone_check [OF alone_done, of c r lamp b]
    by (intro alone_step) (auto simp: bridge_handle_def Let_def alone_done split: kind.split)
qed

theorem handlers_alone:
  "alone c r (connect_acts c) b (on_connect c r b)"
  "alone c r [Reads e] b (bridge_handle c r e b)"
  "alone c r (remove_acts c i) b (remove_lamp c i b)"
  "alone c r (stop_acts c) b (publish_offline c b)"
proof -
  let ?b = "snd (bridge_publish (status_topic c) online (snd (bridge_publish (bridge_config_topic c) (bridge_discovery c bridge_version) b)))"
  have "alone c r [Snapshots] (?b\<lparr>b_subscribed := True\<rparr>) (on_connect c r b)"
    using alone_checks [of c r "list_bulbs r" "?b\<lparr>b_subscribed := True\<rparr>"]
    by (intro alone_step) (simp add: on_connect_def Let_def)
  then have "alone c r [Subscribes, Snapshots] ?b (on_connect c r b)" by (intro alone_step [of _ _ Subscribes]) simp
  then show "alone c r (connect_acts c) b (on_connect c r b)" unfolding connect_acts_def by (intro alone_tell)
  show "alone c r [Reads e] b (bridge_handle c r e b)"
  proof (cases "ev_device e = [] \<or> (\<exists>x. get_lamp (ev_device e) r = Inl x)")
    case True
    then show ?thesis by (intro alone_step) (auto simp: bridge_handle_def alone_done)
  next
    case False
    then obtain lamp where "get_lamp (ev_device e) r = Inr lamp" by (cases "get_lamp (ev_device e) r") auto
    then show ?thesis using False by (intro alone_event) auto
  qed
  show "alone c r (remove_acts c i) b (remove_lamp c i b)"
    unfolding remove_acts_def by (intro alone_tell alone_step [of _ _ "Unnote _"]) (simp add: remove_lamp_def Let_def alone_done)
  show "alone c r (stop_acts c) b (publish_offline c b)"
    unfolding stop_acts_def by (intro alone_tell) (simp add: publish_offline_def alone_done)
qed

section \<open>All of them together\<close>

record crew =
  cw_reg :: registry
  cw_bridge :: bridge
  cw_run :: "act list"
  cw_others :: "act list list"

inductive overlap_step :: "hass_config \<Rightarrow> crew \<Rightarrow> crew \<Rightarrow> bool" for c :: hass_config where
  o_world: "reg_ok r \<Longrightarrow> overlap_step c s (s\<lparr>cw_reg := r\<rparr>)"
| o_connects: "overlap_step c s (s\<lparr>cw_bridge := (cw_bridge s)\<lparr>b_up := True\<rparr>, cw_others := cw_others s @ [connect_acts c]\<rparr>)"
| o_lost: "overlap_step c s
    (s\<lparr>cw_bridge := (cw_bridge s)\<lparr>b_up := False, b_retained := (b_retained (cw_bridge s))(status_topic c \<mapsto> offline)\<rparr>\<rparr>)"
| o_takes: "cw_run s = [] \<Longrightarrow> overlap_step c s (s\<lparr>cw_run := [Reads e]\<rparr>)"
| o_stops: "cw_run s = [] \<Longrightarrow> overlap_step c s (s\<lparr>cw_run := stop_acts c\<rparr>)"
| o_removes: "overlap_step c s (s\<lparr>cw_others := cw_others s @ [remove_acts c i]\<rparr>)"
| o_run: "cw_run s = a # as \<Longrightarrow> do_act c (cw_reg s) a (cw_bridge s) = (todo, b) \<Longrightarrow>
    overlap_step c s (s\<lparr>cw_run := todo @ as, cw_bridge := b\<rparr>)"
| o_other: "cw_others s = xs @ (a # as) # ys \<Longrightarrow> do_act c (cw_reg s) a (cw_bridge s) = (todo, b) \<Longrightarrow>
    overlap_step c s (s\<lparr>cw_others := xs @ (todo @ as) # ys, cw_bridge := b\<rparr>)"

inductive_cases overlap_stepE: "overlap_step c s t"

definition crew_start :: "crew \<Rightarrow> bool" where
  "crew_start s \<longleftrightarrow> reg_ok (cw_reg s) \<and> cw_bridge s = new_bridge \<and> cw_run s = [] \<and> cw_others s = []"

text \<open>What a goroutine is about to do never puts anything else than an adopted lamp's own discovery under its topic.\<close>

fun act_ok :: "hass_config \<Rightarrow> act \<Rightarrow> bool" where
  "act_ok c (Tell t p) \<longleftrightarrow> p = [] \<or> (\<forall>i. t \<noteq> config_topic c i)"
| "act_ok c (Send lamp) \<longleftrightarrow> adopted lamp"
| "act_ok c (Note lamp) \<longleftrightarrow> adopted lamp"
| "act_ok c _ \<longleftrightarrow> True"

definition entries_real :: "hass_config \<Rightarrow> bridge \<Rightarrow> bool" where
  "entries_real c b \<longleftrightarrow>
     (\<forall>i p. b_retained b (config_topic c i) = Some p \<longrightarrow> (\<exists>lamp. adopted lamp \<and> device_id lamp = i \<and> p = discovery c lamp)) \<and>
     (\<forall>i n. b_announced b i = Some n \<longrightarrow> (\<exists>lamp. adopted lamp \<and> device_id lamp = i \<and> bulb_name lamp = n))"

definition crew_ok :: "hass_config \<Rightarrow> crew \<Rightarrow> bool" where
  "crew_ok c s \<longleftrightarrow> entries_real c (cw_bridge s) \<and> list_all (act_ok c) (cw_run s) \<and> list_all (list_all (act_ok c)) (cw_others s)"

lemma act_keeps:
  assumes "do_act c r a b = (todo, b')" "act_ok c a" "entries_real c b"
  shows "entries_real c b' \<and> list_all (act_ok c) todo"
proof (cases a)
  case (Tell t p)
  then show ?thesis using assms by (cases "b_up b") (auto simp: entries_real_def publish_retained split: if_splits)
next
  case (Send lamp)
  then show ?thesis
    using assms publish_retained [of "config_topic c (device_id lamp)" "discovery c lamp" b]
    by (cases "b_up b") (auto simp: bridge_publish_def entries_real_def split: if_splits)
next
  case (Reads e)
  then show ?thesis using assms by (auto split: if_splits sum.splits kind.splits)
qed (use assms in \<open>auto simp: entries_real_def list_all_iff split: if_splits\<close>)

lemma start_acts_ok [simp]: "list_all (act_ok c) (connect_acts c)" "list_all (act_ok c) (remove_acts c i)" "list_all (act_ok c) (stop_acts c)"
proof -
  have "bridge_config_topic c \<noteq> config_topic c i" "status_topic c \<noteq> config_topic c i" for i by simp_all
  then show "list_all (act_ok c) (connect_acts c)" "list_all (act_ok c) (remove_acts c i)" "list_all (act_ok c) (stop_acts c)"
    by (simp_all add: connect_acts_def remove_acts_def stop_acts_def)
qed

interpretation crews: invariant_system crew_start "overlap_step c" "crew_ok c"
proof unfold_locales
  show "crew_start s \<Longrightarrow> crew_ok c s" for s by (simp add: crew_start_def crew_ok_def entries_real_def new_bridge_def)
  show "crew_ok c s \<Longrightarrow> overlap_step c s t \<Longrightarrow> crew_ok c t" for s t
  proof (erule overlap_stepE, goal_cases)
    case (2)
    then show ?case by (simp add: crew_ok_def entries_real_def)
  next
    case (3)
    then show ?case by (simp add: crew_ok_def entries_real_def)
  next
    case (7 a as todo b)
    then show ?case using act_keeps [OF 7(4)] by (auto simp: crew_ok_def)
  next
    case (8 xs a as ys todo b)
    then show ?case using act_keeps [OF 8(4)] by (auto simp: crew_ok_def)
  qed (auto simp: crew_ok_def)
qed

section \<open>Properties\<close>


text \<open>A goroutine of \<open>Run\<close> that gets to its end, and one of \<open>OnConnect\<close> that does one thing.\<close>

lemma alone_runs:
  "alone c r as b b' \<Longrightarrow> (overlap_step c)\<^sup>*\<^sup>* \<lparr>cw_reg = r, cw_bridge = b, cw_run = as, cw_others = os\<rparr>
     \<lparr>cw_reg = r, cw_bridge = b', cw_run = [], cw_others = os\<rparr>"
proof (induction rule: alone.induct)
  case (alone_act a b todo b1 as b2)
  have "overlap_step c \<lparr>cw_reg = r, cw_bridge = b, cw_run = a # as, cw_others = os\<rparr>
      \<lparr>cw_reg = r, cw_bridge = b1, cw_run = todo @ as, cw_others = os\<rparr>"
    using o_run [of "\<lparr>cw_reg = r, cw_bridge = b, cw_run = a # as, cw_others = os\<rparr>" a as c todo b1] alone_act(1) by simp
  with alone_act.IH show ?case by (meson converse_rtranclp_into_rtranclp)
qed simp

lemma other_acts:
  "overlap_step c \<lparr>cw_reg = r, cw_bridge = b, cw_run = rs, cw_others = [a # as]\<rparr>
     \<lparr>cw_reg = r, cw_bridge = snd (do_act c r a b), cw_run = rs, cw_others = [fst (do_act c r a b) @ as]\<rparr>"
  using o_other [of "\<lparr>cw_reg = r, cw_bridge = b, cw_run = rs, cw_others = [a # as]\<rparr>" "[]" a as "[]" c "fst (do_act c r a b)" "snd (do_act c r a b)"]
  by simp

abbreviation old_lamp :: bulb where
  "old_lamp \<equiv> zero_bulb\<lparr>device_id := ''a1'', bulb_name := ''desk'', status := Connected, driver := Some 3\<rparr>"

abbreviation new_lamp :: bulb where
  "new_lamp \<equiv> old_lamp\<lparr>bulb_name := ''hall''\<rparr>"

abbreviation renamed_registry :: registry where
  "renamed_registry \<equiv> put_bulb ''a1'' new_lamp new_registry"

abbreviation greeted :: bridge where
  "greeted \<equiv> snd (do_act default_config demo_registry Subscribes (snd (bridge_publish (status_topic default_config) online
     (snd (bridge_publish (bridge_config_topic default_config) (bridge_discovery default_config bridge_version) (new_bridge\<lparr>b_up := True\<rparr>))))))"

lemma greeted_reachable:
  "reachable crew_start (overlap_step default_config)
     \<lparr>cw_reg = demo_registry, cw_bridge = greeted, cw_run = [], cw_others = [[Send old_lamp]]\<rparr>"
proof -
  let ?c = default_config and ?r = demo_registry
  let ?S = "\<lambda>b as. \<lparr>cw_reg = ?r, cw_bridge = b, cw_run = [], cw_others = [as]\<rparr>"
  let ?b0 = "new_bridge\<lparr>b_up := True\<rparr>"
  let ?b1 = "snd (bridge_publish (bridge_config_topic ?c) (bridge_discovery ?c bridge_version) ?b0)"
  let ?b2 = "snd (bridge_publish (status_topic ?c) online ?b1)"
  note go = reach_step [where step = "overlap_step ?c" and start = crew_start]
  have "reachable crew_start (overlap_step ?c) \<lparr>cw_reg = ?r, cw_bridge = new_bridge, cw_run = [], cw_others = []\<rparr>"
    by (rule reach_start) (simp add: crew_start_def demo_registry_ok)
  from go [OF this o_connects] have "reachable crew_start (overlap_step ?c) (?S ?b0 (connect_acts ?c))" by simp
  from go [OF this [unfolded connect_acts_def] other_acts]
  have "reachable crew_start (overlap_step ?c) (?S ?b1 [Tell (status_topic ?c) online, Subscribes, Snapshots])" by simp
  from go [OF this other_acts] have "reachable crew_start (overlap_step ?c) (?S ?b2 [Subscribes, Snapshots])" by simp
  from go [OF this other_acts] have "reachable crew_start (overlap_step ?c) (?S greeted [Snapshots])" by simp
  from go [OF this other_acts] have "reachable crew_start (overlap_step ?c) (?S greeted (map Check (list_bulbs ?r)))" by simp
  moreover have "list_bulbs ?r = [old_lamp]" by code_simp
  ultimately have "reachable crew_start (overlap_step ?c) (?S greeted [Check old_lamp])" by simp
  from go [OF this other_acts] have "reachable crew_start (overlap_step ?c)
      (?S (snd (do_act ?c ?r (Check old_lamp) greeted)) (fst (do_act ?c ?r (Check old_lamp) greeted)))" by simp
  moreover have "do_act ?c ?r (Check old_lamp) greeted = ([Send old_lamp], greeted)"
  proof -
    have "adopted old_lamp" by code_simp
    moreover have "b_announced greeted ''a1'' = None" by (simp add: new_bridge_def)
    ultimately show ?thesis by simp
  qed
  ultimately show ?thesis by simp
qed


section \<open>Where the bridge falls short\<close>

text \<open>
  A lamp is renamed while \<open>OnConnect\<close> is between looking it up and publishing it: \<open>Run\<close> announces the new name
  first, and \<open>OnConnect\<close> then publishes the old one over it and notes it. With all goroutines finished
  Home Assistant shows a name the lamp no longer has, until the lamp reports again.
\<close>

lemma stale_name_announced:
  "\<exists>s. reachable crew_start (overlap_step default_config) s \<and> cw_run s = [] \<and> cw_others s = [[]] \<and>
    map_option bulb_name (lookup_bulb (cw_reg s) ''a1'') = Some ''hall'' \<and> b_announced (cw_bridge s) ''a1'' = Some ''desk'' \<and>
    b_retained (cw_bridge s) (config_topic default_config ''a1'') = Some (discovery default_config old_lamp)"
proof -
  let ?c = default_config and ?r = renamed_registry
  let ?e = "\<lparr>ev_at = 0, ev_kind = Renamed, ev_device = ''a1'', ev_name = ''hall'', ev_changed = [], ev_detail = []\<rparr>"
  let ?b = "bridge_handle ?c ?r ?e greeted"
  let ?S = "\<lambda>b rs as. \<lparr>cw_reg = ?r, cw_bridge = b, cw_run = rs, cw_others = [as]\<rparr>"
  note go = reach_step [where step = "overlap_step ?c" and start = crew_start]
  have "reg_ok ?r" by (rule reg_ok_put) (simp_all add: bulb_ok_def)
  from go [OF greeted_reachable o_world [OF this]] have "reachable crew_start (overlap_step ?c) (?S greeted [] [Send old_lamp])" by simp
  from go [OF this o_takes [of _ _ ?e]] have s: "reachable crew_start (overlap_step ?c) (?S greeted [Reads ?e] [Send old_lamp])" by simp
  have steps: "reachable start step t" if "step\<^sup>*\<^sup>* s t" "reachable start step s" for start step and s t :: crew
    using that by (induction rule: rtranclp_induct) (auto intro: reach_step)
  have up: "b_up ?b" by simp
  from steps [OF alone_runs [OF handlers_alone(2)] s] have "reachable crew_start (overlap_step ?c) (?S ?b [] [Send old_lamp])" .
  from go [OF this other_acts] up have "reachable crew_start (overlap_step ?c)
      (?S (snd (bridge_publish (config_topic ?c ''a1'') (discovery ?c old_lamp) ?b)) [] [Note old_lamp])"
    by (simp add: bridge_publish_def)
  from go [OF this other_acts] show ?thesis
    using up by (intro exI conjI) (assumption | simp add: publish_retained reg_simps)+
qed

end
