(* ===== verification/Saving.thy ===== *)
theory Saving
  imports Persist
begin

text \<open>
  How \<open>save\<close> of \<open>internal/registry/persist.go\<close> replaces the file: a temporary file in the same
  directory, written, synced, closed and renamed over the old one. Every call may fail, and the machine
  may stop between any two of them; what a file holds after that is certain only once it was synced.
  With it what \<open>run\<close> of \<open>cmd/haigosmartd/main.go\<close> does to the store on its way out.
\<close>

section \<open>The file system\<close>

record stored_file =
  content :: bytes
  synced :: bool

type_synonym files = "string \<rightharpoonup> stored_file"

text \<open>What each call returns. A write that fails may have written some of the bytes.\<close>

record save_outcome =
  on_mkdir :: "string option"
  on_create :: "string option"
  on_write :: "(nat \<times> string) option"
  on_sync :: "string option"
  on_close_tmp :: "string option"
  on_rename :: "string option"
  on_remove :: "string option"

text \<open>
  The effect of each call on the files; \<open>tmp\<close> is the name \<open>os.CreateTemp\<close> chose. The trace lists the
  files after every call, the last one being what is left when \<open>save\<close> returns.
\<close>

definition remove_tmp :: "save_outcome \<Rightarrow> string \<Rightarrow> files \<Rightarrow> files" where
  "remove_tmp out tmp fs = (if on_remove out = None then fs(tmp := None) else fs)"

definition save_file ::
  "save_outcome \<Rightarrow> string \<Rightarrow> string \<Rightarrow> string \<Rightarrow> bytes \<Rightarrow> files \<Rightarrow> string option \<times> files list" where
  "save_file out dir path tmp data fs =
     (case on_mkdir out of
        Some e \<Rightarrow> (Some (''creating registry directory '' @ dir @ '': '' @ e), [fs])
      | None \<Rightarrow>
          (case on_create out of
             Some e \<Rightarrow> (Some (''creating temporary registry file in '' @ dir @ '': '' @ e), [fs, fs])
           | None \<Rightarrow>
               (let created = fs(tmp \<mapsto> \<lparr>content = [], synced = False\<rparr>)
                in case on_write out of
                     Some (n, e) \<Rightarrow>
                       (let part = fs(tmp \<mapsto> \<lparr>content = take n data, synced = False\<rparr>)
                        in (Some (''writing temporary registry file: '' @ e), [fs, created, part, remove_tmp out tmp part]))
                   | None \<Rightarrow>
                       (let full = fs(tmp \<mapsto> \<lparr>content = data, synced = False\<rparr>)
                        in case on_sync out of
                             Some e \<Rightarrow>
                               (Some (''syncing temporary registry file: '' @ e), [fs, created, full, remove_tmp out tmp full])
                           | None \<Rightarrow>
                               (let safe = fs(tmp \<mapsto> \<lparr>content = data, synced = True\<rparr>);
                                    before = [fs, created, full, safe]
                                in case on_close_tmp out of
                                     Some e \<Rightarrow>
                                       (Some (''closing temporary registry file: '' @ e), before @ [remove_tmp out tmp safe])
                                   | None \<Rightarrow>
                                       (case on_rename out of
                                          Some e \<Rightarrow>
                                            (Some (''replacing registry '' @ path @ '': '' @ e), before @ [remove_tmp out tmp safe])
                                        | None \<Rightarrow>
                                            (let moved = safe(tmp := None, path := safe tmp)
                                             in (None, before @ [moved, remove_tmp out tmp moved]))))))))"

text \<open>
  The machine stops: the directory is as it was, and a file that was not synced may hold anything.
\<close>

definition crash :: "files \<Rightarrow> files \<Rightarrow> bool" where
  "crash fs after \<longleftrightarrow>
     (\<forall>p. case fs p of
        None \<Rightarrow> after p = None
      | Some f \<Rightarrow> (\<exists>g. after p = Some g \<and> (synced f \<longrightarrow> g = f)))"

section \<open>Facts\<close>

lemma save_trace:
  assumes "tmp \<noteq> path" "fs tmp = None" "mid \<in> set (snd (save_file out dir path tmp data fs))"
  shows "mid path = fs path \<or> mid path = Some \<lparr>content = data, synced = True\<rparr>"
    "p \<noteq> tmp \<Longrightarrow> p \<noteq> path \<Longrightarrow> mid p = fs p"
  using assms
  by (auto simp: save_file_def remove_tmp_def Let_def split: option.splits prod.splits if_splits)

lemma save_result:
  assumes "tmp \<noteq> path" "fs tmp = None"
  shows "last (snd (save_file out dir path tmp data fs)) path =
      (if fst (save_file out dir path tmp data fs) = None then Some \<lparr>content = data, synced = True\<rparr> else fs path)"
    "on_remove out = None \<Longrightarrow> last (snd (save_file out dir path tmp data fs)) tmp = None"
    "fst (save_file out dir path tmp data fs) = None \<longleftrightarrow>
      on_mkdir out = None \<and> on_create out = None \<and> on_write out = None \<and> on_sync out = None \<and> on_close_tmp out = None \<and> on_rename out = None"
  using assms
  by (auto simp: save_file_def remove_tmp_def Let_def split: option.splits prod.splits)

lemma crash_synced: "crash fs after \<Longrightarrow> fs p = Some f \<Longrightarrow> synced f \<Longrightarrow> after p = Some f"
  by (auto simp: crash_def dest!: spec [of _ p])

lemma crash_none: "crash fs after \<Longrightarrow> fs p = None \<Longrightarrow> after p = None"
  by (auto simp: crash_def dest!: spec [of _ p])

section \<open>On the way out\<close>

text \<open>A flush that nothing interrupts; \<open>ok\<close> says whether its write succeeds.\<close>

definition flush_now :: "bool \<Rightarrow> store \<Rightarrow> store" where
  "flush_now ok s =
     (if pending s then s\<lparr>pending := False, disk := if ok then Some (file_of (reg s)) else disk s\<rparr> else s)"

definition close_store :: "bool \<Rightarrow> store \<Rightarrow> store" where
  "close_store ok s = flush_now ok (s\<lparr>armed := False\<rparr>)"

text \<open>
  How \<open>run\<close> ends once it serves: the listener failed, a signal came, or the interface was left, with or
  without an error. Without a terminal a signal saves at once; the deferred \<open>Close\<close> follows in every case.
\<close>

datatype ending = ListenerEnded "string option" | Signalled "string option" | InterfaceEnded "string option" "string option"

definition run_result :: "ending \<Rightarrow> string option" where
  "run_result e =
     (case e of
        ListenerEnded err \<Rightarrow> err
      | Signalled err \<Rightarrow> err
      | InterfaceEnded (Some err) _ \<Rightarrow> Some (''running the terminal interface: '' @ err)
      | InterfaceEnded None err \<Rightarrow> err)"

definition leave :: "bool \<Rightarrow> bool \<Rightarrow> ending \<Rightarrow> store \<Rightarrow> store" where
  "leave ok1 ok2 e s =
     (case e of
        Signalled _ \<Rightarrow> close_store ok2 (flush_now ok1 s)
      | _ \<Rightarrow> close_store ok2 s)"

text \<open>\<open>main\<close>: what is written to standard error, and the exit status.\<close>

definition main_exit :: "string option \<Rightarrow> string list \<times> int" where
  "main_exit err = (case err of None \<Rightarrow> ([], 0) | Some e \<Rightarrow> ([''haigosmartd: '' @ e], 1))"

lemma flush_now_steps:
  assumes "flights s = []" "failing \<or> ok"
  shows "(store_step failing overlap)\<^sup>*\<^sup>* (s\<lparr>armed := False\<rparr>) ((flush_now ok s)\<lparr>armed := False\<rparr>)"
proof -
  let ?step = "store_step failing overlap"
  have start: "?step (s\<lparr>armed := False\<rparr>) (s\<lparr>armed := False, flights := [Taking]\<rparr>)"
    using store_step.closed [of overlap "s\<lparr>armed := False\<rparr>" failing] assms(1) by (simp add: start_flush_def)
  show ?thesis
  proof (cases "pending s")
    case False
    have "?step (s\<lparr>armed := False, flights := [Taking]\<rparr>) (s\<lparr>armed := False\<rparr>)"
      using store_step.taken [of "s\<lparr>armed := False, flights := [Taking]\<rparr>" "[]" "[]" failing overlap] False assms(1)
      by (cases s) (simp add: take_pending_def)
    with start False show ?thesis by (simp add: flush_now_def)
  next
    case True
    let ?a = "s\<lparr>armed := False, pending := False, flights := [Snapping]\<rparr>"
    let ?b = "s\<lparr>armed := False, pending := False, flights := [Writing (file_of (reg s))]\<rparr>"
    have a: "?step (s\<lparr>armed := False, flights := [Taking]\<rparr>) ?a"
      using store_step.taken [of "s\<lparr>armed := False, flights := [Taking]\<rparr>" "[]" "[]" failing overlap] True
      by (simp add: take_pending_def)
    have b: "?step ?a ?b" using store_step.snapped [of ?a "[]" "[]" failing overlap] by simp
    have c: "?step ?b ((flush_now ok s)\<lparr>armed := False\<rparr>)"
      using store_step.written [of ?b "[]" "file_of (reg s)" "[]" failing overlap]
        store_step.write_failed [of failing ?b "[]" "file_of (reg s)" "[]" overlap] assms True
      by (cases s; cases ok) (simp_all add: flush_now_def)
    from start a b c show ?thesis by (meson converse_rtranclp_into_rtranclp rtranclp.rtrancl_refl)
  qed
qed

lemma leave_saves:
  assumes "store_inv s" "flights s = []" "ok2" "case e of Signalled _ \<Rightarrow> ok1 | _ \<Rightarrow> True"
  shows "durable_file (disk (leave ok1 ok2 e s)) = durable (reg s)"
  using assms durable_file_of [of "reg s"]
  by (auto simp: leave_def close_store_def flush_now_def store_inv_def split: ending.splits)

section \<open>Properties\<close>

text \<open>
  The registry file is replaced as a whole or not at all. Whichever call of \<open>save\<close> fails and wherever
  the machine stops, the file is afterwards either exactly what it was or exactly the new text; when
  \<open>save\<close> reports success it is the new text, when it reports an error the old one, and no file but
  the temporary one is touched.
\<close>

theorem save_is_atomic:
  assumes "tmp \<noteq> path" "fs tmp = None" "\<forall>f. fs path = Some f \<longrightarrow> synced f"
    "save_file out dir path tmp data fs = (err, trace)"
  shows "(\<forall>mid\<in>set trace. \<forall>after. crash mid after \<longrightarrow> after path = fs path \<or> after path = Some \<lparr>content = data, synced = True\<rparr>) \<and>
    last trace path = (if err = None then Some \<lparr>content = data, synced = True\<rparr> else fs path) \<and>
    (\<forall>p mid. mid \<in> set trace \<longrightarrow> p \<noteq> tmp \<longrightarrow> p \<noteq> path \<longrightarrow> mid p = fs p)"
proof (intro conjI ballI allI impI)
  fix mid after assume m: "mid \<in> set trace" and c: "crash mid after"
  have "mid path = fs path \<or> mid path = Some \<lparr>content = data, synced = True\<rparr>"
    by (rule save_trace(1) [where out = out and dir = dir and fs = fs and tmp = tmp and data = data, OF assms(1,2)]) (use m assms(4) in simp)
  then consider "mid path = fs path" | "mid path = Some \<lparr>content = data, synced = True\<rparr>" by blast
  then show "after path = fs path \<or> after path = Some \<lparr>content = data, synced = True\<rparr>"
  proof cases
    case 1
    then show ?thesis using assms(3) crash_synced [OF c] crash_none [OF c] by (cases "fs path") auto
  next
    case 2
    then show ?thesis using crash_synced [OF c 2] by simp
  qed
next
  show "last trace path = (if err = None then Some \<lparr>content = data, synced = True\<rparr> else fs path)"
    using save_result(1) [where out = out and dir = dir and fs = fs and tmp = tmp and data = data, OF assms(1,2)] assms(4) by simp
next
  show "mid \<in> set trace \<Longrightarrow> p \<noteq> tmp \<Longrightarrow> p \<noteq> path \<Longrightarrow> mid p = fs p" for p mid
    using save_trace(2) [where out = out and dir = dir and fs = fs and tmp = tmp and data = data, OF assms(1,2)] assms(4) by simp
qed

theorem save_is_atomic_witness:
  "let out = \<lparr>on_mkdir = None, on_create = None, on_write = None, on_sync = None, on_close_tmp = None, on_rename = None, on_remove = None\<rparr>;
       trace = snd (save_file out ''d'' ''d/registry.json'' ''d/.registry-1.json'' [7] Map.empty)
   in length trace = 6 \<and> last trace ''d/registry.json'' = Some \<lparr>content = [7], synced = True\<rparr>"
proof -
  let ?out = "\<lparr>on_mkdir = None, on_create = None, on_write = None, on_sync = None, on_close_tmp = None, on_rename = None, on_remove = None\<rparr>"
  obtain err trace where s: "save_file ?out ''d'' ''d/registry.json'' ''d/.registry-1.json'' [7] Map.empty = (err, trace)" by fastforce
  then have "err = None" "length trace = 6" by (auto simp: save_file_def remove_tmp_def Let_def)
  then show ?thesis using save_is_atomic [OF _ _ _ s] by (simp add: Let_def s)
qed

text \<open>
  A clean exit loses nothing. When \<open>run\<close> ends with no save in progress and the final write succeeds,
  however it ends, the file holds everything durable the registry does.
\<close>

theorem clean_exit_saves:
  assumes "reachable store_start (store_step False False) s" "flights s = []" "ok2" "case e of Signalled _ \<Rightarrow> ok1 | _ \<Rightarrow> True"
  shows "durable_file (disk (leave ok1 ok2 e s)) = durable (reg s) \<and> reg (leave ok1 ok2 e s) = reg s \<and> \<not> pending (leave ok1 ok2 e s)"
proof -
  have "store_inv s" using assms(1) by (rule store.reachable_inv)
  from leave_saves [OF this assms(2-4)] show ?thesis
    by (auto simp: leave_def close_store_def flush_now_def split: ending.split)
qed

theorem clean_exit_saves_witness:
  "durable_file (disk (leave True True (Signalled None) (one_bulb \<lparr>reg = new_registry, pending = False, armed = False, flights = [], disk = None\<rparr>)))
    = durable (run_op (OpUpsert ''a'' ''addr'' no_caps 5) new_registry)"
proof -
  let ?s = "\<lparr>reg = new_registry, pending = False, armed = False, flights = [], disk = None\<rparr>"
  have "reachable store_start (store_step False False) ?s"
    by (rule reachable.reach_start) (simp add: store_start_def load_file_def)
  then have "reachable store_start (store_step False False) (one_bulb ?s)"
    unfolding one_bulb_def by (rule reachable.reach_step) (rule store_step.changed)
  moreover have "flights (one_bulb ?s) = []" by (simp add: one_bulb_def change_cases)
  ultimately show ?thesis
    using clean_exit_saves [where s = "one_bulb ?s" and e = "Signalled None" and ?ok1.0 = True and ?ok2.0 = True] by (simp add: one_bulb_def change_cases)
qed

section \<open>Where the code falls short\<close>

text \<open>
  When the timer's own save has just begun, the mark is already cleared: the flush on a signal and the
  one of \<open>Close\<close> find nothing to do and return, and the process ends before the save it should wait for.
\<close>

lemma begun_save_lost_on_exit:
  "\<exists>s. reachable store_start (store_step False False) s \<and> flights s = [Snapping] \<and>
    durable_file (disk (leave True True (Signalled None) s)) \<noteq> durable (reg s)"
proof -
  let ?s0 = "\<lparr>reg = new_registry, pending = False, armed = False, flights = [], disk = None\<rparr>"
  let ?r = "run_op (OpUpsert ''a'' ''addr'' no_caps 5) new_registry"
  have dirty: "dirty ?r \<noteq> dirty new_registry"
    by (simp add: upsert_def lookup_bulb_def new_registry_def Let_def reg_simps)
  note go = reachable.reach_step [where step = "store_step False False" and start = store_start]
  have "reachable store_start (store_step False False) ?s0"
    by (rule reachable.reach_start) (simp add: store_start_def load_file_def)
  from go [OF this store_step.changed [of _ _ _ "OpUpsert ''a'' ''addr'' no_caps 5"]]
  have "reachable store_start (store_step False False) \<lparr>reg = ?r, pending = True, armed = True, flights = [], disk = None\<rparr>"
    using dirty by (simp add: change_def schedule_def Let_def del: run_op.simps)
  from go [OF this store_step.fired]
  have "reachable store_start (store_step False False) \<lparr>reg = ?r, pending = True, armed = False, flights = [Taking], disk = None\<rparr>"
    by (simp add: start_flush_def del: run_op.simps)
  from go [OF this store_step.taken [of _ "[]" "[]"]]
  have "reachable store_start (store_step False False) \<lparr>reg = ?r, pending = False, armed = False, flights = [Snapping], disk = None\<rparr>"
    by (simp add: take_pending_def del: run_op.simps)
  moreover have "durable_file None \<noteq> durable ?r"
    by (auto simp: durable_file_def durable_def upsert_def lookup_bulb_def new_registry_def Let_def reg_simps fun_eq_iff
        intro!: exI [of _ "''a''"])
  ultimately show ?thesis
    by (intro exI conjI) (assumption | simp add: leave_def close_store_def flush_now_def)+
qed

end
