(* ===== verification/RegText.thy ===== *)
theory RegText
  imports Saving JsonDecode Times
begin

text \<open>
  The registry file as bytes, \<open>internal/registry/persist.go\<close>: the text \<open>json.MarshalIndent\<close> makes of the
  registry, and how \<open>Load\<close> takes it apart again: the parser, the typed fields, the instants.
\<close>

section \<open>Indented text\<close>

text \<open>\<open>json.MarshalIndent(v, "", "  ")\<close>: a member or an element per line, nothing inside empty brackets.\<close>

definition new_line :: "nat \<Rightarrow> string" where
  "new_line n = CHR 0x0A # replicate (2 * n) CHR '' ''"

function marshal_indent :: "nat \<Rightarrow> json \<Rightarrow> string" where
  "marshal_indent n JNull = ''null''"
| "marshal_indent n (JBool b) = (if b then ''true'' else ''false'')"
| "marshal_indent n (JNum s) = s"
| "marshal_indent n (JStr s) = quote s"
| "marshal_indent n (JArr js) =
     (if js = [] then ''[]''
      else CHR ''['' # new_line (Suc n) @ join (CHR '','' # new_line (Suc n)) (map (marshal_indent (Suc n)) js) @ new_line n @ '']'')"
| "marshal_indent n (JObj kvs) =
     (if kvs = [] then ''{}''
      else CHR ''{'' # new_line (Suc n) @
        join (CHR '','' # new_line (Suc n)) (map (\<lambda>(k, v). quote k @ '': '' @ marshal_indent (Suc n) v) kvs) @ new_line n @ ''}'')"
  by pat_completeness auto
termination
  by (relation "measure (\<lambda>(n, j). size j)") (auto simp: less_Suc_eq_le intro: size_list_estimation')

section \<open>The tree of the file\<close>

text \<open>
  A time is written at the offset \<open>zone\<close> gives for it; one that cannot be written makes the whole
  encoding fail. An empty firmware version is left out.
\<close>

definition time_json :: "(time \<Rightarrow> int) \<Rightarrow> time \<Rightarrow> json option" where
  "time_json zone t = map_option JStr (format_time (zone t) t)"

definition caps_json :: "capabilities \<Rightarrow> json" where
  "caps_json c = JObj [(''known'', JBool (cap_known c)), (''color'', JBool (cap_color c)),
     (''color_temp'', JBool (cap_color_temp c)), (''min_brightness'', jint (uint (min_brightness c)))]"

definition light_json :: "(time \<Rightarrow> int) \<Rightarrow> light_state \<Rightarrow> json option" where
  "light_json zone s =
     map_option (\<lambda>t. JObj [(''power'', JBool (power s)), (''brightness'', jint (uint (brightness s))),
       (''color_temp'', jint (uint (color_temp s))), (''mode'', jint (uint (light_mode s))), (''reported_at'', t)])
       (time_json zone (reported_at s))"

definition stored_json :: "(time \<Rightarrow> int) \<Rightarrow> stored_bulb \<Rightarrow> json option" where
  "stored_json zone sb = do {
     first \<leftarrow> time_json zone (s_first_seen sb);
     last \<leftarrow> time_json zone (s_last_seen sb);
     state \<leftarrow> light_json zone (s_state sb);
     Some (JObj ([(''device_id'', JStr (s_device_id sb)), (''name'', JStr (s_name sb)), (''first_seen'', first),
         (''last_seen'', last), (''capabilities'', caps_json (s_capabilities sb))] @
       (if s_firmware sb = [] then [] else [(''firmware'', JStr (s_firmware sb))]) @ [(''state'', state)]))
   }"

definition file_json :: "(time \<Rightarrow> int) \<Rightarrow> reg_file \<Rightarrow> json option" where
  "file_json zone f =
     map_option (\<lambda>bs. JObj [(''version'', jint (file_version f)), (''bulbs'', JArr bs)])
       (those (map (stored_json zone) (file_bulbs f)))"

text \<open>The bytes \<open>save\<close> hands to the file system; None is \<open>encoding registry\<close>.\<close>

definition file_text :: "(time \<Rightarrow> int) \<Rightarrow> reg_file \<Rightarrow> bytes option" where
  "file_text zone f = map_option (\<lambda>j. bytes_of (marshal_indent 0 j)) (file_json zone f)"

section \<open>Reading it back\<close>

text \<open>A \<open>uint8\<close> takes a plain number that fits.\<close>

definition dec_byte :: "byte dec" where
  "dec_byte j v =
     (case j of
        JNum lit \<Rightarrow>
          (case parse_digits lit of Some n \<Rightarrow> if n < 256 then (of_nat n, True) else (v, False) | None \<Rightarrow> (v, False))
      | JNull \<Rightarrow> (v, True)
      | _ \<Rightarrow> (v, False))"

definition dec_time :: "(string \<Rightarrow> time option) \<Rightarrow> time dec" where
  "dec_time lenient j v =
     (case j of
        JStr s \<Rightarrow> (case parse_time lenient s of Some t \<Rightarrow> (t, True) | None \<Rightarrow> (v, False))
      | JNull \<Rightarrow> (v, True)
      | _ \<Rightarrow> (v, False))"

text \<open>A slice: an element is decoded over the one that stood at its place before, or over the zero value.\<close>

fun dec_elements :: "'a \<Rightarrow> 'a dec \<Rightarrow> json list \<Rightarrow> 'a list \<Rightarrow> 'a list \<times> bool" where
  "dec_elements zero d [] vs = ([], True)"
| "dec_elements zero d (j # js) vs =
     (let (x, ok) = d j (case vs of [] \<Rightarrow> zero | v # _ \<Rightarrow> v);
          (xs, ok') = dec_elements zero d js (drop 1 vs)
      in (x # xs, ok \<and> ok'))"

definition dec_slice :: "'a \<Rightarrow> 'a dec \<Rightarrow> 'a list dec" where
  "dec_slice zero d j vs =
     (case j of JArr js \<Rightarrow> dec_elements zero d js vs | JNull \<Rightarrow> ([], True) | _ \<Rightarrow> (vs, False))"

definition dec_caps :: "capabilities dec" where
  "dec_caps = dec_struct
     [(''known'', field cap_known (\<lambda>x. cap_known_update (\<lambda>_. x)) dec_bool),
      (''color'', field cap_color (\<lambda>x. cap_color_update (\<lambda>_. x)) dec_bool),
      (''color_temp'', field cap_color_temp (\<lambda>x. cap_color_temp_update (\<lambda>_. x)) dec_bool),
      (''min_brightness'', field min_brightness (\<lambda>x. min_brightness_update (\<lambda>_. x)) dec_byte)]"

definition dec_light :: "(string \<Rightarrow> time option) \<Rightarrow> light_state dec" where
  "dec_light lenient = dec_struct
     [(''power'', field power (\<lambda>x. power_update (\<lambda>_. x)) dec_bool),
      (''brightness'', field brightness (\<lambda>x. brightness_update (\<lambda>_. x)) dec_byte),
      (''color_temp'', field color_temp (\<lambda>x. color_temp_update (\<lambda>_. x)) dec_byte),
      (''mode'', field light_mode (\<lambda>x. light_mode_update (\<lambda>_. x)) dec_byte),
      (''reported_at'', field reported_at (\<lambda>x. reported_at_update (\<lambda>_. x)) (dec_time lenient))]"

definition dec_stored :: "(string \<Rightarrow> time option) \<Rightarrow> stored_bulb dec" where
  "dec_stored lenient = dec_struct
     [(''device_id'', field s_device_id (\<lambda>x. s_device_id_update (\<lambda>_. x)) dec_string),
      (''name'', field s_name (\<lambda>x. s_name_update (\<lambda>_. x)) dec_string),
      (''first_seen'', field s_first_seen (\<lambda>x. s_first_seen_update (\<lambda>_. x)) (dec_time lenient)),
      (''last_seen'', field s_last_seen (\<lambda>x. s_last_seen_update (\<lambda>_. x)) (dec_time lenient)),
      (''capabilities'', field s_capabilities (\<lambda>x. s_capabilities_update (\<lambda>_. x)) dec_caps),
      (''firmware'', field s_firmware (\<lambda>x. s_firmware_update (\<lambda>_. x)) dec_string),
      (''state'', field s_state (\<lambda>x. s_state_update (\<lambda>_. x)) (dec_light lenient))]"

definition zero_stored :: stored_bulb where
  "zero_stored = \<lparr>s_device_id = [], s_name = [], s_first_seen = zero_time, s_last_seen = zero_time,
     s_capabilities = no_caps, s_firmware = [], s_state = zero_state\<rparr>"

definition dec_file :: "(string \<Rightarrow> time option) \<Rightarrow> reg_file dec" where
  "dec_file lenient = dec_struct
     [(''version'', field file_version (\<lambda>x. file_version_update (\<lambda>_. x)) dec_int),
      (''bulbs'', field file_bulbs (\<lambda>x. file_bulbs_update (\<lambda>_. x)) (dec_slice zero_stored (dec_stored lenient)))]"

text \<open>What \<open>os.ReadFile\<close> returns, and \<open>Load\<close> from it.\<close>

datatype read_result = Missing | Unreadable string | Contents bytes

datatype load_failure = ReadFailed string | CorruptFile | Refused load_error

definition load_store :: "(string \<Rightarrow> time option) \<Rightarrow> read_result \<Rightarrow> load_failure + registry" where
  "load_store lenient raw =
     (case raw of
        Missing \<Rightarrow> Inr new_registry
      | Unreadable e \<Rightarrow> Inl (ReadFailed e)
      | Contents b \<Rightarrow>
          (case unmarshal (dec_file lenient) \<lparr>file_version = 0, file_bulbs = []\<rparr> (str_of b) of
             None \<Rightarrow> Inl CorruptFile
           | Some f \<Rightarrow> map_err Refused (load_file (Some f))))"

text \<open>The wording of every refusal; \<open>why\<close> is the library's account of a corrupt text.\<close>

definition load_failure_text :: "(string \<Rightarrow> string) \<Rightarrow> string \<Rightarrow> string \<Rightarrow> load_failure \<Rightarrow> string" where
  "load_failure_text quoted why path f =
     (case f of
        ReadFailed e \<Rightarrow> ''reading registry '' @ path @ '': '' @ e
      | CorruptFile \<Rightarrow> ''registry '' @ path @ '' is corrupt: '' @ why @
          ''. the file was left untouched; inspect or restore it, or move it aside to start fresh''
      | Refused (WrongVersion v) \<Rightarrow> ''registry '' @ path @ '' has version '' @ itoa v @ '', expected '' @ itoa current_version @
          ''. this build cannot read it; upgrade haigosmart or move the file aside''
      | Refused NoDeviceId \<Rightarrow> ''registry '' @ path @ '' contains a bulb with no device id''
      | Refused (DuplicateDevice i) \<Rightarrow> ''registry '' @ path @ '' contains duplicate device id '' @ quoted i
      | Refused (ReusedName n owner i) \<Rightarrow>
          ''registry '' @ path @ '' reuses name '' @ quoted n @ '' for '' @ owner @ '' and '' @ i)"

section \<open>Scanning the indented text\<close>

lemma lex_new_line: "lex (new_line n @ r) = lex r"
proof -
  have "lex (replicate k CHR '' '' @ r) = lex r" for k
    by (induction k) (simp_all add: lex.simps(2) json_space_def)
  then show ?thesis by (simp add: new_line_def lex.simps(2) json_space_def)
qed

lemma delimited_new_line: "delimited (new_line n @ r)"
  by (simp add: new_line_def delimited_def number_char_def is_digit_def)

lemma lex_join_lines:
  assumes "\<And>x r. x \<in> set xs \<Longrightarrow> delimited r \<Longrightarrow> lex (f x @ r) = map_option ((@) (g x)) (lex r)"
    and "delimited r"
  shows "lex (join (CHR '','' # new_line n) (map f xs) @ r) = map_option ((@) (tjoin (map g xs))) (lex r)"
  using assms
proof (induction xs rule: induct_list012)
  case 1
  then show ?case by (cases "lex r") auto
next
  case (3 x y zs)
  have "lex (f x @ CHR '','' # new_line n @ join (CHR '','' # new_line n) (map f (y # zs)) @ r) =
      map_option ((@) (g x)) (lex (CHR '','' # new_line n @ join (CHR '','' # new_line n) (map f (y # zs)) @ r))"
    by (rule "3.prems") simp_all
  also have "lex (join (CHR '','' # new_line n) (map f (y # zs)) @ r) = map_option ((@) (tjoin (map g (y # zs)))) (lex r)"
    by (rule "3.IH") (use "3.prems" in auto)
  ultimately show ?case by (cases "lex r") (simp_all add: lex_new_line)
qed simp

lemma lex_colon_space: "lex ('': '' @ r) = map_option ((#) TColon) (lex r)"
  by (simp add: lex.simps(2) json_space_def punct_def)

text \<open>
  What the text of a tree stands for: bytes that are not UTF-8 are the replacement character in it.
\<close>

fun cleaned :: "json \<Rightarrow> json" where
  "cleaned (JStr s) = JStr (sanitize s)"
| "cleaned (JArr js) = JArr (map cleaned js)"
| "cleaned (JObj kvs) = JObj (map (\<lambda>p. (sanitize (fst p), cleaned (snd p))) kvs)"
| "cleaned j = j"

fun numbers_ok :: "json \<Rightarrow> bool" where
  "numbers_ok (JNum s) = valid_number s"
| "numbers_ok (JArr js) = list_all numbers_ok js"
| "numbers_ok (JObj kvs) = list_all (\<lambda>p. numbers_ok (snd p)) kvs"
| "numbers_ok _ = True"

lemma depth_cleaned: "json_depth (cleaned j) = json_depth j"
proof (induction j rule: cleaned.induct)
  case (2 js)
  have "foldr (\<lambda>j n. max (json_depth j) n) (map cleaned js) 0 = foldr (\<lambda>j n. max (json_depth j) n) js 0"
    using 2 by (induction js) simp_all
  then show ?case by simp
next
  case (3 kvs)
  have "foldr (\<lambda>p n. max (json_depth (snd p)) n) (map (\<lambda>p. (sanitize (fst p), cleaned (snd p))) kvs) 0 =
      foldr (\<lambda>p n. max (json_depth (snd p)) n) kvs 0"
    using 3 by (induction kvs) fastforce+
  then show ?case by simp
qed simp_all

lemma lex_marshal_indent:
  "numbers_ok j \<Longrightarrow> delimited r \<Longrightarrow> lex (marshal_indent n j @ r) = map_option ((@) (toks (cleaned j))) (lex r)"
proof (induction n j arbitrary: r rule: marshal_indent.induct)
  case (1 n)
  then show ?case using lex_literals(1) [of r] by (cases "lex r") auto
next
  case (2 n b)
  then show ?case using lex_literals(2,3) [of r] by (cases "lex r") auto
next
  case (3 n s)
  then show ?case by (cases "lex r") (auto simp: lex_number)
next
  case (4 n s)
  then show ?case by (cases "lex r") (auto simp: lex_quote_any)
next
  case (5 n js)
  have "lex (join (CHR '','' # new_line (Suc n)) (map (marshal_indent (Suc n)) js) @ new_line n @ CHR '']'' # r) =
      map_option ((@) (tjoin (map (\<lambda>j. toks (cleaned j)) js))) (lex (new_line n @ CHR '']'' # r))" if "js \<noteq> []"
    by (rule lex_join_lines) (use 5 that in \<open>auto simp: list_all_iff delimited_new_line\<close>)
  then show ?case by (cases "lex r") (auto simp: lex_new_line comp_def)
next
  case (6 n kvs)
  let ?line = "\<lambda>(k, v). quote k @ '': '' @ marshal_indent (Suc n) v"
  have "lex (join (CHR '','' # new_line (Suc n)) (map ?line kvs) @ new_line n @ CHR ''}'' # r) =
      map_option ((@) (tjoin (map (\<lambda>p. TStr (sanitize (fst p)) # TColon # toks (cleaned (snd p))) kvs)))
        (lex (new_line n @ CHR ''}'' # r))"
    if ne: "kvs \<noteq> []"
  proof (rule lex_join_lines)
    fix x r assume x: "x \<in> set kvs" and r: "delimited r"
    obtain k v where kv: "x = (k, v)" by (cases x)
    have "numbers_ok v" using 6 x kv by (auto simp: list_all_iff)
    then have "lex (marshal_indent (Suc n) v @ r) = map_option ((@) (toks (cleaned v))) (lex r)"
      using "6.IH" [OF ne x kv [symmetric] _ r] by simp
    then show "lex (?line x @ r) = map_option ((@) (TStr (sanitize (fst x)) # TColon # toks (cleaned (snd x)))) (lex r)"
      using kv lex_colon_space [of "marshal_indent (Suc n) v @ r"] by (cases "lex r") (auto simp: lex_quote_any)
  qed (simp add: delimited_new_line)
  then show ?case by (cases "lex r") (auto simp: lex_new_line comp_def)
qed

lemma json_parse_indent:
  assumes "numbers_ok j" "json_depth j \<le> max_nesting"
  shows "json_parse (marshal_indent n j) = Some (cleaned j)"
proof -
  have "lex (marshal_indent n j @ []) = map_option ((@) (toks (cleaned j))) (lex [])"
    by (rule lex_marshal_indent) (use assms in simp_all)
  then have "lex (marshal_indent n j) = Some (toks (cleaned j))" by simp
  moreover have "pval [] (toks (cleaned j) @ []) = pnext (cleaned j) [] []"
    by (rule pval_toks) (use assms in \<open>simp add: depth_cleaned\<close>)
  ultimately show ?thesis by (simp add: json_parse_def)
qed

section \<open>Decoding what was encoded\<close>

lemma valid_utf8_format: "format_time off t = Some s \<Longrightarrow> valid_utf8 s"
proof -
  have pad: "list_all (\<lambda>c. code c < 0x80) (pad_num k n)" for k n
    using pad_num_digits(2) [of k n] by (auto simp: list_all_iff digit_ascii)
  have frac: "list_all (\<lambda>c. code c < 0x80) (nanos_text n)" for n
    using pad [of 9 n] unfolding nanos_text_def list_all_iff by (auto dest: set_dropWhileD)
  have zone: "list_all (\<lambda>c. code c < 0x80) (zone_text n)" for n
    using pad by (auto simp: zone_text_def Let_def simp del: pad_num.simps)
  show "format_time off t = Some s \<Longrightarrow> valid_utf8 s"
    using pad frac zone
    by (auto simp: format_time_def Let_def case_prod_beta intro!: valid_utf8_ascii split: if_splits simp del: pad_num.simps)
qed

lemma dec_byte_uint: "dec_byte (jint (uint b)) v = (b, True)"
proof -
  have "uint b < 256" "0 \<le> uint b" using uint_lt2p [of b] by simp_all
  then show ?thesis by (simp add: dec_byte_def jint_def itoa_def)
qed

lemma time_json_ok: "time_json zone t = Some j \<Longrightarrow> cleaned j = j \<and> numbers_ok j \<and> json_depth j = 0"
  by (auto simp: time_json_def sanitize_valid valid_utf8_format)

lemma dec_time_json: "time_json zone t = Some j \<Longrightarrow> zone t mod 60 = 0 \<Longrightarrow> dec_time lenient (cleaned j) v = (t, True)"
  using time_json_ok [of zone t j] by (auto simp: time_json_def dec_time_def parse_time_def dest!: parse_format)

lemma cleaned_jint [simp]: "cleaned (jint n) = jint n" "numbers_ok (jint n)" "json_depth (jint n) = 0"
  by (simp_all add: jint_def)

lemma dec_caps_json: "dec_caps (cleaned (caps_json c)) v = (c, True)"
  by (cases c) (simp add: sanitize_valid dec_caps_def caps_json_def dec_struct_def find_field_def field_def dec_bool_def dec_byte_uint Let_def)

lemma dec_light_json:
  assumes "light_json zone s = Some j" "zone (reported_at s) mod 60 = 0"
  shows "dec_light lenient (cleaned j) v = (s, True)"
proof -
  obtain t where t: "time_json zone (reported_at s) = Some t" using assms(1) by (auto simp: light_json_def)
  show ?thesis
    using assms(1) dec_time_json [OF t assms(2)]
    by (auto simp: light_json_def t sanitize_valid dec_light_def dec_struct_def find_field_def field_def dec_bool_def dec_byte_uint Let_def)
qed

lemma light_json_ok: "light_json zone s = Some j \<Longrightarrow> numbers_ok j \<and> json_depth j \<le> 1"
  by (auto simp: light_json_def dest!: time_json_ok)

text \<open>The times of an entry are shown in zones of whole minutes.\<close>

definition whole_minutes :: "(time \<Rightarrow> int) \<Rightarrow> stored_bulb \<Rightarrow> bool" where
  "whole_minutes zone sb \<longleftrightarrow>
     zone (s_first_seen sb) mod 60 = 0 \<and> zone (s_last_seen sb) mod 60 = 0 \<and> zone (reported_at (s_state sb)) mod 60 = 0"

definition clean_stored :: "stored_bulb \<Rightarrow> stored_bulb" where
  "clean_stored sb =
     sb\<lparr>s_device_id := sanitize (s_device_id sb), s_name := sanitize (s_name sb), s_firmware := sanitize (s_firmware sb)\<rparr>"

definition clean_file :: "reg_file \<Rightarrow> reg_file" where
  "clean_file f = f\<lparr>file_bulbs := map clean_stored (file_bulbs f)\<rparr>"

lemma stored_json_cases:
  assumes "stored_json zone sb = Some j"
  obtains first last state where "time_json zone (s_first_seen sb) = Some first" "time_json zone (s_last_seen sb) = Some last"
    "light_json zone (s_state sb) = Some state"
    "j = JObj ([(''device_id'', JStr (s_device_id sb)), (''name'', JStr (s_name sb)), (''first_seen'', first),
         (''last_seen'', last), (''capabilities'', caps_json (s_capabilities sb))] @
       (if s_firmware sb = [] then [] else [(''firmware'', JStr (s_firmware sb))]) @ [(''state'', state)])"
  using assms unfolding stored_json_def by (auto simp: bind_eq_Some_conv)

lemma dec_stored_json:
  assumes "stored_json zone sb = Some j" "whole_minutes zone sb"
  shows "dec_stored lenient (cleaned j) zero_stored = (clean_stored sb, True)" "numbers_ok j" "json_depth j \<le> 2"
proof -
  obtain first last state where j: "time_json zone (s_first_seen sb) = Some first" "time_json zone (s_last_seen sb) = Some last"
    "light_json zone (s_state sb) = Some state"
    "j = JObj ([(''device_id'', JStr (s_device_id sb)), (''name'', JStr (s_name sb)), (''first_seen'', first),
         (''last_seen'', last), (''capabilities'', caps_json (s_capabilities sb))] @
       (if s_firmware sb = [] then [] else [(''firmware'', JStr (s_firmware sb))]) @ [(''state'', state)])"
    using stored_json_cases [OF assms(1)] by blast
  have "dec_time lenient (cleaned first) v = (s_first_seen sb, True)" "dec_time lenient (cleaned last) v = (s_last_seen sb, True)"
    "dec_light lenient (cleaned state) w = (s_state sb, True)" for v w
    using dec_time_json [OF j(1)] dec_time_json [OF j(2)] dec_light_json [OF j(3)] assms(2) by (simp_all add: whole_minutes_def)
  then show "dec_stored lenient (cleaned j) zero_stored = (clean_stored sb, True)"
    by (cases sb)
      (simp add: j(4) sanitize_valid dec_stored_def dec_struct_def find_field_def field_def dec_caps_json zero_stored_def clean_stored_def Let_def)
  show "numbers_ok j" "json_depth j \<le> 2"
    using time_json_ok [OF j(1)] time_json_ok [OF j(2)] light_json_ok [OF j(3)] by (simp_all add: j(4) caps_json_def)
qed

lemma dec_elements_json:
  "those (map (stored_json zone) sbs) = Some js \<Longrightarrow> list_all (whole_minutes zone) sbs \<Longrightarrow>
    dec_elements zero_stored (dec_stored lenient) (map cleaned js) [] = (map clean_stored sbs, True) \<and>
    list_all (\<lambda>j. numbers_ok j \<and> json_depth j \<le> 2) js"
proof (induction sbs arbitrary: js)
  case (Cons sb sbs)
  obtain j js' where js: "js = j # js'" "stored_json zone sb = Some j" "those (map (stored_json zone) sbs) = Some js'"
    using Cons.prems(1) by (auto split: option.splits)
  show ?case
    using Cons.IH [OF js(3)] Cons.prems(2) dec_stored_json [OF js(2)] by (simp add: js(1) Let_def)
qed simp

lemma foldr_max_le: "list_all (\<lambda>x. f x \<le> (k :: nat)) xs \<Longrightarrow> foldr (\<lambda>x n. max (f x) n) xs 0 \<le> k"
  by (induction xs) simp_all

text \<open>The bytes of a file are read back as that file, its strings as texts.\<close>

lemma load_store_text:
  assumes "file_text zone f = Some b" "list_all (whole_minutes zone) (file_bulbs f)" "int64_range (file_version f)"
  shows "load_store lenient (Contents b) = map_err Refused (load_file (Some (clean_file f)))"
proof -
  obtain js where js: "those (map (stored_json zone) (file_bulbs f)) = Some js"
    and b: "b = bytes_of (marshal_indent 0 (JObj [(''version'', jint (file_version f)), (''bulbs'', JArr js)]))"
    using assms(1) by (auto simp: file_text_def file_json_def)
  let ?j = "JObj [(''version'', jint (file_version f)), (''bulbs'', JArr js)]"
  note el = dec_elements_json [OF js assms(2), of lenient]
  have "foldr (\<lambda>j n. max (json_depth j) n) js 0 \<le> 2" by (rule foldr_max_le) (use el in \<open>simp add: list_all_iff\<close>)
  then have "numbers_ok ?j" "json_depth ?j \<le> max_nesting" using el by (simp_all add: max_nesting_def list_all_iff)
  then have p: "json_parse (marshal_indent 0 ?j) = Some (cleaned ?j)" by (rule json_parse_indent)
  have "unmarshal (dec_file lenient) \<lparr>file_version = 0, file_bulbs = []\<rparr> (str_of b) = Some (clean_file f)"
    using el assms(3)
    by (simp add: unmarshal_def b p sanitize_valid dec_file_def dec_struct_def find_field_def field_def dec_slice_def Let_def
        clean_file_def del: marshal_indent.simps)
  then show ?thesis by (simp add: load_store_def)
qed

text \<open>Every string of the registry is a text, and its times are shown in zones of whole minutes.\<close>

definition writable :: "(time \<Rightarrow> int) \<Rightarrow> stored_bulb \<Rightarrow> bool" where
  "writable zone sb \<longleftrightarrow>
     whole_minutes zone sb \<and> valid_utf8 (s_device_id sb) \<and> valid_utf8 (s_name sb) \<and> valid_utf8 (s_firmware sb)"

definition all_writable :: "(time \<Rightarrow> int) \<Rightarrow> registry \<Rightarrow> bool" where
  "all_writable zone r \<longleftrightarrow> list_all (\<lambda>b. writable zone (store_bulb b)) (map snd (bulbs r))"

lemma load_store_saved:
  assumes "file_text zone (file_of r) = Some b" "all_writable zone r"
  shows "load_store lenient (Contents b) = map_err Refused (load_file (Some (file_of r)))"
proof -
  have "set (snapshot r) = set (map snd (bulbs r))" by (simp add: snapshot_def list_bulbs_def)
  then have w: "list_all (writable zone) (file_bulbs (file_of r))"
    using assms(2) by (simp add: file_of_def all_writable_def list_all_iff)
  then have "map clean_stored (file_bulbs (file_of r)) = file_bulbs (file_of r)"
    by (intro map_idI) (auto simp: list_all_iff writable_def clean_stored_def sanitize_valid)
  then have "clean_file (file_of r) = file_of r" by (simp add: clean_file_def)
  moreover have "list_all (whole_minutes zone) (file_bulbs (file_of r))"
    using w by (simp add: list_all_iff writable_def)
  ultimately show ?thesis
    using load_store_text [OF assms(1), of lenient] by (simp add: file_of_def current_version_def int64_range_def)
qed

text \<open>What a registry is after a restart: the same lamps, none of them connected.\<close>

definition reloaded :: "registry \<Rightarrow> registry \<Rightarrow> bool" where
  "reloaded r r' \<longleftrightarrow>
     (\<forall>i. lookup_bulb r' i =
       map_option (\<lambda>b. b\<lparr>status := Disconnected, desired := None, remote_addr := [], driver := None\<rparr>) (lookup_bulb r i))"

lemma saved_reloads:
  assumes "reg_ok r" "names_unique r" "lookup_bulb r [] = None" "all_writable zone r" "file_text zone (file_of r) = Some b"
  shows "\<exists>r'. load_store lenient (Contents b) = Inr r' \<and> reg_ok r' \<and> reloaded r r'"
proof -
  obtain r' where r': "load_file (Some (file_of r)) = Inr r'"
    using load_accepts [of "file_of r"] file_of_ok [OF assms(1-3)] by blast
  have "restore_bulb (store_bulb b) = b\<lparr>status := Disconnected, desired := None, remote_addr := [], driver := None\<rparr>" for b
    by (simp add: restore_bulb_def store_bulb_def zero_bulb_def)
  then show ?thesis
    using load_store_saved [OF assms(5,4), of lenient] r' load_file_of [OF assms(1) r'] durable_load [OF r']
    by (auto simp: reloaded_def)
qed

section \<open>Properties\<close>


text \<open>A registry of one lamp, seen half a second past noon on a leap day, two hours east of Greenwich.\<close>

abbreviation leap_day :: time where
  "leap_day \<equiv> 1709200800500000000"

abbreviation one_lamp :: registry where
  "one_lamp \<equiv> run_op (OpUpsert ''a'' ''addr'' no_caps leap_day) new_registry"

definition demo_zone :: "time \<Rightarrow> int" where
  "demo_zone t = (if t = zero_time then 0 else 7200)"

lemma leap_day_text: "format_time 7200 leap_day = Some ''2024-02-29T12:00:00.5+02:00''"
  by code_simp

lemma one_lamp_ready:
  "reg_ok one_lamp" "names_unique one_lamp" "lookup_bulb one_lamp [] = None" "all_writable demo_zone one_lamp"
  "file_text demo_zone (file_of one_lamp) \<noteq> None"
proof -
  have fresh: "\<not> id_clash (OpUpsert ''a'' ''addr'' no_caps leap_day) new_registry" by (simp add: id_clash_def new_registry_def)
  show "reg_ok one_lamp" by (rule reg_ok_op [OF reg_ok_new])
  show "names_unique one_lamp" by (rule names_unique_op [OF reg_ok_new names_unique_new fresh])
  show "lookup_bulb one_lamp [] = None" "all_writable demo_zone one_lamp"
    "file_text demo_zone (file_of one_lamp) \<noteq> None"
    by code_simp+
qed




section \<open>Where the code falls short\<close>

text \<open>
  An identity is any bytes, a file is text: bytes that are not UTF-8 are replaced when it is written. Two
  devices whose ids differ in such bytes only are one id in the file, and \<open>Load\<close> refuses it.
\<close>

lemma broken_text_refused:
  "\<exists>r b. r = run_op (OpUpsert [CHR 0xFE] ''addr'' no_caps leap_day) (run_op (OpUpsert [CHR 0xFF] ''addr'' no_caps leap_day) new_registry) \<and>
    reg_ok r \<and> names_unique r \<and> file_text demo_zone (file_of r) = Some b \<and>
    load_store (\<lambda>_. None) (Contents b) = Inl (Refused (DuplicateDevice rune_error))"
proof -
  let ?a = "OpUpsert [CHR 0xFF] ''addr'' no_caps leap_day" and ?b = "OpUpsert [CHR 0xFE] ''addr'' no_caps leap_day"
  let ?r1 = "run_op ?a new_registry" let ?r = "run_op ?b ?r1"
  have fresh: "\<not> id_clash ?a new_registry" "\<not> id_clash ?b ?r1" by code_simp+
  have r1: "reg_ok ?r1" "names_unique ?r1" by (rule reg_ok_op [OF reg_ok_new], rule names_unique_op [OF reg_ok_new names_unique_new fresh(1)])
  have "reg_ok ?r" "names_unique ?r" by (rule reg_ok_op [OF r1(1)], rule names_unique_op [OF r1 fresh(2)])
  moreover have "file_text demo_zone (file_of ?r) \<noteq> None" by code_simp
  then obtain b where b: "file_text demo_zone (file_of ?r) = Some b" by blast
  moreover have "list_all (whole_minutes demo_zone) (file_bulbs (file_of ?r))" by code_simp
  moreover have "int64_range (file_version (file_of ?r))" by code_simp
  moreover have "load_file (Some (clean_file (file_of ?r))) = Inl (DuplicateDevice rune_error)" by code_simp
  ultimately show ?thesis using load_store_text [OF b, of "\<lambda>_. None"] by (simp del: run_op.simps)
qed

end
