(* ===== verification/Boot.thy ===== *)
theory Boot
  imports Daemon RegText
begin

text \<open>
  Starting from what is on the disk, \<open>cmd/haigosmartd/main.go\<close>: settings, records, the bytes of the
  registry file, the configured lamps, and what a start that is refused leaves behind.
\<close>

section \<open>A start\<close>

record boot_env =
  be_home :: "string option"
  be_args :: "string list"
  be_env :: "string \<Rightarrow> string"
  be_temp :: string
  be_log_error :: "string option"
  be_lenient :: "string \<Rightarrow> time option"

datatype boot_error =
    BadSettings config_error
  | BadConfiguration invalid
  | NoLog string
  | NoRegistry load_failure
  | LampTaken lamp registry_error

text \<open>The registry as \<open>declareLamps\<close> leaves it, also when it stops at a lamp it cannot declare.\<close>

fun declare_until :: "lamp list \<Rightarrow> registry \<Rightarrow> registry" where
  "declare_until [] r = r"
| "declare_until (l # ls) r =
     (case declare_bulb (lamp_id l) (lamp_name l) r of
        Inl e \<Rightarrow> r
      | Inr (_, r1) \<Rightarrow> declare_until ls r1)"

text \<open>
  \<open>run\<close> up to the listener. Once the registry is loaded its store is closed on every way out, so a refusal
  then comes with the registry as it was loaded and as it is.
\<close>

definition boot ::
  "boot_env \<Rightarrow> read_result \<Rightarrow> (boot_error \<times> (registry \<times> registry) option) + (config \<times> (log_target \<times> bool) \<times> world)" where
  "boot E raw =
     (case load_config (be_home E) (be_args E) (be_env E) of
        Inl e \<Rightarrow> Inl (BadSettings e, None)
      | Inr cfg \<Rightarrow>
          (case validate cfg of
             Some e \<Rightarrow> Inl (BadConfiguration e, None)
           | None \<Rightarrow>
               (case new_logger (be_temp E) (cf_log_path cfg) (cf_headless cfg) (cf_verbose cfg) (be_log_error E) of
                  Inl e \<Rightarrow> Inl (NoLog e, None)
                | Inr recs \<Rightarrow>
                    (case load_store (be_lenient E) raw of
                       Inl e \<Rightarrow> Inl (NoRegistry e, None)
                     | Inr r \<Rightarrow>
                         (case declare_lamps cfg r of
                            Inl (l, e) \<Rightarrow> Inl (LampTaken l e, Some (r, declare_until (cf_lamps cfg) r))
                          | Inr (_, _, r1) \<Rightarrow> Inr (cfg, recs, new_server r1))))))"

text \<open>
  The file after the store is closed: written again exactly if something changed since it was loaded;
  \<open>ok\<close> says whether the write succeeds.
\<close>

definition closed_file :: "(time \<Rightarrow> int) \<Rightarrow> bool \<Rightarrow> read_result \<Rightarrow> registry \<times> registry \<Rightarrow> read_result" where
  "closed_file zone ok raw rs =
     (if dirty (snd rs) = dirty (fst rs) \<or> \<not> ok then raw
      else (case file_text zone (file_of (snd rs)) of None \<Rightarrow> raw | Some b \<Rightarrow> Contents b))"

definition refused_file :: "(time \<Rightarrow> int) \<Rightarrow> bool \<Rightarrow> read_result \<Rightarrow> boot_error \<times> (registry \<times> registry) option \<Rightarrow> read_result" where
  "refused_file zone ok raw e = (case snd e of None \<Rightarrow> raw | Some rs \<Rightarrow> closed_file zone ok raw rs)"

section \<open>Facts\<close>

lemma declare_all_named:
  "declare_all ls r = Inr (ds, r') \<Longrightarrow> l \<in> set ls \<Longrightarrow> trim_space (lamp_id l) \<noteq> [] \<and> trim_space (lamp_name l) \<noteq> []"
  by (induction ls arbitrary: r ds) (auto simp: and_then_Inr_iff declare_bulb_def split: if_splits sum.splits)

text \<open>Lamps that are there under their configured names are left as they are.\<close>

lemma declare_known:
  assumes "reg_ok r" "names_unique r"
    "\<forall>l\<in>set ls. trim_space (lamp_id l) \<noteq> [] \<and> trim_space (lamp_name l) \<noteq> [] \<and>
      (\<exists>x. lookup_bulb r (lamp_id l) = Some x \<and> bulb_name x = lamp_name l \<and> status x = Disconnected)"
  shows "\<exists>ds r'. declare_all ls r = Inr (ds, r') \<and> (\<forall>i. lookup_bulb r' i = lookup_bulb r i) \<and> dirty r' = dirty r"
  using assms
proof (induction ls arbitrary: r)
  case (Cons l ls)
  obtain x where x: "lookup_bulb r (lamp_id l) = Some x" "bulb_name x = lamp_name l" "status x = Disconnected"
    using Cons.prems(3) by auto
  have "name_owner r (lamp_id l) (lamp_name l) = None"
    using Cons.prems(2) x unfolding name_owner_None [OF Cons.prems(1)] by (fastforce simp: names_unique_def)
  then have d: "declare_bulb (lamp_id l) (lamp_name l) r = Inr ((False, False), put_bulb (lamp_id l) x r)"
    using Cons.prems(3) x by (simp add: declare_bulb_def)
  let ?r = "put_bulb (lamp_id l) x r"
  have same: "lookup_bulb ?r i = lookup_bulb r i" for i using x(1) by (simp add: reg_simps)
  have ok: "reg_ok ?r" using reg_ok_op [OF Cons.prems(1), of "OpDeclare (lamp_id l) (lamp_name l)"] d by simp
  have "names_unique ?r" using Cons.prems(2) by (simp add: names_unique_def same)
  from Cons.IH [OF ok this] Cons.prems(3) obtain ds r' where
    "declare_all ls ?r = Inr (ds, r')" "\<forall>i. lookup_bulb r' i = lookup_bulb ?r i" "dirty r' = dirty ?r" by (auto simp: same)
  moreover have "dirty ?r = dirty r" by (simp add: put_bulb_def)
  ultimately show ?case by (auto simp: d and_then_def same)
qed auto

lemma boot_Inr:
  assumes "boot E raw = Inr (cfg, recs, w)"
  obtains r ds rest r1 where "load_config (be_home E) (be_args E) (be_env E) = Inr cfg" "validate cfg = None"
    "new_logger (be_temp E) (cf_log_path cfg) (cf_headless cfg) (cf_verbose cfg) (be_log_error E) = Inr recs"
    "load_store (be_lenient E) raw = Inr r" "declare_lamps cfg r = Inr (ds, rest, r1)" "w = new_server r1"
  using assms by (auto simp: boot_def split: sum.splits option.splits prod.splits)

section \<open>Properties\<close>

text \<open>
  An instance comes back as it was. Whatever happened since it started, if the configured lamps still
  carry their names and no two lamps share one, then an instance started with the same settings on
  the file it saved starts, with the same configuration, with every lamp as it was but for its
  connection, with no session, and with nothing to write back.
\<close>

theorem instance_restarts:
  assumes "boot E raw = Inr (cfg, recs, w0)"
    "reg_ok r" "names_unique r" "lookup_bulb r [] = None" "all_writable zone r" "file_text zone (file_of r) = Some b"
    "\<forall>l\<in>set (cf_lamps cfg). \<exists>x. lookup_bulb r (lamp_id l) = Some x \<and> bulb_name x = lamp_name l"
  shows "\<exists>w r0. boot E (Contents b) = Inr (cfg, recs, w) \<and> load_store (be_lenient E) (Contents b) = Inr r0 \<and>
    dirty (w_reg w) = dirty r0 \<and> w_sessions w = Map.empty \<and>
    (\<forall>i. lookup_bulb (w_reg w) i = map_option
       (\<lambda>b. b\<lparr>status := Disconnected, desired := None, remote_addr := [], driver := None\<rparr>) (lookup_bulb r i))"
proof -
  from assms(1) obtain r1 ds rest r2 where s: "load_config (be_home E) (be_args E) (be_env E) = Inr cfg" "validate cfg = None"
    "new_logger (be_temp E) (cf_log_path cfg) (cf_headless cfg) (cf_verbose cfg) (be_log_error E) = Inr recs"
    "declare_lamps cfg r1 = Inr (ds, rest, r2)" by (rule boot_Inr)
  from s(4) have all: "\<exists>r3. declare_all (cf_lamps cfg) r1 = Inr (ds, r3)"
    by (auto simp: declare_lamps_def and_then_Inr_iff)
  obtain r0 where r0: "load_store (be_lenient E) (Contents b) = Inr r0" "reg_ok r0" "reloaded r r0"
    using saved_reloads [OF assms(2-6)] by blast
  have u: "names_unique r0" using assms(3) r0(3) by (fastforce simp: names_unique_def reloaded_def)
  have "\<forall>l\<in>set (cf_lamps cfg). trim_space (lamp_id l) \<noteq> [] \<and> trim_space (lamp_name l) \<noteq> [] \<and>
      (\<exists>x. lookup_bulb r0 (lamp_id l) = Some x \<and> bulb_name x = lamp_name l \<and> status x = Disconnected)"
    using assms(7) r0(3) all declare_all_named by (fastforce simp: reloaded_def)
  from declare_known [OF r0(2) u this] obtain ds' r3 where
    d: "declare_all (cf_lamps cfg) r0 = Inr (ds', r3)" "\<forall>i. lookup_bulb r3 i = lookup_bulb r0 i" "dirty r3 = dirty r0" by blast
  have "boot E (Contents b) = Inr (cfg, recs, new_server r3)"
    by (simp add: boot_def s r0(1) declare_lamps_def d(1) and_then_def)
  then show ?thesis using d(2,3) r0 by (auto simp: new_server_def reloaded_def)
qed


definition demo_boot :: boot_env where
  "demo_boot = \<lparr>be_home = None, be_args = demo_args, be_env = (\<lambda>_. []), be_temp = ''/tmp'', be_log_error = None, be_lenient = (\<lambda>_. None)\<rparr>"

lemma demo_first_boot: "boot demo_boot Missing = Inr (demo_config, (FatalStdout, False), new_server demo_declared)"
proof -
  have "validate demo_config = None" by code_simp
  moreover have "new_logger ''/tmp'' (cf_log_path demo_config) (cf_headless demo_config) (cf_verbose demo_config) None = Inr (FatalStdout, False)"
    by (simp add: new_logger_def demo_config_def)
  moreover have "declare_bulb ''lamp'' ''desk'' new_registry = Inr ((True, False), demo_declared)" by code_simp
  moreover have "cf_lamps demo_config = [\<lparr>lamp_id = ''lamp'', lamp_name = ''desk''\<rparr>]" by (simp add: demo_config_def)
  ultimately show ?thesis by (simp add: boot_def demo_boot_def demo_load load_store_def declare_lamps_def)
qed

theorem instance_restarts_witness:
  "\<exists>b w. file_text demo_zone (file_of demo_declared) = Some b \<and>
     boot demo_boot (Contents b) = Inr (demo_config, (FatalStdout, False), w) \<and> lookup_bulb (w_reg w) ''lamp'' \<noteq> None"
proof -
  have "declare_bulb ''lamp'' ''desk'' new_registry = Inr ((True, False), demo_declared)" by code_simp
  then have ok: "reg_ok demo_declared" using reg_ok_op [OF reg_ok_new, of "OpDeclare ''lamp'' ''desk''"] by simp
  have u: "names_unique demo_declared" by (auto simp: names_unique_def demo_declared_def reg_simps new_registry_def lookup_bulb_def split: if_splits)
  have v: "lookup_bulb demo_declared [] = None" "all_writable demo_zone demo_declared"
    "file_text demo_zone (file_of demo_declared) \<noteq> None" by code_simp+
  then obtain b where b: "file_text demo_zone (file_of demo_declared) = Some b" by blast
  have l: "\<exists>x. lookup_bulb demo_declared ''lamp'' = Some x \<and> bulb_name x = ''desk''"
    by (simp add: demo_declared_def reg_simps)
  then have "\<forall>l\<in>set (cf_lamps demo_config). \<exists>x. lookup_bulb demo_declared (lamp_id l) = Some x \<and> bulb_name x = lamp_name l"
    by (simp add: demo_config_def)
  from instance_restarts [OF demo_first_boot ok u v(1,2) b this] b l show ?thesis by fastforce
qed

section \<open>Where the code falls short\<close>

text \<open>
  A start that is refused is said to cost nothing to unwind. But the lamps declared before the one that is
  refused keep their new names, and closing the store on the way out writes them to the file.
\<close>

abbreviation two_lamps :: registry where
  "two_lamps \<equiv> run_op (OpUpsert ''c3'' ''addr'' no_caps leap_day) (run_op (OpUpsert ''a1'' ''addr'' no_caps leap_day) new_registry)"

lemma refused_start_renames:
  assumes "load_config (be_home E) (be_args E) (be_env E) = Inr cfg" "validate cfg = None" "cf_headless cfg" "cf_log_path cfg = []"
    "cf_lamps cfg = [\<lparr>lamp_id = ''a1'', lamp_name = ''desk''\<rparr>, \<lparr>lamp_id = ''b2'', lamp_name = ''c3''\<rparr>]"
    "load_store (be_lenient E) raw = Inr two_lamps"
  shows "\<exists>e r b. boot E raw = Inl (e, Some (two_lamps, r)) \<and> map_option bulb_name (lookup_bulb r ''a1'') = Some ''desk'' \<and>
    map_option bulb_name (lookup_bulb two_lamps ''a1'') = Some ''a1'' \<and>
    refused_file demo_zone True raw (e, Some (two_lamps, r)) = Contents b \<and> file_text demo_zone (file_of r) = Some b"
proof -
  let ?ls = "[\<lparr>lamp_id = ''a1'', lamp_name = ''desk''\<rparr>, \<lparr>lamp_id = ''b2'', lamp_name = ''c3''\<rparr>]"
  let ?r = "declare_until ?ls two_lamps"
  have d: "declare_all ?ls two_lamps = Inl (\<lparr>lamp_id = ''b2'', lamp_name = ''c3''\<rparr>, NameInUse ''c3'' ''c3'')" by code_simp
  have n: "map_option bulb_name (lookup_bulb ?r ''a1'') = Some ''desk''"
    "map_option bulb_name (lookup_bulb two_lamps ''a1'') = Some ''a1''" "dirty ?r \<noteq> dirty two_lamps"
    "file_text demo_zone (file_of ?r) \<noteq> None" by code_simp+
  then obtain b where b: "file_text demo_zone (file_of ?r) = Some b" by blast
  have "boot E raw = Inl (LampTaken \<lparr>lamp_id = ''b2'', lamp_name = ''c3''\<rparr> (NameInUse ''c3'' ''c3''), Some (two_lamps, ?r))"
    using assms d by (simp add: boot_def new_logger_def declare_lamps_def and_then_def del: run_op.simps declare_until.simps declare_all.simps)
  moreover have "refused_file demo_zone True raw (LampTaken \<lparr>lamp_id = ''b2'', lamp_name = ''c3''\<rparr> (NameInUse ''c3'' ''c3''), Some (two_lamps, ?r)) = Contents b"
    using n(3) b by (simp add: refused_file_def closed_file_def del: run_op.simps declare_until.simps)
  ultimately show ?thesis using n(1,2) b by blast
qed

end
