(* ===== verification/PowerCycle.thy ===== *)
theory PowerCycle
  imports Boot
begin

text \<open>
  The process from start to end, \<open>cmd/haigosmartd/main.go\<close>: \<open>main\<close> around \<open>run\<close>, the store that serves one
  instance from the file it was started on to the file it leaves behind, and the next start on that file.
\<close>

section \<open>main\<close>

text \<open>
  \<open>wording\<close> is what the settings and the flag library say of settings they refuse, \<open>q\<close> the quoting verb,
  \<open>why\<close> the library's account of a corrupt registry.
\<close>

definition boot_error_text ::
  "(config_error \<Rightarrow> string) \<Rightarrow> (string \<Rightarrow> string) \<Rightarrow> string \<Rightarrow> string \<Rightarrow> boot_error \<Rightarrow> string" where
  "boot_error_text wording q why path e =
     (case e of
        BadSettings s \<Rightarrow> wording s
      | BadConfiguration i \<Rightarrow> invalid_text q i
      | NoLog m \<Rightarrow> m
      | NoRegistry f \<Rightarrow> load_failure_text q why path f
      | LampTaken l err \<Rightarrow> ''configured lamp '' @ lamp_id l @ ''='' @ lamp_name l @ '': '' @ registry_error_text q err)"

text \<open>What the process writes to its two streams, and its exit status; \<open>e\<close> is how serving ends, if it comes to that.\<close>

definition main_program ::
  "string \<Rightarrow> (config_error \<Rightarrow> string) \<Rightarrow> (string \<Rightarrow> string) \<Rightarrow> string \<Rightarrow> string \<Rightarrow> boot_env \<Rightarrow> read_result \<Rightarrow> ending \<Rightarrow>
    string list \<times> string list \<times> int" where
  "main_program ver wording q why path E raw e =
     (if wants_version (be_args E) then ([''haigosmartd '' @ ver], [], 0)
      else
        (case boot E raw of
           Inl (err, _) \<Rightarrow> ([], main_exit (Some (boot_error_text wording q why path err)))
         | Inr _ \<Rightarrow> ([], main_exit (run_result e))))"

section \<open>The store of an instance\<close>

definition opened :: "reg_file option \<Rightarrow> registry \<Rightarrow> store" where
  "opened f r = \<lparr>reg = r, pending = False, armed = False, flights = [], disk = f\<rparr>"

text \<open>\<open>declareLamps\<close> through the store's callback.\<close>

definition declared_store :: "lamp list \<Rightarrow> store \<Rightarrow> store" where
  "declared_store ls s = fold (\<lambda>l. change (OpDeclare (lamp_id l) (lamp_name l))) ls s"

lemma declared_store_reg:
  "declare_all ls (reg s) = Inr (ds, r) \<Longrightarrow> reg (declared_store ls s) = r"
proof (induction ls arbitrary: s ds)
  case (Cons l ls)
  obtain created renamed r1 rest where d: "declare_bulb (lamp_id l) (lamp_name l) (reg s) = Inr ((created, renamed), r1)"
    "declare_all ls r1 = Inr (rest, r)"
    using Cons.prems by (auto simp: and_then_Inr_iff split: sum.splits)
  let ?s = "change (OpDeclare (lamp_id l) (lamp_name l)) s"
  have "reg ?s = r1" using d(1) by (simp add: change_cases(1))
  then show ?case using Cons.IH [of ?s rest] d(2) by (simp add: declared_store_def)
qed (simp add: declared_store_def)

lemma declared_store_steps: "(store_step failing overlap)\<^sup>*\<^sup>* s (declared_store ls s)"
proof (induction ls arbitrary: s)
  case (Cons l ls)
  have "store_step failing overlap s (change (OpDeclare (lamp_id l) (lamp_name l)) s)" by (rule changed)
  then show ?case
    using Cons.IH [of "change (OpDeclare (lamp_id l) (lamp_name l)) s"]
    by (simp add: declared_store_def converse_rtranclp_into_rtranclp)
qed (simp add: declared_store_def)

text \<open>Whatever was loaded or written names every device once and has the version of this build.\<close>

definition shaped :: "reg_file \<Rightarrow> bool" where
  "shaped f \<longleftrightarrow> file_version f = current_version \<and> distinct (map s_device_id (file_bulbs f))"

definition files_shaped :: "store \<Rightarrow> bool" where
  "files_shaped s \<longleftrightarrow> reg_ok (reg s) \<and> (\<forall>f. disk s = Some f \<or> Writing f \<in> set (flights s) \<longrightarrow> shaped f)"

lemma shaped_file_of: "reg_ok r \<Longrightarrow> shaped (file_of r)"
  using distinct_snapshot_ids [of r]
  by (simp add: shaped_def file_of_def comp_def) (simp add: store_bulb_def)

lemma files_shaped_step: "files_shaped s \<Longrightarrow> store_step failing overlap s t \<Longrightarrow> files_shaped t"
proof (erule store_stepE, goal_cases)
  case (1 op)
  then show ?case by (simp add: files_shaped_def change_cases reg_ok_op)
qed (auto simp: files_shaped_def start_flush_def take_pending_def shaped_file_of)

lemma files_shaped_steps: "(store_step failing overlap)\<^sup>*\<^sup>* s t \<Longrightarrow> files_shaped s \<Longrightarrow> files_shaped t"
  by (induction rule: rtranclp_induct) (auto intro: files_shaped_step)

lemma files_shaped_opened: "load_file f = Inr r \<Longrightarrow> files_shaped (opened f r)"
  using durable_load(2) [of f r] load_accepts
  by (cases f) (auto simp: files_shaped_def opened_def shaped_def file_ok_def)

text \<open>
  A file that holds what a registry with unique names holds is accepted, and gives back that much of it.
\<close>

lemma map_of_ids: "distinct (map s_device_id sbs) \<Longrightarrow> sb \<in> set sbs \<Longrightarrow>
    map_of (map (\<lambda>sb. (s_device_id sb, core_of (restore_bulb sb))) sbs) (s_device_id sb) = Some (core_of (restore_bulb sb))"
  by (intro map_of_is_SomeI) (auto simp: comp_def)

lemma durable_names:
  assumes "durable r' = durable r" "lookup_bulb r' i = Some b"
  shows "\<exists>c. lookup_bulb r i = Some c \<and> bulb_name c = bulb_name b"
proof -
  have "durable r i = Some (core_of b)" using fun_cong [OF assms(1), of i] assms(2) by (simp add: durable_def)
  then show ?thesis by (auto simp: durable_def core_of_def)
qed

lemma durable_names_unique: "durable r' = durable r \<Longrightarrow> names_unique r \<Longrightarrow> names_unique r'"
  unfolding names_unique_def by (metis durable_names)

lemma durable_file_loads:
  assumes "shaped f" "durable_file (Some f) = durable r" "names_unique r" "lookup_bulb r [] = None"
  shows "\<exists>r'. load_file (Some f) = Inr r' \<and> durable r' = durable r \<and> reg_ok r' \<and> names_unique r'"
proof -
  have core: "durable r (s_device_id sb) = Some (core_of (restore_bulb sb))" if "sb \<in> set (file_bulbs f)" for sb
    using map_of_ids [OF _ that] assms(1) fun_cong [OF assms(2), of "s_device_id sb"]
    by (simp add: durable_file_def shaped_def)
  have there: "\<exists>b. lookup_bulb r (s_device_id sb) = Some b \<and> bulb_name b = s_name sb" if "sb \<in> set (file_bulbs f)" for sb
    using core [OF that] by (auto simp: durable_def core_of_def restore_bulb_def zero_bulb_def)
  have "[] \<notin> s_device_id ` set (file_bulbs f)" using there assms(4) by fastforce
  moreover have "distinct (map s_name (file_bulbs f))"
    unfolding distinct_map
  proof
    show "distinct (file_bulbs f)" using assms(1) by (simp add: shaped_def distinct_map)
    show "inj_on s_name (set (file_bulbs f))"
    proof (rule inj_onI)
      fix x y assume xy: "x \<in> set (file_bulbs f)" "y \<in> set (file_bulbs f)" "s_name x = s_name y"
      then have "s_device_id x = s_device_id y" using there assms(3) unfolding names_unique_def by metis
      then show "x = y" using assms(1) xy by (auto simp: shaped_def distinct_map dest: inj_onD)
    qed
  qed
  ultimately have "file_ok f" using assms(1) by (simp add: file_ok_def shaped_def)
  then obtain r' where r': "load_file (Some f) = Inr r'" using load_accepts by blast
  note d = durable_load [OF r']
  have same: "durable r' = durable r" using d(1) assms(2) by simp
  show ?thesis using r' d(2) same durable_names_unique [OF same assms(3)] by blast
qed

text \<open>What is on the disk when the process is gone, in the zone its times are shown in.\<close>

definition left_file :: "(time \<Rightarrow> int) \<Rightarrow> reg_file option \<Rightarrow> read_result option" where
  "left_file zone f = (case f of None \<Rightarrow> Some Missing | Some f \<Rightarrow> map_option Contents (file_text zone f))"

definition file_writable :: "(time \<Rightarrow> int) \<Rightarrow> reg_file option \<Rightarrow> bool" where
  "file_writable zone f = (case f of None \<Rightarrow> True | Some f \<Rightarrow> list_all (writable zone) (file_bulbs f))"

lemma left_file_loads:
  assumes "left_file zone f = Some raw" "file_writable zone f" "\<forall>g. f = Some g \<longrightarrow> shaped g"
    "durable_file f = durable r" "names_unique r" "lookup_bulb r [] = None"
  shows "\<exists>r'. load_store lenient raw = Inr r' \<and> durable r' = durable r \<and> reg_ok r' \<and> names_unique r' \<and>
    (\<forall>i x. lookup_bulb r' i = Some x \<longrightarrow> status x = Disconnected)"
proof (cases f)
  case None
  then have "load_store lenient raw = Inr new_registry" using assms(1) by (simp add: left_file_def load_store_def)
  moreover have "durable new_registry = durable r"
    using durable_load(1) [of None new_registry] assms(4) None by (simp add: load_file_def)
  ultimately show ?thesis using reg_ok_new names_unique_new by (auto simp: lookup_bulb_def new_registry_def)
next
  case (Some g)
  obtain b where b: "file_text zone g = Some b" "raw = Contents b" using assms(1) Some by (auto simp: left_file_def)
  have g: "shaped g" "list_all (writable zone) (file_bulbs g)" using assms(2,3) Some by (simp_all add: file_writable_def)
  have "map clean_stored (file_bulbs g) = file_bulbs g"
    using g(2) by (intro map_idI) (auto simp: list_all_iff writable_def clean_stored_def sanitize_valid)
  then have clean: "clean_file g = g" by (simp add: clean_file_def)
  have "list_all (whole_minutes zone) (file_bulbs g)" using g(2) by (simp add: list_all_iff writable_def)
  moreover have "int64_range (file_version g)" using g(1) by (simp add: shaped_def current_version_def int64_range_def)
  ultimately have l: "load_store lenient raw = map_err Refused (load_file (Some g))"
    using load_store_text [OF b(1), of lenient] by (simp add: b(2) clean)
  obtain r' where r': "load_file (Some g) = Inr r'" "durable r' = durable r" "reg_ok r'" "names_unique r'"
    using durable_file_loads [OF g(1) _ assms(5,6)] assms(4) Some by blast
  then show ?thesis using l load_file_offline [OF r'(1)] by auto
qed

lemma flush_disk: "disk (flush_now ok s) \<in> {disk s, Some (file_of (reg s))}"
  by (simp add: flush_now_def)

lemma leave_disk: "disk (leave ok1 ok2 e s) \<in> {disk s, Some (file_of (reg s))}"
  using flush_disk [of ok1 s]
  by (auto simp: leave_def close_store_def flush_now_def split: ending.split)

section \<open>Properties\<close>


text \<open>A first start without a file, a signal, and the second start.\<close>

lemma demo_store:
  "declared_store (cf_lamps demo_config) (opened None new_registry) =
     \<lparr>reg = demo_declared, pending = True, armed = True, flights = [], disk = None\<rparr>"
proof -
  have d: "declare_bulb ''lamp'' ''desk'' new_registry = Inr ((True, False), demo_declared)" by code_simp
  have "dirty demo_declared \<noteq> dirty new_registry" by code_simp
  then show ?thesis by (simp add: demo_config_def declared_store_def opened_def change_def d schedule_def)
qed


end
