(* ===== verification/BrokerLife.thy ===== *)
theory BrokerLife
  imports Broker
begin

text \<open>
  A connection of the test broker from end to end, \<open>internal/mqtt/mqtttest/broker.go\<close>: \<open>serve\<close> over
  everything a client sends, and what a test can ask of the broker. What the rest of the development
  uses of it is how each packet of the program's own client is taken.
\<close>

section \<open>Serving\<close>

definition open_session :: "nat \<Rightarrow> broker \<Rightarrow> broker" where
  "open_session d b = b\<lparr>bk_sessions := (bk_sessions b)(d \<mapsto> \<lparr>bs_topics = [], bs_will = None, bs_up = True\<rparr>)\<rparr>"

definition hang_up :: "nat \<Rightarrow> broker \<Rightarrow> broker" where
  "hang_up d b = upd_broker_session d (\<lambda>s. s\<lparr>bs_up := False\<rparr>) b"

function broker_loop :: "nat \<Rightarrow> bytes \<Rightarrow> broker \<Rightarrow> broker" where
  "broker_loop d r b =
     (case broker_turn d r b of
        (None, b1) \<Rightarrow> b1
      | (Some rest, b1) \<Rightarrow> broker_loop d rest b1)"
  by pat_completeness auto
termination
  by (relation "measure (\<lambda>(d, r, b). length r)")
    (auto simp: broker_turn_def split: sum.splits prod.splits bool.splits dest: read_packet_bounded)

declare broker_loop.simps [simp del]

text \<open>\<open>stream\<close> is everything the client sends before the connection ends, which it does however \<open>serve\<close> does.\<close>

definition broker_serve :: "nat \<Rightarrow> bytes \<Rightarrow> broker \<Rightarrow> broker" where
  "broker_serve d stream b =
     hang_up d
       (let b0 = open_session d b
        in case read_packet stream of
             Inl e \<Rightarrow> b0
           | Inr (pkt, rest) \<Rightarrow>
               (case broker_connect d pkt b0 of
                  (False, b1) \<Rightarrow> b1
                | (True, b1) \<Rightarrow> broker_loop d rest b1))"

section \<open>What a test sees\<close>

definition broker_messages :: "broker \<Rightarrow> message list" where
  "broker_messages b = bk_messages b"

definition broker_retained :: "string \<Rightarrow> broker \<Rightarrow> message option" where
  "broker_retained t b = map_of (bk_retained b) t"

definition broker_connects :: "broker \<Rightarrow> nat" where
  "broker_connects b = bk_connects b"

definition broker_credentials :: "broker \<Rightarrow> (string \<times> string) list" where
  "broker_credentials b = bk_credentials b"

text \<open>\<open>WaitFor\<close> against the readings of the clock, each with what the condition is then; \<open>final\<close> is its last value.\<close>

fun wait_for :: "time \<Rightarrow> (time \<times> bool) list \<Rightarrow> bool \<Rightarrow> bool" where
  "wait_for deadline [] final = final"
| "wait_for deadline ((now, holds) # ps) final =
     (if now < deadline then (if holds then True else wait_for deadline ps final) else final)"

section \<open>Packets of the program's client\<close>

lemma turn_subscribes:
  assumes "length f < 2 ^ 16" "bk_sessions b d = Some s" "bs_up s"
  shows "\<exists>b'. broker_turn d (encode_subscribe i 0 [f] @ rest) b = (Some rest, b') \<and> bk_retained b' = bk_retained b \<and>
    bk_sessions b' d = Some (s\<lparr>bs_topics := bs_topics s @ [f]\<rparr>)"
  using assms
  by (simp add: broker_turn_def read_subscribe_packet broker_handle_def decode_subscribe_one upd_broker_session_def
      broker_write_def replay_up [of _ d "s\<lparr>bs_topics := bs_topics s @ [f]\<rparr>"] retained_matching_def
      type_publish_def type_pingreq_def type_subscribe_def)

lemma turn_pings:
  assumes "bk_sessions b d = Some s" "bs_up s"
  shows "broker_turn d (encode type_pingreq 0 [] @ rest) b = (Some rest, b\<lparr>bk_out := bk_out b @ [(d, pingresp)]\<rparr>)"
proof -
  have "read_packet (encode type_pingreq 0 [] @ rest) = Inr (\<lparr>ptype = type_pingreq, pflags = 0, pbody = []\<rparr>, rest)"
    by (rule read_encode) (simp_all add: type_pingreq_def max_packet_size_def)
  then show ?thesis using assms by (simp add: broker_turn_def broker_handle_def broker_write_def)
qed

lemma turn_ends: "\<exists>e. read_packet [] = Inl e" "broker_turn d [] b = (None, remove_session d (publish_will d b))"
  by (simp_all add: broker_turn_def read_packet_def)

text \<open>
  What a client publishes on one connection is kept topic by topic: after any stream of retained messages
  that ends without a goodbye, a topic holds the last of them about it, the last will counting as one.
\<close>

lemma loop_publishes:
  assumes "list_all (\<lambda>(t, p). length t < 2 ^ 16 \<and> length t + length p + 2 \<le> max_packet_size) ms"
  shows "broker_loop d (concat (map (\<lambda>(t, p). encode_publish_retained t p) ms)) b =
    remove_session d (publish_will d (fold (\<lambda>(t, p). broker_deliver \<lparr>m_topic = t, m_payload = p, m_retained = True\<rparr>) ms b))"
  using assms
proof (induction ms arbitrary: b)
  case Nil
  then show ?case by (simp add: broker_loop.simps turn_ends)
next
  case (Cons m ms)
  obtain t p where m: "m = (t, p)" by fastforce
  show ?case
    using Cons turn_publish_retained [of t p d "concat (map (\<lambda>(t, p). encode_publish_retained t p) ms)" b]
    by (subst broker_loop.simps) (simp add: m)
qed

end
