(* ===== verification/Wired.thy ===== *)
theory Wired
  imports Bridge BrokerLife
begin

text \<open>
  The bridge on a real line: bridge.go over the client of \<open>internal/mqtt/client.go\<close>, whose bytes a broker
  reads some time later. \<open>Bridge\<close> takes the broker for a map that is updated as the bridge publishes;
  here that map is shown to be what the broker holds once it has read what is on its way, and what
  becomes of it when a connection breaks with something still unread.
\<close>

section \<open>What the bridge says\<close>

definition keep :: "(string \<times> string) list \<Rightarrow> (string \<rightharpoonup> string) \<Rightarrow> (string \<rightharpoonup> string)" where
  "keep ms f = fold (\<lambda>(t, p) f. f(t := if p = [] then None else Some p)) ms f"

definition says :: "bridge \<Rightarrow> bridge \<Rightarrow> bool" where
  "says b b' \<longleftrightarrow> b_up b' = b_up b \<and>
     (\<exists>ms. b_sent b' = b_sent b @ ms \<and> b_retained b' = keep ms (b_retained b) \<and> (\<not> b_up b \<longrightarrow> ms = []))"

lemma keep_append [simp]: "keep [] f = f" "keep (ms @ ns) f = keep ns (keep ms f)"
  by (simp_all add: keep_def)

lemma says_refl: "says b b"
  by (simp add: says_def keep_def)

lemma says_trans: "says a b \<Longrightarrow> says b c \<Longrightarrow> says a c"
  by (auto simp: says_def)

lemma says_book: "says b (b'\<lparr>b_reported := r\<rparr>) = says b b'" "says b (b'\<lparr>b_announced := n\<rparr>) = says b b'"
  "says b (b'\<lparr>b_subscribed := u\<rparr>) = says b b'"
  by (simp_all add: says_def)

lemma says_publish: "says b (snd (bridge_publish t p b))"
  by (auto simp: says_def bridge_publish_def keep_def)

lemma says_announce: "says b (announce c lamp b)"
  using says_publish [of b] by (simp add: announce_eq says_book says_refl)

lemma says_told: "says b (publish_state c lamp b)" "says b (publish_availability c i v b)" "says b (publish_offline c b)"
  by (simp_all add: publish_state_def publish_availability_def publish_offline_def says_publish)

lemma says_remove: "says b (remove_lamp c i b)"
  by (simp add: remove_lamp_def Let_def says_book says_publish)

lemma says_fold: "says b (fold (announce c) ls b)"
  by (induction ls arbitrary: b) (auto intro: says_refl says_trans [OF says_announce])

lemma says_from: "says (b'\<lparr>b_reported := r\<rparr>) b = says b' b" "says (b'\<lparr>b_subscribed := u\<rparr>) b = says b' b"
  by (simp_all add: says_def)

lemma says_handle: "says b (bridge_handle c r e b)"
proof -
  have shown: "says b (publish_availability c i v (publish_state c lamp (announce c lamp b)))" for i v lamp b
    by (rule says_trans [OF says_announce says_trans [OF says_told(1,2)]])
  have state: "says b (publish_state c lamp (announce c lamp b))" for lamp b
    by (rule says_trans [OF says_announce says_told(1)])
  have new: "says b (publish_availability c i v (publish_state c lamp (announce c lamp (b\<lparr>b_reported := x\<rparr>))))"
    "says b (publish_state c lamp (announce c lamp (b\<lparr>b_reported := x\<rparr>)))"
    "says b (publish_availability c i v (b\<lparr>b_reported := x\<rparr>))" for i v lamp x
    using shown [of "b\<lparr>b_reported := x\<rparr>"] state [of "b\<lparr>b_reported := x\<rparr>"] says_told(2) [of "b\<lparr>b_reported := x\<rparr>"]
    by (simp_all add: says_from)
  show ?thesis
    using shown state says_announce says_refl new
    by (auto simp: bridge_handle_def Let_def split: sum.split kind.split)
qed

text \<open>\<open>OnConnect\<close>, and the part of it before the command topic is subscribed.\<close>

definition greet :: "hass_config \<Rightarrow> bridge \<Rightarrow> bridge" where
  "greet c b =
     snd (bridge_publish (status_topic c) online (snd (bridge_publish (bridge_config_topic c) (bridge_discovery c bridge_version) b)))"

lemma on_connect_greets: "on_connect c r b = fold (announce c) (list_bulbs r) ((greet c b)\<lparr>b_subscribed := True\<rparr>)"
  by (simp add: on_connect_def greet_def Let_def)

lemma says_connect: "says b (greet c b)" "says (greet c b) (on_connect c r b)"
  using says_fold [of "(greet c b)\<lparr>b_subscribed := True\<rparr>" c "list_bulbs r"]
  by (auto simp: greet_def on_connect_greets says_from intro: says_trans says_publish)

section \<open>The line\<close>

text \<open>
  What one state of the bridge has sent beyond another, handed to the client message by message; and what
  the client has written since.
\<close>

definition news :: "bridge \<Rightarrow> bridge \<Rightarrow> (string \<times> string) list" where
  "news b b' = drop (length (b_sent b)) (b_sent b')"

definition speak :: "(string \<times> string) list \<Rightarrow> 'h mqtt_client \<Rightarrow> 'h mqtt_client" where
  "speak ms cl = fold (\<lambda>(t, p) cl. snd (client_publish t (bytes_of p) True cl)) ms cl"

definition unread :: "'h mqtt_client \<Rightarrow> 'h mqtt_client \<Rightarrow> bytes" where
  "unread cl cl' = concat (map snd (drop (length (mc_written cl)) (mc_written cl')))"

record wired =
  wd_reg :: registry
  wd_bridge :: bridge
  wd_client :: "unit mqtt_client"
  wd_broker :: broker
  wd_flight :: bytes
  wd_next :: nat

definition wired_act :: "(bridge \<Rightarrow> bridge) \<Rightarrow> wired \<Rightarrow> wired" where
  "wired_act f s =
     (let b = f (wd_bridge s); cl = speak (news (wd_bridge s) b) (wd_client s)
      in s\<lparr>wd_bridge := b, wd_client := cl, wd_flight := wd_flight s @ unread (wd_client s) cl\<rparr>)"

text \<open>A client on a new connection: the subscriptions of earlier lives, then \<open>OnConnect\<close> before and after its own.\<close>

definition hello_client :: "hass_config \<Rightarrow> nat \<Rightarrow> (string \<times> string) list \<Rightarrow> (string \<times> string) list \<Rightarrow> unit mqtt_client \<Rightarrow> unit mqtt_client" where
  "hello_client c d ms ns cl = speak ns (snd (client_subscribe (command_filter c) () (speak ms (snd (session_up d cl)))))"

text \<open>
  A connection the broker accepts: CONNECT and CONNACK, the subscriptions of earlier lives, then
  \<open>OnConnect\<close>. None is an attempt that comes to nothing.
\<close>

definition wired_connect :: "hass_config \<Rightarrow> mqtt_options \<Rightarrow> wired \<Rightarrow> wired option" where
  "wired_connect c o' s =
     (let d = wd_next s; hello = client_connect_packet o';
          cl0 = (wd_client s)\<lparr>mc_wire_ok := True, mc_written := mc_written (wd_client s) @ [(d, hello)]\<rparr>
      in case read_packet hello of
           Inl e \<Rightarrow> None
         | Inr (pkt, _) \<Rightarrow>
             (case broker_connect d pkt (open_session d (wd_broker s)) of
                (False, bk) \<Rightarrow> None
              | (True, bk) \<Rightarrow>
                  (let b = (wd_bridge s)\<lparr>b_up := True\<rparr>;
                       b1 = on_connect c (wd_reg s) b;
                       cl = hello_client c d (news b (greet c b)) (news (greet c b) b1) cl0
                   in Some (s\<lparr>wd_bridge := b1, wd_client := cl, wd_broker := bk, wd_flight := unread cl0 cl, wd_next := Suc d\<rparr>))))"

text \<open>The connection breaks: what is unread is gone, and the broker that notices publishes the last will.\<close>

definition wired_lost :: "hass_config \<Rightarrow> nat \<Rightarrow> wired \<Rightarrow> wired" where
  "wired_lost c d s =
     s\<lparr>wd_bridge := (wd_bridge s)\<lparr>b_up := False, b_retained := (b_retained (wd_bridge s))(status_topic c \<mapsto> offline)\<rparr>,
       wd_client := session_down (wd_client s), wd_broker := snd (broker_turn d [] (wd_broker s)), wd_flight := []\<rparr>"

text \<open>
  The bridge's \<open>Run\<close>, \<open>OnConnect\<close> and \<open>Remove\<close>, the client's keep-alive, the broker reading packet by packet,
  and others publishing commands. \<open>lossy\<close> says whether a connection may break with something unread.
\<close>

inductive wired_step :: "hass_config \<Rightarrow> mqtt_options \<Rightarrow> bool \<Rightarrow> wired \<Rightarrow> wired \<Rightarrow> bool"
  for c :: hass_config and o' :: mqtt_options and lossy :: bool where
  w_world: "reg_ok r \<Longrightarrow> wired_step c o' lossy s (s\<lparr>wd_reg := r\<rparr>)"
| w_runs: "cl = snd (client_subscribe (command_filter c) () (wd_client s)) \<Longrightarrow>
    wired_step c o' lossy s (s\<lparr>wd_client := cl, wd_flight := wd_flight s @ unread (wd_client s) cl\<rparr>)"
| w_connects: "mc_conn (wd_client s) = None \<Longrightarrow> wired_connect c o' s = Some t \<Longrightarrow> wired_step c o' lossy s t"
| w_event: "wired_step c o' lossy s (wired_act (bridge_handle c (wd_reg s) e) s)"
| w_removes: "wired_step c o' lossy s (wired_act (remove_lamp c i) s)"
| w_stops: "wired_step c o' lossy s (wired_act (publish_offline c) s)"
| w_ticks: "keep_alive_tick d (wd_client s) = (ok, cl) \<Longrightarrow>
    wired_step c o' lossy s (s\<lparr>wd_client := cl, wd_flight := wd_flight s @ unread (wd_client s) cl\<rparr>)"
| w_reads: "mc_conn (wd_client s) = Some d \<Longrightarrow> wd_flight s \<noteq> [] \<Longrightarrow> broker_turn d (wd_flight s) (wd_broker s) = (Some rest, bk) \<Longrightarrow>
    wired_step c o' lossy s (s\<lparr>wd_broker := bk, wd_flight := rest\<rparr>)"
| w_command: "wired_step c o' lossy s (s\<lparr>wd_broker := broker_inject t p (wd_broker s)\<rparr>)"
| w_lost: "mc_conn (wd_client s) = Some d \<Longrightarrow> lossy \<or> wd_flight s = [] \<Longrightarrow> wired_step c o' lossy s (wired_lost c d s)"

definition wired_start :: "wired \<Rightarrow> bool" where
  "wired_start s \<longleftrightarrow> reg_ok (wd_reg s) \<and> wd_bridge s = new_bridge \<and> wd_client s = new_client \<and> wd_broker s = new_broker \<and>
     wd_flight s = []"

section \<open>Reading what is on its way\<close>

datatype said = Says string string | Asks "16 word" | Pings

fun said_bytes :: "hass_config \<Rightarrow> said \<Rightarrow> bytes" where
  "said_bytes c (Says t p) = encode_publish_retained t (bytes_of p)"
| "said_bytes c (Asks i) = encode_subscribe i 0 [command_filter c]"
| "said_bytes c Pings = encode type_pingreq 0 []"

definition sayable :: "string \<times> string \<Rightarrow> bool" where
  "sayable m \<longleftrightarrow> length (fst m) < 2 ^ 16 \<and> length (fst m) + length (snd m) + 2 \<le> max_packet_size"

fun said_ok :: "said \<Rightarrow> bool" where
  "said_ok (Says t p) = sayable (t, p)"
| "said_ok _ = True"

definition hear :: "said list \<Rightarrow> (string \<rightharpoonup> string) \<Rightarrow> (string \<rightharpoonup> string)" where
  "hear xs f = keep (concat (map (\<lambda>i. case i of Says t p \<Rightarrow> [(t, p)] | _ \<Rightarrow> []) xs)) f"

text \<open>What a broker holds, as texts.\<close>

definition retained_of :: "broker \<Rightarrow> string \<rightharpoonup> string" where
  "retained_of bk t = map_option (\<lambda>m. str_of (m_payload m)) (broker_retained t bk)"

lemma hear_simps:
  "hear [] f = f" "hear (xs @ ys) f = hear ys (hear xs f)" "hear (Says t p # xs) f = hear xs (keep [(t, p)] f)"
  "hear (Asks i # xs) f = hear xs f" "hear (Pings # xs) f = hear xs f"
  by (simp_all add: hear_def keep_def)

lemma hear_map: "hear (map (\<lambda>(t, p). Says t p) ms) f = keep ms f"
  by (induction ms arbitrary: f) (auto simp: hear_simps keep_def)

lemma said_nonempty: "said_bytes c i \<noteq> []"
  by (cases i) (simp_all add: encode_publish_retained_def encode_subscribe_def encode_eq)


lemma turn_said:
  assumes "said_ok i" "length (command_filter c) < 2 ^ 16" "bk_sessions bk d = Some ss" "bs_up ss"
  shows "\<exists>bk' ss'. broker_turn d (said_bytes c i @ rest) bk = (Some rest, bk') \<and> retained_of bk' = hear [i] (retained_of bk) \<and>
    bk_sessions bk' d = Some ss' \<and> bs_up ss' \<and> bs_will ss' = bs_will ss"
proof (cases i)
  case (Says t p)
  then have "broker_turn d (said_bytes c i @ rest) bk =
      (Some rest, broker_deliver \<lparr>m_topic = t, m_payload = bytes_of p, m_retained = True\<rparr> bk)"
    using assms(1) by (simp add: sayable_def turn_publish_retained)
  then show ?thesis
    using assms(3,4) Says
    by (auto simp: hear_simps keep_def retained_of_def broker_retained_def map_of_retain fun_eq_iff)
next
  case (Asks j)
  obtain bk' where "broker_turn d (encode_subscribe j 0 [command_filter c] @ rest) bk = (Some rest, bk')" "bk_retained bk' = bk_retained bk"
    "bk_sessions bk' d = Some (ss\<lparr>bs_topics := bs_topics ss @ [command_filter c]\<rparr>)"
    using turn_subscribes [OF assms(2-4)] by blast
  then show ?thesis
    using assms(4) by (simp add: Asks hear_simps retained_of_def broker_retained_def fun_eq_iff)
next
  case Pings
  then show ?thesis
    using turn_pings [OF assms(3,4)] assms(3,4) by (simp add: hear_simps retained_of_def broker_retained_def fun_eq_iff)
qed

section \<open>What the client writes\<close>

lemma unread_append: "mc_written cl' = mc_written cl @ map (Pair d) ps \<Longrightarrow> unread cl cl' = concat ps"
  by (simp add: unread_def comp_def)

text \<open>A client with a connection writes; one without drops what it is given and keeps the subscription.\<close>

lemma speak_live:
  assumes "mc_conn cl = Some d" "mc_wire_ok cl"
  shows "speak ms cl = cl\<lparr>mc_written := mc_written cl @ map (Pair d) (map (\<lambda>(t, p). encode_publish_retained t (bytes_of p)) ms)\<rparr>"
  using assms
proof (induction ms arbitrary: cl)
  case (Cons m ms)
  then show ?case
    by (cases m) (simp add: speak_def client_publish_def write_raw_def)
qed (simp add: speak_def)

lemma subscribe_live:
  assumes "mc_conn cl = Some d" "mc_wire_ok cl"
  shows "\<exists>i. snd (client_subscribe f h cl) = cl\<lparr>mc_handlers := aset f h (mc_handlers cl), mc_packet_id := i,
    mc_written := mc_written cl @ [(d, encode_subscribe i 0 [f])]\<rparr>"
  using assms
  by (intro exI [of _ "next_packet_id (mc_packet_id cl)"]) (simp add: client_subscribe_def send_subscribe_def write_raw_def Let_def)

lemma resubscribe_live:
  assumes "mc_conn cl = Some d" "mc_wire_ok cl"
  shows "\<exists>js j. snd (resubscribe fs cl) = cl\<lparr>mc_packet_id := j,
    mc_written := mc_written cl @ map (Pair d) (map2 (\<lambda>f i. encode_subscribe i 0 [f]) fs js)\<rparr> \<and> length js = length fs"
  using assms
proof (induction fs arbitrary: cl)
  case Nil
  then show ?case by (intro exI [of _ "[]"] exI [of _ "mc_packet_id cl"]) simp
next
  case (Cons f fs)
  let ?i = "next_packet_id (mc_packet_id cl)"
  let ?cl = "cl\<lparr>mc_packet_id := ?i, mc_written := mc_written cl @ [(d, encode_subscribe ?i 0 [f])]\<rparr>"
  have s: "send_subscribe f cl = (None, ?cl)"
    using Cons.prems by (simp add: send_subscribe_def write_raw_def Let_def)
  obtain js j where "snd (resubscribe fs ?cl) = ?cl\<lparr>mc_packet_id := j,
      mc_written := mc_written ?cl @ map (Pair d) (map2 (\<lambda>f i. encode_subscribe i 0 [f]) fs js)\<rparr>" "length js = length fs"
    using Cons.IH [of ?cl] Cons.prems by fastforce
  then show ?case by (intro exI [of _ "?i # js"] exI [of _ j]) (simp add: s)
qed

lemma news_says: "says b b' \<Longrightarrow> b_sent b' = b_sent b @ news b b' \<and> b_retained b' = keep (news b b') (b_retained b) \<and>
    b_up b' = b_up b \<and> (\<not> b_up b \<longrightarrow> news b b' = [])"
  by (auto simp: says_def news_def)

section \<open>The map is what the broker will hold\<close>

definition last_will :: "hass_config \<Rightarrow> message" where
  "last_will c = \<lparr>m_topic = status_topic c, m_payload = bytes_of offline, m_retained = True\<rparr>"

definition line_ok :: "hass_config \<Rightarrow> wired \<Rightarrow> bool" where
  "line_ok c s \<longleftrightarrow> fst ` set (mc_handlers (wd_client s)) \<subseteq> {command_filter c} \<and>
     (case mc_conn (wd_client s) of
        None \<Rightarrow> \<not> b_up (wd_bridge s) \<and> wd_flight s = [] \<and> retained_of (wd_broker s) = b_retained (wd_bridge s)
      | Some d \<Rightarrow> b_up (wd_bridge s) \<and> mc_wire_ok (wd_client s) \<and>
          (\<exists>ss. bk_sessions (wd_broker s) d = Some ss \<and> bs_up ss \<and> bs_will ss = Some (last_will c)) \<and>
          (\<exists>xs. wd_flight s = concat (map (said_bytes c) xs) \<and> list_all said_ok xs \<and>
             hear xs (retained_of (wd_broker s)) = b_retained (wd_bridge s)))"

lemma line_live:
  "mc_conn (wd_client s) = Some d \<Longrightarrow> line_ok c s \<longleftrightarrow> fst ` set (mc_handlers (wd_client s)) \<subseteq> {command_filter c} \<and>
     b_up (wd_bridge s) \<and> mc_wire_ok (wd_client s) \<and>
     (\<exists>ss. bk_sessions (wd_broker s) d = Some ss \<and> bs_up ss \<and> bs_will ss = Some (last_will c)) \<and>
     (\<exists>xs. wd_flight s = concat (map (said_bytes c) xs) \<and> list_all said_ok xs \<and>
        hear xs (retained_of (wd_broker s)) = b_retained (wd_bridge s))"
  by (simp add: line_ok_def)

text \<open>More is said on a live connection.\<close>

lemma line_more:
  assumes "line_ok c s" "mc_conn (wd_client s) = Some d" "mc_conn cl = Some d" "mc_wire_ok cl"
    "fst ` set (mc_handlers cl) \<subseteq> {command_filter c}" "b_up b" "list_all said_ok ys" "hear ys (b_retained (wd_bridge s)) = b_retained b"
  shows "line_ok c (s\<lparr>wd_bridge := b, wd_client := cl, wd_flight := wd_flight s @ concat (map (said_bytes c) ys)\<rparr>)"
proof -
  obtain xs where "wd_flight s = concat (map (said_bytes c) xs)" "list_all said_ok xs"
    "hear xs (retained_of (wd_broker s)) = b_retained (wd_bridge s)" using assms(1,2) by (auto simp: line_live)
  then have "wd_flight s @ concat (map (said_bytes c) ys) = concat (map (said_bytes c) (xs @ ys)) \<and> list_all said_ok (xs @ ys) \<and>
      hear (xs @ ys) (retained_of (wd_broker s)) = b_retained b"
    using assms(7,8) by (simp add: hear_simps)
  then have "\<exists>zs. wd_flight s @ concat (map (said_bytes c) ys) = concat (map (said_bytes c) zs) \<and> list_all said_ok zs \<and>
      hear zs (retained_of (wd_broker s)) = b_retained b" by blast
  then show ?thesis using assms(1,2,3-6) by (simp add: line_live)
qed

lemma says_said:
  assumes "list_all sayable ms"
  shows "map (\<lambda>(t, p). encode_publish_retained t (bytes_of p)) ms = map (said_bytes c) (map (\<lambda>(t, p). Says t p) ms)"
    "list_all said_ok (map (\<lambda>(t, p). Says t p) ms)"
  using assms by (auto simp: list_all_iff split: prod.splits)

lemma speak_written:
  assumes "mc_conn cl = Some d" "mc_wire_ok cl" "list_all sayable ms"
  shows "mc_written (speak ms cl) = mc_written cl @ map (Pair d) (map (said_bytes c) (map (\<lambda>(t, p). Says t p) ms))"
proof -
  have "mc_written (speak ms cl) = mc_written cl @ map (Pair d) (map (\<lambda>(t, p). encode_publish_retained t (bytes_of p)) ms)"
    by (simp add: speak_live [OF assms(1,2)])
  then show ?thesis unfolding says_said(1) [where c = c, OF assms(3)] .
qed

lemma line_act:
  assumes "line_ok c s" "says (wd_bridge s) (f (wd_bridge s))" "list_all sayable (b_sent (f (wd_bridge s)))"
  shows "line_ok c (wired_act f s)"
proof -
  let ?b = "wd_bridge s" and ?cl = "wd_client s"
  let ?ms = "news ?b (f ?b)"
  note n = news_says [OF assms(2)]
  have "list_all sayable (b_sent ?b @ ?ms)" using assms(3) n by simp
  then have fit: "list_all sayable ?ms" by simp
  show ?thesis
  proof (cases "mc_conn ?cl")
    case None
    then have "?ms = []" using assms(1) n by (auto simp: line_ok_def)
    then show ?thesis
      using assms(1) n None by (simp add: wired_act_def Let_def line_ok_def speak_def unread_def)
  next
    case (Some d)
    let ?cl' = "speak ?ms ?cl"
    have ok: "mc_wire_ok ?cl" "b_up ?b" using assms(1) Some by (simp_all add: line_live)
    note live = speak_live [OF Some ok(1), of ?ms]
    have "unread ?cl ?cl' = concat (map (said_bytes c) (map (\<lambda>(t, p). Says t p) ?ms))"
      by (rule unread_append) (rule speak_written [OF Some ok(1) fit])
    moreover have "hear (map (\<lambda>(t, p). Says t p) ?ms) (b_retained ?b) = b_retained (f ?b)" using n by (simp add: hear_map)
    ultimately show ?thesis
      using line_more [OF assms(1) Some, of ?cl' "f ?b" "map (\<lambda>(t, p). Says t p) ?ms"] says_said(2) [OF fit] n ok live Some assms(1)
      by (simp add: wired_act_def Let_def line_live)
  qed
qed

lemma line_reads:
  assumes "line_ok c s" "mc_conn (wd_client s) = Some d" "wd_flight s \<noteq> []" "broker_turn d (wd_flight s) (wd_broker s) = (Some rest, bk)"
    "length (command_filter c) < 2 ^ 16"
  shows "line_ok c (s\<lparr>wd_broker := bk, wd_flight := rest\<rparr>)"
proof -
  obtain ss xs where ss: "bk_sessions (wd_broker s) d = Some ss" "bs_up ss" "bs_will ss = Some (last_will c)"
    and xs: "wd_flight s = concat (map (said_bytes c) xs)" "list_all said_ok xs" "hear xs (retained_of (wd_broker s)) = b_retained (wd_bridge s)"
    using assms(1,2) by (auto simp: line_live)
  obtain x ys where x: "xs = x # ys" using xs(1) assms(3) by (cases xs) auto
  obtain bk' ss' where t: "broker_turn d (said_bytes c x @ concat (map (said_bytes c) ys)) (wd_broker s) = (Some (concat (map (said_bytes c) ys)), bk')"
    "retained_of bk' = hear [x] (retained_of (wd_broker s))" "bk_sessions bk' d = Some ss'" "bs_up ss'" "bs_will ss' = bs_will ss"
    using turn_said [where c = c, OF _ assms(5) ss(1,2)] xs(2) x by fastforce
  have e: "rest = concat (map (said_bytes c) ys)" "bk = bk'" using assms(4) t(1) by (simp_all add: xs(1) x)
  have "hear ys (retained_of bk') = b_retained (wd_bridge s)"
    using xs(3) hear_simps(2) [of "[x]" ys] by (simp add: t(2) x)
  then show ?thesis using assms(1,2) xs(2) ss(3) t(3-5) x by (auto simp: line_live e)
qed

lemma line_now:
  assumes "line_ok c s" "wd_flight s = []"
  shows "retained_of (wd_broker s) = b_retained (wd_bridge s)"
proof (cases "mc_conn (wd_client s)")
  case None
  then show ?thesis using assms(1) by (simp add: line_ok_def)
next
  case (Some d)
  then obtain xs where xs: "wd_flight s = concat (map (said_bytes c) xs)" "hear xs (retained_of (wd_broker s)) = b_retained (wd_bridge s)"
    using assms(1) by (auto simp: line_live)
  then have "xs = []" using assms(2) said_nonempty by (cases xs) auto
  then show ?thesis using xs(2) by (simp add: hear_simps)
qed

lemma retained_lost:
  assumes "bk_sessions bk d = Some ss" "bs_will ss = Some (last_will c)"
  shows "retained_of (snd (broker_turn d [] bk)) = (retained_of bk)(status_topic c \<mapsto> offline)"
  using assms
  by (auto simp: turn_ends retained_of_def broker_retained_def remove_session_def publish_will_def upd_broker_session_def Let_def
      map_of_retain last_will_def offline_def fun_eq_iff)

text \<open>When everything was read, the broker that publishes the last will holds what the bridge takes it to hold.\<close>

lemma line_lost:
  assumes "line_ok c s" "mc_conn (wd_client s) = Some d" "wd_flight s = []"
  shows "line_ok c (wired_lost c d s)"
proof -
  obtain ss where ss: "bk_sessions (wd_broker s) d = Some ss" "bs_will ss = Some (last_will c)"
    using assms(1,2) by (auto simp: line_live)
  note r = line_now [OF assms(1,3)]
  show ?thesis
    using assms(1) by (simp add: line_ok_def wired_lost_def session_down_def retained_lost [OF ss] r)
qed

text \<open>The settings of the client: the last will is the bridge's, and the CONNECT can be written.\<close>

definition hello_options :: "mqtt_options \<Rightarrow> connect_options" where
  "hello_options o' =
     \<lparr>o_client_id = mo_client_id o', o_keep_alive = word_of_int (mo_keep_alive o' div second),
      o_username = mo_username o', o_password = mo_password o', o_will_topic = mo_will_topic o',
      o_will_payload = mo_will_payload o', o_will_retain = mo_will_retain o', o_will_qos = 0, o_clean_session = True\<rparr>"

lemma hello_fields [simp]:
  "o_will_topic (hello_options o') = mo_will_topic o'" "o_will_payload (hello_options o') = mo_will_payload o'"
  "o_will_retain (hello_options o') = mo_will_retain o'"
  by (simp_all add: hello_options_def)

definition will_set :: "hass_config \<Rightarrow> mqtt_options \<Rightarrow> bool" where
  "will_set c o' \<longleftrightarrow> mo_will_topic o' = status_topic c \<and> mo_will_payload o' = bytes_of offline \<and> mo_will_retain o' \<and>
     connect_fits (hello_options o') \<and> length (command_filter c) < 2 ^ 16"

lemma hello_read:
  assumes "will_set c o'"
  shows "read_packet (client_connect_packet o') = Inr (\<lparr>ptype = type_connect, pflags = 0, pbody = connect_body (hello_options o')\<rparr>, [])"
proof -
  have "client_connect_packet o' = encode type_connect 0 (connect_body (hello_options o'))"
    by (simp add: client_connect_packet_def encode_connect_def hello_options_def)
  moreover have "length (connect_body (hello_options o')) \<le> max_packet_size"
    using assms by (intro length_connect_body) (simp add: will_set_def)
  then have "read_packet (encode type_connect 0 (connect_body (hello_options o')) @ []) =
      Inr (\<lparr>ptype = type_connect, pflags = 0, pbody = connect_body (hello_options o')\<rparr>, [])"
    by (intro read_encode) (simp_all add: type_connect_def)
  ultimately show ?thesis by simp
qed

lemma hello_welcome:
  assumes "will_set c o'"
    "broker_connect d \<lparr>ptype = type_connect, pflags = 0, pbody = connect_body (hello_options o')\<rparr> (open_session d bk) = (True, bk')"
  shows "bk_retained bk' = bk_retained bk"
    "\<exists>ss. bk_sessions bk' d = Some ss \<and> bs_up ss \<and> bs_will ss = Some (last_will c)"
proof -
  have "status_topic c \<noteq> []" by (simp add: status_topic_def)
  then have "capture_will (connect_body (hello_options o')) = Some (last_will c)"
    using capture_will_connect [of "hello_options o'"] assms(1) by (simp add: will_set_def last_will_def)
  then show "bk_retained bk' = bk_retained bk" "\<exists>ss. bk_sessions bk' d = Some ss \<and> bs_up ss \<and> bs_will ss = Some (last_will c)"
    using assms decode_connect_body [of "hello_options o'"]
    by (auto simp: will_set_def broker_connect_def broker_write_def upd_broker_session_def open_session_def Let_def split: if_splits)
qed

lemma keys_subset: "fst ` set hs \<subseteq> {f} \<Longrightarrow> fst ` set (aset f h hs) \<subseteq> {f}"
  by (simp add: keys_aset)

lemma hello_client_writes:
  assumes "mc_wire_ok cl" "fst ` set (mc_handlers cl) \<subseteq> {command_filter c}" "list_all sayable ms" "list_all sayable ns"
  shows "\<exists>js i. unread cl (hello_client c d ms ns cl) = concat (map (said_bytes c)
      (map Asks js @ map (\<lambda>(t, p). Says t p) ms @ [Asks i] @ map (\<lambda>(t, p). Says t p) ns))"
    "mc_conn (hello_client c d ms ns cl) = Some d" "mc_wire_ok (hello_client c d ms ns cl)"
    "fst ` set (mc_handlers (hello_client c d ms ns cl)) \<subseteq> {command_filter c}"
proof -
  define up where "up = cl\<lparr>mc_conn := Some d, mc_connected := True\<rparr>"
  have up: "mc_conn up = Some d" "mc_wire_ok up" "mc_handlers up = mc_handlers cl" "mc_written up = mc_written cl"
    using assms(1) by (simp_all add: up_def)
  obtain js j where 1: "snd (session_up d cl) = up\<lparr>mc_packet_id := j,
      mc_written := mc_written up @ map (Pair d) (map2 (\<lambda>f i. encode_subscribe i 0 [f]) (map fst (mc_handlers up)) js)\<rparr>"
    "length js = length (map fst (mc_handlers up))"
    using resubscribe_live [OF up(1,2), of "map fst (mc_handlers up)"] by (auto simp: session_up_def Let_def up_def)
  have asks: "map2 (\<lambda>f i. encode_subscribe i 0 [f]) (map fst hs) js = map (said_bytes c) (map Asks js)"
    if "fst ` set hs \<subseteq> {command_filter c}" "length js = length (map fst hs)" for hs :: "(string \<times> unit) list" and js
    using that by (induction hs arbitrary: js) (auto simp: length_Suc_conv)
  let ?cl1 = "snd (session_up d cl)"
  let ?cl2 = "speak ms ?cl1"
  let ?cl3 = "snd (client_subscribe (command_filter c) () ?cl2)"
  have c1: "mc_conn ?cl1 = Some d" "mc_wire_ok ?cl1" by (simp_all add: 1(1) up)
  note 2 = speak_live [OF c1, of ms]
  have c2: "mc_conn ?cl2 = Some d" "mc_wire_ok ?cl2" by (subst 2, simp add: c1)+
  from subscribe_live [OF c2, of "command_filter c" "()"] obtain i where 3: "?cl3 =
    ?cl2\<lparr>mc_handlers := aset (command_filter c) () (mc_handlers ?cl2), mc_packet_id := i,
      mc_written := mc_written ?cl2 @ [(d, encode_subscribe i 0 [command_filter c])]\<rparr>" by blast
  have c3: "mc_conn ?cl3 = Some d" "mc_wire_ok ?cl3" by (subst 3, simp add: c2)+
  note 4 = speak_live [OF c3, of ns]
  have "mc_written (speak ns ?cl3) = mc_written ?cl3 @ map (Pair d) (map (said_bytes c) (map (\<lambda>(t, p). Says t p) ns))"
    by (rule speak_written [OF c3 assms(4)])
  moreover have "mc_written ?cl3 = mc_written ?cl2 @ [(d, said_bytes c (Asks i))]" by (subst 3) simp
  moreover have "mc_written ?cl2 = mc_written ?cl1 @ map (Pair d) (map (said_bytes c) (map (\<lambda>(t, p). Says t p) ms))"
    by (rule speak_written [OF c1 assms(3)])
  moreover have "mc_written ?cl1 = mc_written cl @ map (Pair d) (map (said_bytes c) (map Asks js))"
    unfolding 1(1) up(4) using asks [of "mc_handlers up" js] assms(2) 1(2) up(3) by simp
  ultimately have "mc_written (speak ns ?cl3) = mc_written cl @ map (Pair d) (map (said_bytes c)
      (map Asks js @ map (\<lambda>(t, p). Says t p) ms @ [Asks i] @ map (\<lambda>(t, p). Says t p) ns))" by simp
  then show "\<exists>js i. unread cl (hello_client c d ms ns cl) = concat (map (said_bytes c)
      (map Asks js @ map (\<lambda>(t, p). Says t p) ms @ [Asks i] @ map (\<lambda>(t, p). Says t p) ns))"
    unfolding hello_client_def by (intro exI unread_append)
  have "mc_handlers (speak ns ?cl3) = mc_handlers ?cl3" by (subst 4) simp
  moreover have "mc_handlers ?cl3 = aset (command_filter c) () (mc_handlers ?cl2)" by (subst 3) simp
  moreover have "mc_handlers ?cl2 = mc_handlers cl" by (subst 2) (simp add: 1(1) up)
  ultimately show "fst ` set (mc_handlers (hello_client c d ms ns cl)) \<subseteq> {command_filter c}"
    using keys_subset [OF assms(2)] by (simp add: hello_client_def)
  show "mc_conn (hello_client c d ms ns cl) = Some d" "mc_wire_ok (hello_client c d ms ns cl)"
    unfolding hello_client_def by (subst 4, simp add: c3)+
qed

lemma hear_hello: "hear (map Asks js @ map (\<lambda>(t, p). Says t p) ms @ [Asks i] @ map (\<lambda>(t, p). Says t p) ns) f = keep (ms @ ns) f"
proof -
  have "hear (map Asks js) f = f" for f by (induction js arbitrary: f) (simp_all add: hear_simps)
  then show ?thesis by (simp add: hear_simps hear_map)
qed

lemma line_connect:
  assumes "line_ok c s" "mc_conn (wd_client s) = None" "will_set c o'" "wired_connect c o' s = Some t"
    "list_all sayable (b_sent (wd_bridge t))"
  shows "line_ok c t"
proof -
  let ?d = "wd_next s" and ?b = "(wd_bridge s)\<lparr>b_up := True\<rparr>"
  let ?old = "(wd_client s)\<lparr>mc_wire_ok := True, mc_written := mc_written (wd_client s) @ [(?d, client_connect_packet o')]\<rparr>"
  let ?b3 = "on_connect c (wd_reg s) ?b"
  let ?ms = "news ?b (greet c ?b)" and ?ns = "news (greet c ?b) ?b3"
  let ?new = "hello_client c ?d ?ms ?ns ?old"
  obtain bk where bk: "broker_connect ?d \<lparr>ptype = type_connect, pflags = 0, pbody = connect_body (hello_options o')\<rparr>
      (open_session ?d (wd_broker s)) = (True, bk)"
    and made: "t = s\<lparr>wd_bridge := ?b3, wd_client := ?new, wd_broker := bk, wd_flight := unread ?old ?new, wd_next := Suc ?d\<rparr>"
    using assms(4) hello_read [OF assms(3)]
    by (auto simp: wired_connect_def Let_def split: prod.splits bool.splits)
  have t: "wd_bridge t = ?b3" "wd_client t = ?new" "wd_broker t = bk" "wd_flight t = unread ?old ?new" by (simp_all add: made)
  note w = hello_welcome [OF assms(3) bk]
  obtain ss where ss: "bk_sessions bk ?d = Some ss" "bs_up ss" "bs_will ss = Some (last_will c)" using w(2) by blast
  note n1 = news_says [OF says_connect(1) [where c = c and b = ?b]] and n2 = news_says [OF says_connect(2) [where c = c and b = ?b and r = "wd_reg s"]]
  have "b_sent ?b3 = b_sent (wd_bridge s) @ ?ms @ ?ns" using n1 n2 by simp
  then have fit: "list_all sayable ?ms" "list_all sayable ?ns" using assms(5) by (simp_all add: t(1))
  have pre: "mc_wire_ok ?old" "fst ` set (mc_handlers ?old) \<subseteq> {command_filter c}" using assms(1) by (simp_all add: line_ok_def)
  note said = hello_client_writes [OF pre fit, of ?d]
  obtain js i where flight: "unread ?old ?new = concat (map (said_bytes c)
      (map Asks js @ map (\<lambda>(t, p). Says t p) ?ms @ [Asks i] @ map (\<lambda>(t, p). Says t p) ?ns))" (is "_ = concat (map _ ?xs)")
    using said(1) by blast
  have ok: "list_all said_ok ?xs" using says_said(2) [OF fit(1)] says_said(2) [OF fit(2)] by (auto simp: list_all_iff)
  have "retained_of bk = b_retained (wd_bridge s)"
    using assms(1,2) w(1) by (simp add: line_ok_def retained_of_def [abs_def] broker_retained_def)
  then have heard: "hear ?xs (retained_of bk) = b_retained ?b3"
    unfolding hear_hello using n1 n2 by simp
  have up: "b_up ?b3" using n1 n2 by simp
  have live: "mc_conn (wd_client t) = Some ?d" using said(2) by (simp only: t(2))
  show ?thesis
    unfolding line_live [OF live] t flight using said(3,4) up ss ok heard by blast
qed

section \<open>Every step\<close>

lemma wired_says: "wired_step c o' lossy s t \<Longrightarrow> \<exists>ms. b_sent (wd_bridge t) = b_sent (wd_bridge s) @ ms"
proof (induction rule: wired_step.induct)
  case (w_connects s t)
  have g: "\<exists>ms. b_sent (on_connect c r b) = b_sent b @ ms" for r b
    using says_trans [OF says_connect] by (fastforce simp: says_def)
  have "wd_bridge t = on_connect c (wd_reg s) ((wd_bridge s)\<lparr>b_up := True\<rparr>)"
    using w_connects(2) by (auto simp: wired_connect_def Let_def split: sum.splits prod.splits bool.splits)
  then show ?case using g [of "wd_reg s" "(wd_bridge s)\<lparr>b_up := True\<rparr>"] by simp
qed (use says_handle says_remove says_told(3) in \<open>fastforce simp: wired_act_def wired_lost_def Let_def says_def\<close>)+

lemma line_step:
  assumes "wired_step c o' False s t" "line_ok c s" "will_set c o'" "list_all sayable (b_sent (wd_bridge t))"
  shows "line_ok c t"
  using assms
proof (induction rule: wired_step.induct)
  case (w_world r s)
  then show ?case by (simp add: line_ok_def split: option.splits)
next
  case (w_runs cl s)
  let ?f = "command_filter c"
  show ?case
  proof (cases "mc_conn (wd_client s)")
    case None
    then have "cl = (wd_client s)\<lparr>mc_handlers := aset ?f () (mc_handlers (wd_client s))\<rparr>"
      using w_runs(1) by (simp add: client_subscribe_def)
    then show ?thesis using w_runs(2) None by (simp add: line_ok_def keys_subset unread_def)
  next
    case (Some d)
    then have ok: "mc_wire_ok (wd_client s)" using w_runs(2) by (simp add: line_live)
    from subscribe_live [OF Some ok, of ?f "()"] obtain i where
      cl: "cl = (wd_client s)\<lparr>mc_handlers := aset ?f () (mc_handlers (wd_client s)), mc_packet_id := i,
        mc_written := mc_written (wd_client s) @ [(d, encode_subscribe i 0 [?f])]\<rparr>" using w_runs(1) by auto
    have "unread (wd_client s) cl = concat (map (said_bytes c) [Asks i])" by (simp add: cl unread_def)
    then show ?thesis
      using line_more [OF w_runs(2) Some, of cl "wd_bridge s" "[Asks i]"] Some ok w_runs(2)
      by (simp add: cl line_live keys_subset hear_simps)
  qed
next
  case (w_connects s t)
  show ?case by (rule line_connect [OF w_connects(3,1,4,2,5)])
next
  case (w_event s e)
  then show ?case by (intro line_act says_handle) (simp_all add: wired_act_def Let_def)
next
  case (w_removes s i)
  then show ?case by (intro line_act says_remove) (simp_all add: wired_act_def Let_def)
next
  case (w_stops s)
  then show ?case by (intro line_act says_told) (simp_all add: wired_act_def Let_def)
next
  case (w_ticks d s ok cl)
  show ?case
  proof (cases "mc_conn (wd_client s) = Some d")
    case False
    then have "cl = wd_client s" using w_ticks(1) by (simp add: keep_alive_tick_def)
    then show ?thesis using w_ticks(2) by (simp add: unread_def)
  next
    case True
    then have wire: "mc_wire_ok (wd_client s)" using w_ticks(2) by (simp add: line_live)
    then have cl: "cl = (wd_client s)\<lparr>mc_written := mc_written (wd_client s) @ [(d, encode type_pingreq 0 [])]\<rparr>"
      using w_ticks(1) True by (simp add: keep_alive_tick_def write_raw_def)
    have "unread (wd_client s) cl = concat (map (said_bytes c) [Pings])" by (simp add: cl unread_def)
    then show ?thesis
      using line_more [OF w_ticks(2) True, of cl "wd_bridge s" "[Pings]"] True wire w_ticks(2)
      by (simp add: cl line_live hear_simps)
  qed
next
  case (w_reads s d rest bk)
  then show ?case by (intro line_reads) (simp_all add: will_set_def)
next
  case (w_command s t p)
  have "retained_of (broker_inject t p (wd_broker s)) = retained_of (wd_broker s)"
    by (simp add: retained_of_def broker_retained_def broker_inject_def retain_message_def fun_eq_iff)
  moreover have "bk_sessions (broker_inject t p (wd_broker s)) = bk_sessions (wd_broker s)" by (simp add: broker_inject_def)
  ultimately show ?case using w_command by (simp add: line_ok_def split: option.splits)
next
  case (w_lost s d)
  then show ?case by (intro line_lost) simp_all
qed

lemma wired_abstract:
  assumes "wired_step c o' lossy s t" "reachable bridge_start (bridge_step c) (wd_reg s, wd_bridge s)"
  shows "reachable bridge_start (bridge_step c) (wd_reg t, wd_bridge t)"
  using assms
proof (induction rule: wired_step.induct)
  case (w_world r s)
  then show ?case by (auto intro: reach_step world_moves)
next
  case (w_connects s t)
  then have "wd_bridge t = on_connect c (wd_reg s) ((wd_bridge s)\<lparr>b_up := True\<rparr>)" "wd_reg t = wd_reg s"
    by (auto simp: wired_connect_def Let_def split: sum.splits prod.splits bool.splits)
  then show ?case using reach_step [OF w_connects(3) connects] by simp
next
  case (w_event s e)
  show ?case using reach_step [OF w_event event] by (simp add: wired_act_def Let_def)
next
  case (w_removes s i)
  show ?case using reach_step [OF w_removes removes] by (simp add: wired_act_def Let_def)
next
  case (w_stops s)
  show ?case using reach_step [OF w_stops stops] by (simp add: wired_act_def Let_def)
next
  case (w_lost s d)
  show ?case using reach_step [OF w_lost(3) lost] by (simp add: wired_lost_def)
qed simp_all

interpretation lines: invariant_system wired_start "wired_step c o' False"
  "\<lambda>s. will_set c o' \<longrightarrow> list_all sayable (b_sent (wd_bridge s)) \<longrightarrow> line_ok c s"
proof unfold_locales
  show "wired_start s \<Longrightarrow> will_set c o' \<longrightarrow> list_all sayable (b_sent (wd_bridge s)) \<longrightarrow> line_ok c s" for s
    by (simp add: wired_start_def line_ok_def new_bridge_def new_client_def new_broker_def retained_of_def broker_retained_def fun_eq_iff)
  show "will_set c o' \<longrightarrow> list_all sayable (b_sent (wd_bridge s)) \<longrightarrow> line_ok c s \<Longrightarrow> wired_step c o' False s t \<Longrightarrow>
      will_set c o' \<longrightarrow> list_all sayable (b_sent (wd_bridge t)) \<longrightarrow> line_ok c t" for s t
    using line_step [of c o' s t] wired_says [of c o' False s t] by fastforce
qed

interpretation books: invariant_system wired_start "wired_step c o' lossy"
  "\<lambda>s. reachable bridge_start (bridge_step c) (wd_reg s, wd_bridge s)"
proof unfold_locales
  show "wired_start s \<Longrightarrow> reachable bridge_start (bridge_step c) (wd_reg s, wd_bridge s)" for s
    by (rule reach_start) (simp add: wired_start_def bridge_start_def)
qed (rule wired_abstract)

text \<open>A broker that goes on reading comes to the end of what is on its way.\<close>

lemma line_drains:
  assumes "line_ok c s" "mc_conn (wd_client s) = Some d" "length (command_filter c) < 2 ^ 16"
  shows "\<exists>bk. (wired_step c o' lossy)\<^sup>*\<^sup>* s (s\<lparr>wd_broker := bk, wd_flight := []\<rparr>) \<and> retained_of bk = b_retained (wd_bridge s)"
  using assms(1,2)
proof (induction "length (wd_flight s)" arbitrary: s rule: less_induct)
  case less
  obtain ss xs where ss: "bk_sessions (wd_broker s) d = Some ss" "bs_up ss"
    and xs: "wd_flight s = concat (map (said_bytes c) xs)" "list_all said_ok xs" "hear xs (retained_of (wd_broker s)) = b_retained (wd_bridge s)"
    using less.prems by (auto simp: line_live)
  show ?case
  proof (cases xs)
    case Nil
    then have "s\<lparr>wd_broker := wd_broker s, wd_flight := []\<rparr> = s" using xs(1) by simp
    then show ?thesis using Nil xs(3) by (intro exI [of _ "wd_broker s"]) (simp add: hear_simps)
  next
    case (Cons y zs)
    let ?rest = "concat (map (said_bytes c) zs)"
    obtain bk where t: "broker_turn d (wd_flight s) (wd_broker s) = (Some ?rest, bk)"
      using turn_said [where c = c, OF _ assms(3) ss, of y ?rest] xs Cons by auto
    have ne: "wd_flight s \<noteq> []" using xs(1) Cons said_nonempty by simp
    let ?t = "s\<lparr>wd_broker := bk, wd_flight := ?rest\<rparr>"
    have step: "wired_step c o' lossy s ?t" by (rule w_reads [OF less.prems(2) ne t])
    have "length (wd_flight ?t) < length (wd_flight s)" using xs(1) Cons said_nonempty by simp
    from less.hyps [OF this line_reads [OF less.prems ne t assms(3)]] less.prems(2)
    obtain bk' where "(wired_step c o' lossy)\<^sup>*\<^sup>* ?t (s\<lparr>wd_broker := bk', wd_flight := []\<rparr>)" "retained_of bk' = b_retained (wd_bridge s)"
      by auto
    with step show ?thesis by (meson converse_rtranclp_into_rtranclp)
  qed
qed

text \<open>With a broker that accepts, a connection can be made.\<close>

lemma wired_connect_accepted:
  assumes "will_set c o'" "bk_refuse (wd_broker s) = 0"
  shows "\<exists>t. wired_connect c o' s = Some t \<and> wd_bridge t = on_connect c (wd_reg s) ((wd_bridge s)\<lparr>b_up := True\<rparr>) \<and>
    bk_retained (wd_broker t) = bk_retained (wd_broker s) \<and> wd_reg t = wd_reg s"
proof -
  let ?pkt = "\<lparr>ptype = type_connect, pflags = 0, pbody = connect_body (hello_options o')\<rparr>"
  have "fst (broker_connect (wd_next s) ?pkt (open_session (wd_next s) (wd_broker s)))"
    using assms decode_connect_body [of "hello_options o'"]
    by (simp add: will_set_def broker_connect_def broker_write_def open_session_def Let_def)
  then obtain bk where bk: "broker_connect (wd_next s) ?pkt (open_session (wd_next s) (wd_broker s)) = (True, bk)"
    by (cases "broker_connect (wd_next s) ?pkt (open_session (wd_next s) (wd_broker s))") simp
  then show ?thesis
    using hello_welcome(1) [OF assms(1) bk] by (simp add: wired_connect_def Let_def hello_read [OF assms(1)])
qed

section \<open>Properties\<close>


text \<open>A lamp in the registry, and the first connection of an instance to its broker.\<close>

definition demo_line :: mqtt_options where
  "demo_line = \<lparr>mo_client_id = ''haigosmart'', mo_username = [], mo_password = [], mo_keep_alive = 30 * second,
     mo_will_topic = ''haigosmart/status'', mo_will_payload = bytes_of offline, mo_will_retain = True\<rparr>"

definition demo_wired :: wired where
  "demo_wired = \<lparr>wd_reg = demo_registry, wd_bridge = new_bridge, wd_client = new_client, wd_broker = new_broker, wd_flight = [], wd_next = 1\<rparr>"

lemma demo_line_will: "will_set default_config demo_line"
proof -
  have "status_topic default_config = ''haigosmart/status''" "length (command_filter default_config) = 22" by code_simp+
  then show ?thesis by (simp add: will_set_def demo_line_def connect_fits_def hello_options_def offline_def)
qed

abbreviation demo_greeted :: bridge where
  "demo_greeted \<equiv> on_connect default_config demo_registry (new_bridge\<lparr>b_up := True\<rparr>)"

lemma demo_greeted_facts:
  "list_all sayable (b_sent demo_greeted)" "b_up demo_greeted" "b_announced demo_greeted ''a1'' = Some ''desk''"
  "b_retained demo_greeted ''haigosmart/status'' = Some ''online''" "b_retained demo_greeted (config_topic default_config ''a1'') \<noteq> None"
  by code_simp+

lemma demo_connects:
  obtains t d where "wired_connect default_config demo_line demo_wired = Some t" "wd_bridge t = demo_greeted"
    "bk_retained (wd_broker t) = []" "mc_conn (wd_client t) = Some d" "line_ok default_config t"
    "\<And>lossy. reachable wired_start (wired_step default_config demo_line lossy) t"
proof -
  have "bk_refuse (wd_broker demo_wired) = 0" by (simp add: demo_wired_def new_broker_def)
  from wired_connect_accepted [OF demo_line_will this] obtain t where t: "wired_connect default_config demo_line demo_wired = Some t"
    "wd_bridge t = demo_greeted" "bk_retained (wd_broker t) = []"
    by (auto simp: demo_wired_def new_broker_def)
  have "wired_start demo_wired" by (simp add: wired_start_def demo_wired_def demo_registry_ok)
  moreover have "mc_conn (wd_client demo_wired) = None" by (simp add: demo_wired_def new_client_def)
  ultimately have r: "reachable wired_start (wired_step default_config demo_line lossy) t" for lossy
    using t(1) reach_start reach_step w_connects by metis
  have ok: "line_ok default_config t"
    using lines.reachable_inv [OF r] demo_line_will demo_greeted_facts(1) by (simp add: t(2))
  then obtain d where "mc_conn (wd_client t) = Some d"
    using demo_greeted_facts(2) by (cases "mc_conn (wd_client t)") (auto simp: line_ok_def t(2))
  with t r ok that show ?thesis by blast
qed


section \<open>Where the code falls short\<close>

text \<open>
  A publication is noted as made when its bytes were written, which is no promise that anybody read them.
  When the connection breaks first, the broker has no entry for the lamp, the bridge takes it for
  announced, and no later connect announces it under the same name.
\<close>

lemma lost_announcement:
  "\<exists>s. reachable wired_start (wired_step default_config demo_line True) s \<and> wd_flight s = [] \<and>
    b_announced (wd_bridge s) ''a1'' = Some ''desk'' \<and> retained_of (wd_broker s) (config_topic default_config ''a1'') = None"
  "b_announced b (device_id lamp) = Some (bulb_name lamp) \<Longrightarrow> announce c lamp (b\<lparr>b_up := True\<rparr>) = b\<lparr>b_up := True\<rparr>"
proof -
  obtain t d where t: "wd_bridge t = demo_greeted" "bk_retained (wd_broker t) = []" "mc_conn (wd_client t) = Some d"
    "line_ok default_config t" "reachable wired_start (wired_step default_config demo_line True) t" by (rule demo_connects) blast
  obtain ss where ss: "bk_sessions (wd_broker t) d = Some ss" "bs_will ss = Some (last_will default_config)"
    using t(3,4) by (auto simp: line_live)
  have "reachable wired_start (wired_step default_config demo_line True) (wired_lost default_config d t)"
    by (rule reach_step [OF t(5) w_lost [OF t(3)]]) simp
  moreover have "wd_flight (wired_lost default_config d t) = []" by (simp add: wired_lost_def)
  moreover have "b_announced (wd_bridge (wired_lost default_config d t)) ''a1'' = Some ''desk''"
    using demo_greeted_facts(3) by (simp add: wired_lost_def t(1))
  moreover have "retained_of (wd_broker (wired_lost default_config d t)) (config_topic default_config ''a1'') = None"
    by (simp add: wired_lost_def retained_lost [OF ss]) (simp add: retained_of_def broker_retained_def t(2))
  ultimately show "\<exists>s. reachable wired_start (wired_step default_config demo_line True) s \<and> wd_flight s = [] \<and>
    b_announced (wd_bridge s) ''a1'' = Some ''desk'' \<and> retained_of (wd_broker s) (config_topic default_config ''a1'') = None" by blast
qed (simp add: announce_def)

end
