(* ===== verification/Instance.thy ===== *)
theory Instance
  imports PowerCycle Wired Arrival
begin

text \<open>
  An instance while it serves, \<open>cmd/haigosmartd/main.go\<close>: what \<open>run\<close> puts together from the settings, and then
  the signals, the listener's channel, the interface and the deferred calls, each at its own time, beside
  the store that goes on saving.
\<close>

section \<open>What is put together\<close>

record parts =
  pt_admit :: "(string \<Rightarrow> bool) option"
  pt_timeout :: duration
  pt_link :: "(hass_config \<times> mqtt_options) option"

definition put_together :: "config \<Rightarrow> parts" where
  "put_together cfg =
     \<lparr>pt_admit = admit_of cfg, pt_timeout = set_timeout (cf_command_timeout cfg),
      pt_link = map_option (\<lambda>o'. (with_defaults (hass_of cfg), client_options o')) (mqtt_of cfg)\<rparr>"

section \<open>Serving and leaving\<close>

text \<open>
  Where \<open>run\<close> is: in its \<open>select\<close> without a terminal, in the interface, in the explicit \<open>Flush\<close>, waiting for
  the listener (with the interface's error, if it had one), in the deferred \<open>Close\<close>, or gone with its result.
\<close>

datatype run_phase =
    Selecting
  | Showing
  | Flushing
  | Awaiting "string option"
  | Closing "string option"
  | Exited "string option"

record running =
  ru_phase :: run_phase
  ru_cancelled :: bool
  ru_signals :: "string list"
  ru_listening :: bool
  ru_server_err :: "string option option"
  ru_named :: "string option"
  ru_store :: store

definition run_start :: "bool \<Rightarrow> store \<Rightarrow> running" where
  "run_start headless st =
     \<lparr>ru_phase = (if headless then Selecting else Showing), ru_cancelled = False, ru_signals = [], ru_listening = True,
      ru_server_err = None, ru_named = None, ru_store = st\<rparr>"

text \<open>The steps of \<open>run\<close> itself; \<open>failing\<close> and \<open>overlap\<close> are those of the store.\<close>

inductive own_step :: "bool \<Rightarrow> bool \<Rightarrow> running \<Rightarrow> running \<Rightarrow> bool" for failing overlap :: bool where
  listener_ended: "ru_phase s = Selecting \<Longrightarrow> ru_server_err s = Some err \<Longrightarrow>
    own_step failing overlap s (s\<lparr>ru_phase := Closing err, ru_server_err := None\<rparr>)"
| told: "ru_phase s = Selecting \<Longrightarrow> ru_cancelled s \<Longrightarrow>
    own_step failing overlap s (s\<lparr>ru_phase := Flushing, ru_named := Some (signal_name (ru_signals s)), ru_signals := tl (ru_signals s)\<rparr>)"
| flushed: "ru_phase s = Flushing \<Longrightarrow> failing \<or> ok \<Longrightarrow> overlap \<or> flights (ru_store s) = [] \<Longrightarrow>
    own_step failing overlap s (s\<lparr>ru_phase := Awaiting None, ru_store := flush_now ok (ru_store s)\<rparr>)"
| awaited: "ru_phase s = Awaiting e \<Longrightarrow> ru_server_err s = Some err \<Longrightarrow>
    own_step failing overlap s
      (s\<lparr>ru_phase := Closing (run_result (case e of None \<Rightarrow> Signalled err | Some _ \<Rightarrow> InterfaceEnded e err)), ru_server_err := None\<rparr>)"
| closed_down: "ru_phase s = Closing res \<Longrightarrow> failing \<or> ok \<Longrightarrow> overlap \<or> flights (ru_store s) = [] \<Longrightarrow>
    own_step failing overlap s (s\<lparr>ru_phase := Exited res, ru_store := close_store ok (ru_store s)\<rparr>)"

text \<open>
  Beside them: the store saves and the registry changes; a signal cancels the context and is put into the
  buffered channel, in no particular order; the listener returns; the interface is left, with or without
  an error.
\<close>

inductive run_step :: "string \<Rightarrow> bool \<Rightarrow> bool \<Rightarrow> running \<Rightarrow> running \<Rightarrow> bool" for addr :: string and failing overlap :: bool where
  by_itself: "own_step failing overlap s t \<Longrightarrow> run_step addr failing overlap s t"
| stored: "(\<forall>res. ru_phase s \<noteq> Exited res) \<Longrightarrow> store_step failing overlap (ru_store s) st \<Longrightarrow>
    run_step addr failing overlap s (s\<lparr>ru_store := st\<rparr>)"
| signal_cancels: "run_step addr failing overlap s (s\<lparr>ru_cancelled := True\<rparr>)"
| signal_queued: "sg \<in> {''interrupt'', ''terminated''} \<Longrightarrow>
    run_step addr failing overlap s (s\<lparr>ru_signals := (if ru_signals s = [] then [sg] else ru_signals s)\<rparr>)"
| listener_returns: "ru_listening s \<Longrightarrow> listen_and_serve addr bound (ru_cancelled s) d as (w :: world) = (Some err, w') \<Longrightarrow>
    run_step addr failing overlap s (s\<lparr>ru_listening := False, ru_server_err := Some err\<rparr>)"
| interface_left: "ru_phase s = Showing \<Longrightarrow> run_step addr failing overlap s (s\<lparr>ru_phase := Awaiting e, ru_cancelled := True\<rparr>)"

inductive_cases own_stepE: "own_step failing overlap s t"
inductive_cases run_stepE: "run_step addr failing overlap s t"

text \<open>The store at the start is the one of the declared lamps on the file that was loaded.\<close>

definition instance_start :: "bool \<Rightarrow> lamp list \<Rightarrow> running \<Rightarrow> bool" where
  "instance_start headless ls s \<longleftrightarrow>
     (\<exists>f0 r0. load_file f0 = Inr r0 \<and> s = run_start headless (declared_store ls (opened f0 r0)))"

fun phase_rank :: "run_phase \<Rightarrow> nat" where
  "phase_rank Selecting = 4"
| "phase_rank Showing = 4"
| "phase_rank Flushing = 3"
| "phase_rank (Awaiting _) = 2"
| "phase_rank (Closing _) = 1"
| "phase_rank (Exited _) = 0"

section \<open>Facts\<close>

lemma with_defaults_twice [simp]: "with_defaults (with_defaults c) = with_defaults c"
  by (simp add: with_defaults_def default_config_def)

text \<open>
  The last will an instance leaves with its broker is the offline message of its own bridge, so what
  \<open>Wired\<close> shows is so for every instance whose settings fit into a packet.
\<close>

lemma link_will:
  assumes "pt_link (put_together cfg) = Some (c, o')" "length (cf_mqtt_client_id cfg) < 2 ^ 16" "length (cf_mqtt_username cfg) < 2 ^ 16"
    "length (cf_mqtt_password cfg) < 2 ^ 16" "length (own_prefix c) + 12 < 2 ^ 16"
  shows "will_set c o'"
proof -
  obtain m where m: "mqtt_of cfg = Some m" "c = with_defaults (hass_of cfg)" "o' = client_options m"
    using assms(1) by (auto simp: put_together_def)
  have t: "status_topic c = status_topic (hass_of cfg)" "length (command_filter c) < 2 ^ 16" "length (status_topic c) < 2 ^ 16"
    using assms(5) by (simp_all add: m(2) status_topic_def command_filter_def)
  show ?thesis
    using t m(1) assms(2-4)
    by (auto simp: m(3) will_set_def mqtt_of_def client_options_def connect_fits_def hello_options_def offline_def Let_def split: if_splits)
qed

text \<open>
  \<open>run\<close> never waits for a channel that nobody will write to; how it ends is one of the ways of
  \<open>ending\<close>, and without a terminal the way is a failing listener or a signal.
\<close>

definition way_of :: "bool \<Rightarrow> bool \<Rightarrow> string option \<Rightarrow> string option \<Rightarrow> bool" where
  "way_of headless cancelled named res \<longleftrightarrow>
     (\<exists>e. res = run_result e \<and>
       (case e of
          ListenerEnded err \<Rightarrow> headless
        | Signalled err \<Rightarrow> headless \<and> cancelled \<and> named \<noteq> None
        | InterfaceEnded x err \<Rightarrow> \<not> headless \<and> cancelled))"

definition run_ok :: "bool \<Rightarrow> running \<Rightarrow> bool" where
  "run_ok headless s \<longleftrightarrow>
     (ru_listening s \<longrightarrow> ru_server_err s = None \<and> 2 \<le> phase_rank (ru_phase s)) \<and>
     (2 \<le> phase_rank (ru_phase s) \<longrightarrow> ru_listening s \<or> ru_server_err s \<noteq> None) \<and>
     (case ru_phase s of
        Selecting \<Rightarrow> headless
      | Showing \<Rightarrow> \<not> headless
      | Flushing \<Rightarrow> headless \<and> ru_cancelled s \<and> ru_named s \<noteq> None
      | Awaiting e \<Rightarrow> ru_cancelled s \<and> (headless \<longrightarrow> e = None \<and> ru_named s \<noteq> None)
      | Closing res \<Rightarrow> way_of headless (ru_cancelled s) (ru_named s) res
      | Exited res \<Rightarrow> way_of headless (ru_cancelled s) (ru_named s) res)"

lemma ways:
  "headless \<Longrightarrow> way_of headless x n err"
  "headless \<Longrightarrow> n \<noteq> None \<Longrightarrow> way_of headless True n (run_result (Signalled err))"
  "\<not> headless \<Longrightarrow> way_of headless True n (run_result (InterfaceEnded e err))"
proof -
  show "headless \<Longrightarrow> way_of headless x n err"
    unfolding way_of_def by (rule exI [of _ "ListenerEnded err"]) (simp add: run_result_def)
qed (auto simp: way_of_def intro: exI [of _ "Signalled err"] exI [of _ "InterfaceEnded e err"])

lemma way_awaited:
  assumes "headless \<longrightarrow> e = None \<and> n \<noteq> None"
  shows "way_of headless True n (run_result (case e of None \<Rightarrow> Signalled err | Some x \<Rightarrow> InterfaceEnded e err))"
proof (cases headless)
  case True
  then show ?thesis using ways(2) assms by simp
next
  case False
  have "run_result (case e of None \<Rightarrow> Signalled err | Some x \<Rightarrow> InterfaceEnded e err) = run_result (InterfaceEnded e err)"
    by (simp add: run_result_def split: option.split)
  then show ?thesis using ways(3) [OF False] by simp
qed

lemma way_of_cancelled: "way_of headless x n res \<Longrightarrow> way_of headless True n res"
  unfolding way_of_def by (elim exE conjE, rule exI, rule conjI, assumption) (auto split: ending.splits)

lemma run_ok_own: "run_ok headless s \<Longrightarrow> own_step failing overlap s t \<Longrightarrow> run_ok headless t"
proof (erule own_stepE, goal_cases)
  case (4 e err)
  then have "headless \<longrightarrow> e = None \<and> ru_named s \<noteq> None" "ru_cancelled s" "\<not> ru_listening s" by (auto simp: run_ok_def)
  then show ?case using 4 way_awaited by (simp add: run_ok_def)
qed (auto simp: run_ok_def ways(1))

lemma run_ok_step: "run_ok headless s \<Longrightarrow> run_step addr failing overlap s t \<Longrightarrow> run_ok headless t"
proof (erule run_stepE, goal_cases)
  case 1
  then show ?case using run_ok_own by blast
qed (auto simp: run_ok_def way_of_cancelled split: run_phase.splits)

interpretation process: invariant_system "instance_start headless ls" "run_step addr failing overlap" "run_ok headless"
  by unfold_locales (auto simp: run_ok_step, auto simp: run_ok_def run_start_def instance_start_def)

text \<open>The store is the system of \<open>Persist\<close> all along, also between the flush and the end.\<close>

definition kept_whole :: "running \<Rightarrow> bool" where
  "kept_whole s \<longleftrightarrow> store_inv (ru_store s) \<and>
     (\<forall>res. ru_phase s = Exited res \<longrightarrow> \<not> pending (ru_store s) \<and> flights (ru_store s) = [])"

lemma flush_keeps: "store_inv s \<Longrightarrow> flights s = [] \<Longrightarrow> store_inv (flush_now True s)"
  using durable_file_of [of "reg s"] by (auto simp: store_inv_def flush_now_def)

lemma close_keeps: "store_inv s \<Longrightarrow> flights s = [] \<Longrightarrow>
    store_inv (close_store True s) \<and> \<not> pending (close_store True s) \<and> flights (close_store True s) = []"
  using durable_file_of [of "reg s"] by (auto simp: store_inv_def close_store_def flush_now_def)

lemma store_settled: "store_inv s \<Longrightarrow> \<not> pending s \<Longrightarrow> flights s = [] \<Longrightarrow> durable_file (disk s) = durable (reg s)"
  by (simp add: store_inv_def)

lemma kept_whole_step: "kept_whole s \<Longrightarrow> run_step addr False False s t \<Longrightarrow> kept_whole t"
proof (erule run_stepE, goal_cases)
  case 1
  then show ?case by (auto simp: kept_whole_def flush_keeps close_keeps elim!: own_stepE)
next
  case (2 st)
  then show ?case using store_inv_step by (auto simp: kept_whole_def)
qed (auto simp: kept_whole_def)

interpretation saved: invariant_system "instance_start headless ls" "run_step addr False False" kept_whole
proof unfold_locales
  show "instance_start headless ls s \<Longrightarrow> kept_whole s" for s
  proof (unfold instance_start_def, elim exE conjE)
    fix f0 r0 assume l: "load_file f0 = Inr r0" and s: "s = run_start headless (declared_store ls (opened f0 r0))"
    have "store_inv (opened f0 r0)" using store.inv_start [of "opened f0 r0"] l by (simp add: store_start_def opened_def)
    from store.steps_inv [OF declared_store_steps this] show "kept_whole s" by (simp add: kept_whole_def s run_start_def)
  qed
qed (rule kept_whole_step)

lemma own_step_sinks: "own_step failing overlap s t \<Longrightarrow> phase_rank (ru_phase t) < phase_rank (ru_phase s)"
  by (erule own_stepE) auto

section \<open>The way out\<close>

lemma closes: "ru_phase s = Closing res \<Longrightarrow> \<exists>t. (run_step addr True True ^^ 1) s t \<and> ru_phase t = Exited res"
  by (auto intro!: exI by_itself closed_down [where ok = True])

lemma awaits:
  assumes "ru_phase s = Awaiting e" "ru_server_err s = Some err"
  shows "\<exists>t. (run_step addr True True ^^ 2) s t \<and>
    ru_phase t = Exited (run_result (case e of None \<Rightarrow> Signalled err | Some _ \<Rightarrow> InterfaceEnded e err))"
proof -
  let ?res = "run_result (case e of None \<Rightarrow> Signalled err | Some _ \<Rightarrow> InterfaceEnded e err)"
  have step: "run_step addr True True s (s\<lparr>ru_phase := Closing ?res, ru_server_err := None\<rparr>)"
    by (rule by_itself [OF awaited [OF assms]])
  obtain t where "(run_step addr True True ^^ 1) (s\<lparr>ru_phase := Closing ?res, ru_server_err := None\<rparr>) t" "ru_phase t = Exited ?res"
    using closes [of "s\<lparr>ru_phase := Closing ?res, ru_server_err := None\<rparr>" ?res addr] by auto
  with relpowp_Suc_I2 [where P = "run_step addr True True", OF step this(1)] show ?thesis by (auto simp: numeral_2_eq_2)
qed

text \<open>Once the context is cancelled the listener's return is no failure.\<close>

lemma listener_stops:
  assumes "ru_listening s" "ru_cancelled s"
  shows "run_step addr True True s (s\<lparr>ru_listening := False, ru_server_err := Some None\<rparr>)"
proof -
  have "listen_and_serve addr None (ru_cancelled s) 0 [AcceptFailed []] (new_server new_registry) = (Some None, new_server new_registry)"
    using assms(2) by (simp add: listen_and_serve_def)
  from listener_returns [OF assms(1) this] show ?thesis .
qed

lemma awaits_listener:
  assumes "run_ok headless s" "ru_phase s = Awaiting e"
  shows "\<exists>n t err. n \<le> 3 \<and> (run_step addr True True ^^ n) s t \<and>
    ru_phase t = Exited (run_result (case e of None \<Rightarrow> Signalled err | Some _ \<Rightarrow> InterfaceEnded e err)) \<and> (ru_listening s \<longrightarrow> err = None)"
proof (cases "ru_server_err s")
  case (Some err)
  then have "\<not> ru_listening s" using assms(1) by (auto simp: run_ok_def)
  then show ?thesis using awaits [OF assms(2) Some, of addr] by (intro exI [of _ 2]) auto
next
  case None
  let ?t = "s\<lparr>ru_listening := False, ru_server_err := Some None\<rparr>"
  have step: "run_step addr True True s ?t" using assms None by (intro listener_stops) (auto simp: run_ok_def)
  obtain t where t: "(run_step addr True True ^^ 2) ?t t"
    "ru_phase t = Exited (run_result (case e of None \<Rightarrow> Signalled None | Some _ \<Rightarrow> InterfaceEnded e None))"
    using awaits [of ?t e None addr] assms(2) by auto
  show ?thesis using relpowp_Suc_I2 [where P = "run_step addr True True", OF step t(1)] t(2) by (intro exI [of _ "Suc 2"]) auto
qed

lemma flushes:
  assumes "run_ok headless s" "ru_phase s = Flushing"
  shows "\<exists>n t err. n \<le> 4 \<and> (run_step addr True True ^^ n) s t \<and> ru_phase t = Exited err \<and> (ru_listening s \<longrightarrow> err = None)"
proof -
  let ?u = "s\<lparr>ru_phase := Awaiting None, ru_store := flush_now True (ru_store s)\<rparr>"
  have step: "own_step True True s ?u" by (rule flushed) (simp_all add: assms(2))
  obtain n t err where t: "n \<le> 3" "(run_step addr True True ^^ n) ?u t" "ru_phase t = Exited (run_result (Signalled err))" "ru_listening s \<longrightarrow> err = None"
    using awaits_listener [OF run_ok_own [OF assms(1) step], of None addr] by auto
  have "(run_step addr True True ^^ Suc n) s t" by (rule relpowp_Suc_I2 [OF by_itself [OF step] t(2)])
  moreover have "ru_phase t = Exited err" using t(3) by (simp add: run_result_def)
  ultimately show ?thesis using t(1,4) by (intro exI [of _ "Suc n"] exI [of _ t] exI [of _ err] conjI) simp_all
qed

section \<open>Properties\<close>


text \<open>An instance with one configured lamp that is told to stop as soon as it serves.\<close>

abbreviation told_at_once :: running where
  "told_at_once \<equiv> (run_start True (declared_store (cf_lamps demo_config) (opened None new_registry)))\<lparr>ru_cancelled := True\<rparr>"

lemma told_at_once_reachable: "reachable (instance_start True (cf_lamps demo_config)) (run_step addr failing overlap) told_at_once"
proof -
  have "instance_start True (cf_lamps demo_config) (run_start True (declared_store (cf_lamps demo_config) (opened None new_registry)))"
    unfolding instance_start_def by (intro exI [of _ None] exI [of _ new_registry]) (simp add: load_file_def)
  from reach_step [where step = "run_step addr failing overlap", OF reach_start [where start = "instance_start True (cf_lamps demo_config)", OF this] signal_cancels]
  show ?thesis .
qed



lemma told_at_once_exits:
  "\<exists>s. reachable (instance_start True (cf_lamps demo_config)) (run_step addr False False) s \<and> ru_phase s = Exited None \<and>
    durable (reg (ru_store s)) = durable demo_declared"
proof -
  let ?R = "reachable (instance_start True (cf_lamps demo_config)) (run_step addr False False)"
  let ?st = "\<lparr>reg = demo_declared, pending = True, armed = True, flights = [], disk = None\<rparr>"
  have st: "declared_store (cf_lamps demo_config) (opened None new_registry) = ?st" by (rule demo_store)
  let ?s1 = "told_at_once\<lparr>ru_phase := Flushing, ru_named := Some ''unknown''\<rparr>"
  let ?s2 = "?s1\<lparr>ru_phase := Awaiting None, ru_store := flush_now True ?st\<rparr>"
  let ?s3 = "?s2\<lparr>ru_listening := False, ru_server_err := Some None\<rparr>"
  let ?s4 = "?s3\<lparr>ru_phase := Closing None, ru_server_err := None\<rparr>"
  let ?s5 = "?s4\<lparr>ru_phase := Exited None, ru_store := close_store True (flush_now True ?st)\<rparr>"
  have 1: "own_step False False told_at_once ?s1"
    using told [of told_at_once False False] by (simp add: run_start_def signal_name_def)
  have 2: "own_step False False ?s1 ?s2" using flushed [of ?s1 False True False] by (simp add: run_start_def st)
  have "listen_and_serve addr None True 0 [AcceptFailed []] (new_server new_registry) = (Some None, new_server new_registry)"
    by (simp add: listen_and_serve_def)
  then have 3: "run_step addr False False ?s2 ?s3" by (intro listener_returns) (simp_all add: run_start_def)
  have 4: "own_step False False ?s3 ?s4" using awaited [of ?s3 None None False False] by (simp add: run_result_def)
  have 5: "own_step False False ?s4 ?s5" using closed_down [of ?s4 None False True False] by (simp add: flush_now_def)
  have go: "?R s \<Longrightarrow> own_step False False s t \<Longrightarrow> ?R t" "?R s \<Longrightarrow> run_step addr False False s t \<Longrightarrow> ?R t" for s t
    using reach_step by_itself by metis+
  from go(1) [OF go(1) [OF go(2) [OF go(1) [OF go(1) [OF told_at_once_reachable 1] 2] 3] 4] 5] have "?R ?s5" .
  then show ?thesis by (intro exI [of _ ?s5] conjI, assumption) (simp_all add: close_store_def flush_now_def)
qed


section \<open>Where the code falls short\<close>

text \<open>
  With the interface, nothing reads the listener's channel before the operator leaves: an instance whose
  port is taken serves nobody, and \<open>run\<close> neither ends nor says so, whatever else happens.
\<close>

lemma interface_hides_listener:
  "\<exists>s err. reachable (instance_start False []) (run_step '':1883'' failing overlap) s \<and> ru_phase s = Showing \<and>
    \<not> ru_listening s \<and> ru_server_err s = Some (Some err)"
  "ru_phase s = Showing \<Longrightarrow> \<not> ru_listening s \<Longrightarrow> run_step addr failing overlap s t \<Longrightarrow>
    ru_server_err t = ru_server_err s \<and> (ru_phase t = Showing \<or> (\<exists>e. t = s\<lparr>ru_phase := Awaiting e, ru_cancelled := True\<rparr>))"
proof -
  let ?s = "run_start False (declared_store [] (opened None new_registry))"
  obtain err w where l: "listen_and_serve '':1883'' (Some ''in use'') False 0 [] (new_server new_registry) = (Some (Some err), w)"
    by (simp add: listen_and_serve_def)
  have "instance_start False [] ?s"
    unfolding instance_start_def by (intro exI [of _ None] exI [of _ new_registry]) (simp add: load_file_def)
  from reach_step [where step = "run_step '':1883'' failing overlap", OF reach_start [where start = "instance_start False []", OF this]
      listener_returns [where bound = "Some ''in use''" and d = 0 and as = "[]" and w = "new_server new_registry" and err = "Some err" and w' = w]]
  have "reachable (instance_start False []) (run_step '':1883'' failing overlap) (?s\<lparr>ru_listening := False, ru_server_err := Some (Some err)\<rparr>)"
    using l by (simp add: run_start_def)
  then show "\<exists>s err. reachable (instance_start False []) (run_step '':1883'' failing overlap) s \<and> ru_phase s = Showing \<and>
    \<not> ru_listening s \<and> ru_server_err s = Some (Some err)"
    by (intro exI conjI, assumption) (simp_all add: run_start_def)
  show "ru_phase s = Showing \<Longrightarrow> \<not> ru_listening s \<Longrightarrow> run_step addr failing overlap s t \<Longrightarrow>
    ru_server_err t = ru_server_err s \<and> (ru_phase t = Showing \<or> (\<exists>e. t = s\<lparr>ru_phase := Awaiting e, ru_cancelled := True\<rparr>))"
    by (erule run_stepE) (auto elim!: own_stepE)
qed

end
