(* ===== verification/Spec2Isabelle.thy ===== *)
theory Spec2Isabelle
  imports Tui EndToEnd Races ClientLife Certs BulbLife Logs Overlap Instance
begin

text \<open>
  A verification library for haigosmart, a server that takes the place of the vendor's cloud for lamps
  that speak the Alink protocol over MQTT 3.1.1. Lamps connect to it; an operator controls them from a
  terminal; a bridge shows them to Home Assistant through the household's own broker.

  \<^bold>\<open>The program and how its parts interact.\<close> A connection is sniffed (cleartext or TLS) and becomes a
  session, which reads a CONNECT, asks for admission, enters the lamp in the registry and attaches
  itself there as the lamp's driver. Reports of the lamp update the registry and are published as
  events on the bus. Terminal and bridge go through one lamp service, which resolves a partial change
  to a full state and hands it to the driver; the driver sends one command for each property and waits
  for the lamp's confirmation. The bridge follows the bus and publishes retained messages. The registry
  is written to a file some time after a change.

  \<^bold>\<open>The theories\<close>, from the ground up; paths are under \<open>src/internal\<close> unless they start with \<open>cmd\<close>.

  \<^item> \<open>Prelude\<close>: bytes, instants and durations, association lists for Go maps that are walked, errors as
    sums, the collections \<open>wire\<close> and \<open>reg_simps\<close>, and the two general interfaces \<open>stream_codec\<close> (what
    is written is read back from the front of any stream, so sequences are) and \<open>invariant_system\<close>
    (an invariant of a step relation holds wherever it reaches).
  \<^item> \<open>GoStrings\<close>, \<open>Json\<close>, \<open>JsonDecode\<close>, \<open>Times\<close>: what the program uses of Go's standard library:
    strings, numbers in text, UTF-8 repair, the scanner, writer and typed decoder of JSON, and instants
    as RFC 3339 text. They map to no line of the repository.
  \<^item> \<open>Codec\<close>: \<open>protocol/mqtt.go\<close>. Framing, and each encoder against its decoder.
  \<^item> \<open>Bulb\<close>, \<open>Alink\<close>: \<open>bulb/bulb.go\<close>, \<open>bulb/state.go\<close>, \<open>protocol/alink.go\<close>,
    \<open>protocol/capabilities.go\<close>. The lamp's data, its reports and the commands sent to it.
  \<^item> \<open>Fakebulb\<close>, \<open>BulbLife\<close>: \<open>bulb/fakebulb/fakebulb.go\<close>, the other end of the protocol as a transition
    on the bulb's state; commands of the server are run against it. \<open>BulbLife\<close> adds the connection, from
    \<open>Dial\<close> to the end of \<open>readLoop\<close>, with sends that fail.
  \<^item> \<open>Events\<close>: \<open>events/event.go\<close>, \<open>events/bus.go\<close>. Publishing as a function, and the lock-free part of
    \<open>offer\<close> as a step relation \<open>chan_step\<close> between any number of publishers and the consumer; the
    interface \<open>bounded_buffer\<close>, also provided by the scrollback of the terminal.
  \<^item> \<open>Registry\<close>, \<open>Persist\<close>, \<open>Saving\<close>, \<open>RegText\<close>: \<open>registry/registry.go\<close>,
    \<open>registry/persist.go\<close>. Every operation of the registry and the system \<open>reg_step\<close> of all of them; the
    saved value, what \<open>Load\<close> asks of it, and the debounced flush as \<open>store_step\<close>, whose two flags allow
    failing writes and overlapping flushes. \<open>Saving\<close> has the calls that replace the file on disk, each
    of which may fail or be the last before a crash, and the exit path of \<open>run\<close>; \<open>RegText\<close> has the bytes
    of the file, written by \<open>json.MarshalIndent\<close> and taken apart again by \<open>Load\<close>.
  \<^item> \<open>Lights\<close>: \<open>lights/service.go\<close>, \<open>lights/errors.go\<close>. Resolution and application of changes; the
    interface \<open>lamp_host\<close> is the state a front end lives in, given by a registry and a way to publish.
  \<^item> \<open>Server\<close>, \<open>Sessions\<close>, \<open>Levels\<close>, \<open>Races\<close>, \<open>Arrival\<close>, \<open>Certs\<close>: \<open>server/server.go\<close>,
    \<open>server/session.go\<close>, \<open>server/tls.go\<close>. The record \<open>world\<close> holds registry, sessions, commands that wait, published events and bytes written;
    \<open>srv_step\<close> is the life of all connections at once. \<open>Sessions\<close> holds the invariant \<open>srv_inv\<close> and the
    frame \<open>handler_frame\<close> of what a packet can touch; \<open>Levels\<close> the bounds of every brightness and colour
    temperature the server keeps; \<open>Races\<close> lets the goroutines of the sessions interleave access by
    access (\<open>hand_step\<close>), with the handlers of \<open>Server\<close> as the case that nobody interferes.
    \<open>Arrival\<close> has the first byte, the TLS offer and the accept loop, \<open>Certs\<close> the key file and the certificate of each name.
  \<^item> \<open>Delivery\<close>, \<open>EndToEnd\<close>: the components put together. A command of the session runs against the
    bulb of \<open>Fakebulb\<close>, which reads it, answers and is read back while the command waits; on top of it
    the terminal's line and the broker's message, from the text to the lamp and back to what is shown.
  \<^item> \<open>Control\<close>, \<open>Tui\<close>: \<open>control/parse.go\<close>, \<open>control/execute.go\<close>, \<open>control/help.go\<close>, \<open>tui/feed.go\<close>,
    \<open>tui/model.go\<close>, \<open>tui/view.go\<close>. From a line to a command, its effect and its text; the interface
    as a step relation \<open>ui_step\<close>.
  \<^item> \<open>Hass\<close>, \<open>Mqtt\<close>, \<open>ClientLife\<close>, \<open>Broker\<close>, \<open>BrokerLife\<close>, \<open>Bridge\<close>: \<open>hass/\<close>, \<open>mqtt/client.go\<close>,
    \<open>mqtt/mqtttest/broker.go\<close>. Topics, payloads and unit scales (interface \<open>unit_scale\<close>), the client's
    state and its life from one connection to the next, a broker and a connection of it from end to end,
    and the bridge between events and retained messages (\<open>bridge_step\<close>); the record \<open>panel\<close> is the abstract
    account of what Home Assistant shows of one lamp, which the bridge refines.
  \<^item> \<open>Wired\<close>, \<open>Overlap\<close>: the bridge in its surroundings. In \<open>Wired\<close> it speaks through the client to a broker
    that reads the bytes later (\<open>wired_step\<close>), and \<open>retained_of\<close> takes the broker to the map of \<open>Bridge\<close>;
    in \<open>Overlap\<close> \<open>Run\<close>, any number of \<open>OnConnect\<close> and removals interleave access by access
    (\<open>overlap_step\<close>), with the handlers of \<open>Bridge\<close> as the case that nobody interferes.
  \<^item> \<open>Config\<close>, \<open>Daemon\<close>, \<open>Boot\<close>, \<open>PowerCycle\<close>, \<open>Instance\<close>, \<open>Logs\<close>: \<open>config/config.go\<close>, \<open>config/lamps.go\<close>,
    \<open>cmd/haigosmartd/main.go\<close>, \<open>logging/logging.go\<close>. Settings from defaults, environment and command
    line; \<open>start_up\<close>, what an instance decides before it serves; \<open>boot\<close>, the same from the bytes of the
    registry file, with what it leaves on the disk when it is refused; \<open>main_program\<close>, and the store from
    one start to the next; \<open>run_step\<close>, an instance that serves, is told to stop and leaves; the members of
    every line of the record stream.

  \<^bold>\<open>What the lemmas show.\<close> Round trips: every encoder of the codec, the terminal's commands, the
  configured lamps, instants, and the registry file byte by byte. A power cycle: an instance that was
  stopped with its last save written and its names distinct starts again with exactly the lamps it had;
  one that is told to stop reaches its exit. Composition: a change typed at the terminal or sent by Home
  Assistant arrives at the lamp and comes back to the surface it came from; a lamp that keeps silent
  leads to the timeout error and to nothing else; the broker holds what the bridge takes it to hold, as
  soon as it has read what is on its way. Durability: whatever call fails and wherever the
  machine stops, the file holds the registry of before or of after; the key on disk gives the same
  identity after a restart. The client offers the same session after every loss and gives up only when
  it is told to. Invariants: the registry, the bus under interleaving, the store,
  the server's links between lamps and sessions, and the entries of the bridge, whatever the goroutines
  of either do to each other. Refinement and equivalence:
  the commands sent drive a bulb to the wanted state; a stalled subscriber and the scrollback keep the
  newest entries; the terminal and Home Assistant have the same effect; settings follow one order of
  precedence. Safety: packets of one lamp cannot touch another; an unattended instance serves only the
  configured lamps; a terminal line or a delivered message acts on one connected lamp or on none.
  Sections named \<open>Where ... falls short\<close>, and a few lemmas beside them, prove behaviour that deviates
  from what comments and documents of the program say.

  \<^bold>\<open>Bounds.\<close> Every function is total. Recursion is structural or has a measure; the length prefix has the
  four rounds of the code. The JSON scanner consumes its input at every step, and refuses nesting
  beyond the library's limit of 10000. Nothing runs on fuel: the loops that only the outside ends, the
  accept loop and the client's, are played against a finite list of what the outside does, and what
  they are doing behind the list is part of their result. Machine widths are kept where they matter:
  bytes, 16-bit packet ids and lengths, the 64-bit range of decoded integers. Time is an integer number
  of nanoseconds; its text has the years 0 to 9999 that the standard library writes.

  \<^bold>\<open>Parameters.\<close> Third-party and formatting code is an argument of the definitions that use it: the
  quoting verb of \<open>fmt\<close>, the text of a time in a zone, what \<open>time.Parse\<close> still accepts where the strict
  form of RFC 3339 fails, the names of cipher suites, key encodings and signing, the terminal's text
  field and cell widths, the results of file system and network calls, and, for a command that waits,
  everything the other goroutines do in the meantime.

  \<^bold>\<open>Not modelled.\<close> Sockets and deadlines other than as results; cryptography and the library's TLS state
  machine; the text the logger's JSON handler makes of a line, and the wording of the records; upper and
  lower case outside ASCII; overflow of 64-bit arithmetic on kelvin settings and of durations; how the
  runtime delivers signals, the program that runs the interface, and goroutines that are still going when
  the process ends; the test broker's listener. Where single accesses do not matter a handler is one step,
  in \<open>Server\<close>, \<open>Bridge\<close> and \<open>Wired\<close>; \<open>Races\<close> and \<open>Overlap\<close> take handlers apart. A rename
  and its event, and the sending of one command, are one step everywhere. Tests, scripts, packaging and documents
  hold no behaviour of the program.
\<close>

end
